(* ===== verification/Ws_Prelude.thy ===== *)
theory Ws_Prelude
  imports Main "HOL-Library.Word"
begin

text \<open>
  Shared vocabulary of the development: the machine-integer types of the Rust code, the
  three-way outcome of a Rust function (\<open>Ok\<close>, \<open>Err\<close>, or a panic), sequencing of
  outcomes (the \<open>?\<close> operator), and big-endian byte encodings with their round trips.
  \<open>usize\<close> is the 64-bit one: the crate is modelled on a 64-bit target.
\<close>

unbundle bit_operations_syntax

section \<open>Machine integers\<close>

type_synonym u8 = "8 word"
type_synonym u16 = "16 word"
type_synonym u32 = "32 word"
type_synonym u64 = "64 word"
type_synonym usize = "64 word"
type_synonym bytes = "u8 list"

named_theorems outcome_simps \<open>evaluation of outcomes and of their sequencing\<close>
named_theorems length_simps \<open>lengths of encoded byte strings\<close>

text \<open>\<open>xs.len()\<close> as the \<open>usize\<close> it is in the code.\<close>

definition len_usize :: "'a list \<Rightarrow> usize" where
  "len_usize xs = of_nat (length xs)"

text \<open>\<open>usize::saturating_add\<close>.\<close>

definition saturating_add :: "usize \<Rightarrow> usize \<Rightarrow> usize" where
  "saturating_add a b = (if unat a + unat b < 2 ^ 64 then a + b else - 1)"

lemma unat_len_usize: "length xs < 2 ^ 64 \<Longrightarrow> unat (len_usize xs) = length xs"
  by (simp add: len_usize_def unsigned_of_nat take_bit_nat_eq_self)

lemma unat_len_usize_le: "unat (len_usize xs) \<le> length xs"
  by (simp add: len_usize_def unat_of_nat)

lemma unat_saturating_add: "unat (saturating_add a b) = min (unat a + unat b) (2 ^ 64 - 1)"
proof (cases "unat a + unat b < 2 ^ 64")
  case True
  then show ?thesis by (simp add: saturating_add_def unat_word_ariths)
next
  case False
  moreover have "unat (- 1 :: usize) = 2 ^ 64 - 1" by (simp add: unsigned_minus_1_eq_mask mask_eq_exp_minus_1)
  ultimately show ?thesis by (simp add: saturating_add_def)
qed

section \<open>Outcomes\<close>

text \<open>
  A Rust function that returns \<open>Result<T, E>\<close> ends in one of three ways: \<open>Ok\<close>,
  \<open>Err\<close>, or a panic (an \<open>unwrap\<close> of the wrong variant, an \<open>unreachable!\<close>, an
  index out of range). The panic is a value of the model, so that its absence is a theorem.
\<close>

datatype ('e, 'a) res = Ok 'a | Err 'e | Panic

fun bind_res :: "('e, 'a) res \<Rightarrow> ('a \<Rightarrow> ('e, 'b) res) \<Rightarrow> ('e, 'b) res" where
  "bind_res (Ok a) f = f a"
| "bind_res (Err e) f = Err e"
| "bind_res Panic f = Panic"

text \<open>The \<open>?\<close> operator in a function that also threads a mutable state.\<close>

definition bind_st ::
  "('e, 'a) res \<times> 's \<Rightarrow> ('a \<Rightarrow> 's \<Rightarrow> ('e, 'b) res \<times> 's) \<Rightarrow> ('e, 'b) res \<times> 's" where
  "bind_st r f = (case r of
     (Ok a, s) \<Rightarrow> f a s
   | (Err e, s) \<Rightarrow> (Err e, s)
   | (Panic, s) \<Rightarrow> (Panic, s))"

lemma bind_st_simps [simp, outcome_simps]:
  "bind_st (Ok a, s) f = f a s"
  "bind_st (Err e, s) f = (Err e, s)"
  "bind_st (Panic, s) f = (Panic, s)"
  by (simp_all add: bind_st_def)

lemma bind_res_eq_Ok [outcome_simps]:
  "bind_res m f = Ok b \<longleftrightarrow> (\<exists>a. m = Ok a \<and> f a = Ok b)"
  by (cases m) auto

lemma bind_res_eq_Panic [outcome_simps]:
  "bind_res m f = Panic \<longleftrightarrow> m = Panic \<or> (\<exists>a. m = Ok a \<and> f a = Panic)"
  by (cases m) auto

lemma bind_st_cases:
  assumes "bind_st r f = (x, t)"
  obtains a s where "r = (Ok a, s)" "f a s = (x, t)"
  | e where "r = (Err e, t)" "x = Err e"
  | "r = (Panic, t)" "x = Panic"
  using assms by (auto simp: bind_st_def split: prod.splits res.splits)

section \<open>Big-endian encodings\<close>

text \<open>\<open>u16::to_be_bytes\<close>, \<open>u64::to_be_bytes\<close> and their inverses.\<close>

definition u16_to_be_bytes :: "u16 \<Rightarrow> bytes" where
  "u16_to_be_bytes w = [ucast (drop_bit 8 w), ucast w]"

definition u64_to_be_bytes :: "u64 \<Rightarrow> bytes" where
  "u64_to_be_bytes w =
     [ucast (drop_bit 56 w), ucast (drop_bit 48 w), ucast (drop_bit 40 w), ucast (drop_bit 32 w),
      ucast (drop_bit 24 w), ucast (drop_bit 16 w), ucast (drop_bit 8 w), ucast w]"

primrec be_acc :: "'n::len word \<Rightarrow> bytes \<Rightarrow> 'n word" where
  "be_acc acc [] = acc"
| "be_acc acc (b # bs) = be_acc (push_bit 8 acc OR ucast b) bs"

definition u16_from_be_bytes :: "bytes \<Rightarrow> u16" where
  "u16_from_be_bytes bs = be_acc 0 bs"

definition u64_from_be_bytes :: "bytes \<Rightarrow> u64" where
  "u64_from_be_bytes bs = be_acc 0 bs"

lemma length_u16_to_be_bytes [simp, length_simps]: "length (u16_to_be_bytes w) = 2"
  by (simp add: u16_to_be_bytes_def)

lemma length_u64_to_be_bytes [simp, length_simps]: "length (u64_to_be_bytes w) = 8"
  by (simp add: u64_to_be_bytes_def)

lemma shift_in_byte:
  fixes w :: "'n::len word"
  shows "push_bit 8 (drop_bit (n + 8) w) OR ucast (ucast (drop_bit n w) :: u8) = drop_bit n w"
  by (rule bit_word_eqI) (auto simp: bit_simps dest: bit_imp_le_length)

lemma u16_be_roundtrip [simp]: "u16_from_be_bytes (u16_to_be_bytes w) = w"
proof -
  have "push_bit 8 0 OR ucast (ucast (drop_bit 8 w) :: u8) = drop_bit 8 w"
    by (rule bit_word_eqI) (auto simp: bit_simps dest: bit_imp_le_length)
  then show ?thesis
    using shift_in_byte[of 0 w] by (simp add: u16_from_be_bytes_def u16_to_be_bytes_def)
qed

lemma u64_be_roundtrip [simp]: "u64_from_be_bytes (u64_to_be_bytes w) = w"
proof -
  have "push_bit 8 0 OR ucast (ucast (drop_bit 56 w) :: u8) = drop_bit 56 w"
    by (rule bit_word_eqI) (auto simp: bit_simps dest: bit_imp_le_length)
  then show ?thesis
    using shift_in_byte[of 48 w] shift_in_byte[of 40 w] shift_in_byte[of 32 w]
      shift_in_byte[of 24 w] shift_in_byte[of 16 w] shift_in_byte[of 8 w] shift_in_byte[of 0 w]
    by (simp add: u64_from_be_bytes_def u64_to_be_bytes_def)
qed

lemma u16_be_inverse [simp]: "u16_to_be_bytes (u16_from_be_bytes [a, b]) = [a, b]"
proof -
  have "ucast (drop_bit 8 (push_bit 8 (push_bit 8 0 OR ucast a) OR ucast b :: u16)) = a"
    by (rule bit_word_eqI) (auto simp: bit_simps dest: bit_imp_le_length)
  moreover have "ucast (push_bit 8 (push_bit 8 0 OR ucast a) OR ucast b :: u16) = b"
    by (rule bit_word_eqI) (auto simp: bit_simps dest: bit_imp_le_length)
  ultimately show ?thesis by (simp add: u16_from_be_bytes_def u16_to_be_bytes_def)
qed

lemma be_acc_append: "be_acc acc (xs @ ys) = be_acc (be_acc acc xs) ys"
  by (induction xs arbitrary: acc) auto

lemma be_acc_zeros [simp]: "be_acc 0 (replicate n 0) = 0"
  by (induction n) auto

section \<open>Byte strings\<close>

text \<open>The bytes of an ASCII literal.\<close>

definition ascii :: "string \<Rightarrow> bytes" where
  "ascii s = map of_char s"

lemma length_ascii [simp, length_simps]: "length (ascii s) = length s"
  by (simp add: ascii_def)

lemma take_append_ge [simp]: "length xs = n \<Longrightarrow> take n (xs @ ys) = xs"
  by simp

lemma drop_append_ge [simp]: "length xs = n \<Longrightarrow> drop n (xs @ ys) = ys"
  by simp

end
