(* ===== verification/Coding.thy ===== *)
theory Coding
  imports Ws_Prelude
begin

text \<open>
  The RFC 6455 code points of \<open>src/protocol/frame/coding.rs\<close>: opcodes and close codes
  with their conversions to and from machine integers. \<open>OpCode::from(u8)\<close> panics above
  15; the panic is the value \<open>Panic\<close>.
\<close>

section \<open>Opcodes\<close>

datatype op_data = OpContinue | OpText | OpBinary | OpDataReserved u8
datatype op_ctl = OpClose | OpPing | OpPong | OpCtlReserved u8
datatype op_code = OpData op_data | OpControl op_ctl

text \<open>\<open>impl From<OpCode> for u8\<close>.\<close>

fun u8_of_opcode :: "op_code \<Rightarrow> u8" where
  "u8_of_opcode (OpData OpContinue) = 0"
| "u8_of_opcode (OpData OpText) = 1"
| "u8_of_opcode (OpData OpBinary) = 2"
| "u8_of_opcode (OpData (OpDataReserved i)) = i"
| "u8_of_opcode (OpControl OpClose) = 8"
| "u8_of_opcode (OpControl OpPing) = 9"
| "u8_of_opcode (OpControl OpPong) = 10"
| "u8_of_opcode (OpControl (OpCtlReserved i)) = i"

text \<open>\<open>impl From<u8> for OpCode\<close>.\<close>

definition opcode_of_u8 :: "u8 \<Rightarrow> ('e, op_code) res" where
  "opcode_of_u8 byte =
     (if byte = 0 then Ok (OpData OpContinue)
      else if byte = 1 then Ok (OpData OpText)
      else if byte = 2 then Ok (OpData OpBinary)
      else if 3 \<le> byte \<and> byte \<le> 7 then Ok (OpData (OpDataReserved byte))
      else if byte = 8 then Ok (OpControl OpClose)
      else if byte = 9 then Ok (OpControl OpPing)
      else if byte = 10 then Ok (OpControl OpPong)
      else if 11 \<le> byte \<and> byte \<le> 15 then Ok (OpControl (OpCtlReserved byte))
      else Panic)"

text \<open>The reserved opcodes, and the values a well-formed \<open>OpCode\<close> carries.\<close>

fun is_reserved :: "op_code \<Rightarrow> bool" where
  "is_reserved (OpData (OpDataReserved i)) = True"
| "is_reserved (OpControl (OpCtlReserved i)) = True"
| "is_reserved c = False"

fun opcode_wf :: "op_code \<Rightarrow> bool" where
  "opcode_wf (OpData (OpDataReserved i)) \<longleftrightarrow> 3 \<le> i \<and> i \<le> 7"
| "opcode_wf (OpControl (OpCtlReserved i)) \<longleftrightarrow> 11 \<le> i \<and> i \<le> 15"
| "opcode_wf c \<longleftrightarrow> True"

text \<open>\<open>impl fmt::Display\<close> for the opcodes; \<open>dec\<close> is the decimal printing of a byte.\<close>

fun show_nat :: "nat \<Rightarrow> string" where
  "show_nat n = (if n < 10 then [char_of (48 + n)] else show_nat (n div 10) @ [char_of (48 + n mod 10)])"

declare show_nat.simps [simp del]

fun show_op_data :: "op_data \<Rightarrow> string" where
  "show_op_data OpContinue = ''CONTINUE''"
| "show_op_data OpText = ''TEXT''"
| "show_op_data OpBinary = ''BINARY''"
| "show_op_data (OpDataReserved x) = ''RESERVED_DATA_'' @ show_nat (unat x)"

fun show_op_ctl :: "op_ctl \<Rightarrow> string" where
  "show_op_ctl OpClose = ''CLOSE''"
| "show_op_ctl OpPing = ''PING''"
| "show_op_ctl OpPong = ''PONG''"
| "show_op_ctl (OpCtlReserved x) = ''RESERVED_CONTROL_'' @ show_nat (unat x)"

fun show_op_code :: "op_code \<Rightarrow> string" where
  "show_op_code (OpData d) = show_op_data d"
| "show_op_code (OpControl c) = show_op_ctl c"

lemma opcode_roundtrip: "opcode_wf c \<Longrightarrow> opcode_of_u8 (u8_of_opcode c) = Ok c"
  by (cases c rule: opcode_wf.cases) (simp_all add: opcode_of_u8_def, unat_arith+)

lemma opcode_of_u8_wf: "opcode_of_u8 b = Ok c \<Longrightarrow> opcode_wf c \<and> u8_of_opcode c = b"
  by (auto simp: opcode_of_u8_def split: if_splits)

lemma opcode_of_u8_total: "b \<le> 15 \<Longrightarrow> opcode_of_u8 b \<noteq> Panic"
proof
  assume le: "b \<le> 15" and "opcode_of_u8 b = Panic"
  then have "b \<noteq> 0" "b \<noteq> 1" "b \<noteq> 2" "\<not> (3 \<le> b \<and> b \<le> 7)" "b \<noteq> 8" "b \<noteq> 9" "b \<noteq> 10"
    "\<not> (11 \<le> b \<and> b \<le> 15)"
    by (auto simp: opcode_of_u8_def split: if_splits)
  with le show False by unat_arith
qed

lemma u8_of_opcode_le: "opcode_wf c \<Longrightarrow> u8_of_opcode c \<le> 15"
  by (cases c rule: opcode_wf.cases) (auto intro: order.trans)

lemma opcode_of_u8_no_err: "opcode_of_u8 b \<noteq> Err e"
  by (simp add: opcode_of_u8_def)

lemma low_nibble_le: "(b :: u8) AND 0x0F \<le> 15"
  by (rule word_and_le1)

section \<open>Close codes\<close>

datatype close_code =
    Code_Normal | Code_Away | Code_Protocol | Code_Unsupported | Code_Status | Code_Abnormal
  | Code_Invalid | Code_Policy | Code_Size | Code_Extension | Code_Error | Code_Restart
  | Code_Again | Code_Tls | Code_Reserved u16 | Code_Iana u16 | Code_Library u16 | Code_Bad u16

fun close_code_is_allowed :: "close_code \<Rightarrow> bool" where
  "close_code_is_allowed (Code_Bad c) = False"
| "close_code_is_allowed (Code_Reserved c) = False"
| "close_code_is_allowed Code_Status = False"
| "close_code_is_allowed Code_Abnormal = False"
| "close_code_is_allowed Code_Tls = False"
| "close_code_is_allowed c = True"

text \<open>\<open>impl From<CloseCode> for u16\<close>.\<close>

fun u16_of_close_code :: "close_code \<Rightarrow> u16" where
  "u16_of_close_code Code_Normal = 1000"
| "u16_of_close_code Code_Away = 1001"
| "u16_of_close_code Code_Protocol = 1002"
| "u16_of_close_code Code_Unsupported = 1003"
| "u16_of_close_code Code_Status = 1005"
| "u16_of_close_code Code_Abnormal = 1006"
| "u16_of_close_code Code_Invalid = 1007"
| "u16_of_close_code Code_Policy = 1008"
| "u16_of_close_code Code_Size = 1009"
| "u16_of_close_code Code_Extension = 1010"
| "u16_of_close_code Code_Error = 1011"
| "u16_of_close_code Code_Restart = 1012"
| "u16_of_close_code Code_Again = 1013"
| "u16_of_close_code Code_Tls = 1015"
| "u16_of_close_code (Code_Reserved code) = code"
| "u16_of_close_code (Code_Iana code) = code"
| "u16_of_close_code (Code_Library code) = code"
| "u16_of_close_code (Code_Bad code) = code"

definition u16_of_close_code_ref :: "close_code \<Rightarrow> u16" where
  "u16_of_close_code_ref code = u16_of_close_code code"

text \<open>\<open>impl From<u16> for CloseCode\<close>, its arms in the source's order.\<close>

definition close_code_of_u16 :: "u16 \<Rightarrow> close_code" where
  "close_code_of_u16 code =
     (if code = 1000 then Code_Normal
      else if code = 1001 then Code_Away
      else if code = 1002 then Code_Protocol
      else if code = 1003 then Code_Unsupported
      else if code = 1005 then Code_Status
      else if code = 1006 then Code_Abnormal
      else if code = 1007 then Code_Invalid
      else if code = 1008 then Code_Policy
      else if code = 1009 then Code_Size
      else if code = 1010 then Code_Extension
      else if code = 1011 then Code_Error
      else if code = 1012 then Code_Restart
      else if code = 1013 then Code_Again
      else if code = 1015 then Code_Tls
      else if 1 \<le> code \<and> code \<le> 999 then Code_Bad code
      else if 1016 \<le> code \<and> code \<le> 2999 then Code_Reserved code
      else if 3000 \<le> code \<and> code \<le> 3999 then Code_Iana code
      else if 4000 \<le> code \<and> code \<le> 4999 then Code_Library code
      else Code_Bad code)"

text \<open>\<open>impl fmt::Display for CloseCode\<close>.\<close>

definition show_close_code :: "close_code \<Rightarrow> string" where
  "show_close_code c = show_nat (unat (u16_of_close_code c))"

text \<open>The close codes an endpoint may put on the wire (RFC 6455, 7.4).\<close>

definition wire_close_code :: "u16 \<Rightarrow> bool" where
  "wire_close_code w \<longleftrightarrow>
     (1000 \<le> w \<and> w \<le> 1003) \<or> (1007 \<le> w \<and> w \<le> 1013) \<or> (3000 \<le> w \<and> w \<le> 4999)"

lemma u16_of_close_code_of_u16: "u16_of_close_code (close_code_of_u16 w) = w"
  by (simp add: close_code_of_u16_def)

section \<open>Properties\<close>

text \<open>Decoding a close code loses nothing, and the codes the library allows on the wire
  are exactly those of RFC 6455: 1000 to 1003, 1007 to 1013, and 3000 to 4999.\<close>

theorem close_code_classification:
  "u16_of_close_code (close_code_of_u16 w) = w
   \<and> close_code_is_allowed (close_code_of_u16 w) = wire_close_code w"
proof
  show "u16_of_close_code (close_code_of_u16 w) = w"
    by (rule u16_of_close_code_of_u16)
  show "close_code_is_allowed (close_code_of_u16 w) = wire_close_code w"
    by (simp add: close_code_of_u16_def wire_close_code_def word_le_nat_alt word_unat_eq_iff) presburger
qed

text \<open>Opcode conversion panics exactly above 15, and is a bijection between the bytes up
  to 15 and the well-formed opcodes.\<close>

theorem opcode_conversion:
  "(opcode_of_u8 b = (Panic :: ('e, op_code) res)) = (15 < b)
   \<and> ((opcode_of_u8 b :: ('e, op_code) res) = Ok c) = (opcode_wf c \<and> u8_of_opcode c = b)"
proof
  show "(opcode_of_u8 b = (Panic :: ('e, op_code) res)) = (15 < b)"
    using opcode_of_u8_wf[of b, where ?'a = 'e] u8_of_opcode_le opcode_of_u8_total[of b, where ?'a = 'e]
    by (cases "opcode_of_u8 b :: ('e, op_code) res") (fastforce simp: not_le opcode_of_u8_no_err)+
  show "((opcode_of_u8 b :: ('e, op_code) res) = Ok c) = (opcode_wf c \<and> u8_of_opcode c = b)"
    using opcode_of_u8_wf[of b c] opcode_roundtrip[of c] by auto
qed

end
