(* ===== verification/Errors.thy ===== *)
theory Errors
  imports Coding
begin

text \<open>
  The error types of \<open>src/error.rs\<close>. Values of foreign crates that the code only carries
  are type parameters: \<open>'r\<close> for the boxed HTTP response of \<open>Error::Http\<close>, \<open>'x\<close> for the
  errors of the \<open>http\<close>, \<open>native-tls\<close> and \<open>rustls\<close> crates. Texts are their UTF-8 bytes.
\<close>

section \<open>I/O errors of the standard library\<close>

text \<open>
  \<open>std::io::ErrorKind\<close>: the kinds the code names, the others by a number.
\<close>

datatype io_error_kind = ConnectionReset | UnexpectedEof | NotFound | OtherKind nat

datatype io_error = Io_Error (io_kind: io_error_kind) (io_text: bytes)

section \<open>The crate's errors\<close>

datatype capacity_error = TooManyHeaders | MessageTooLong (size_of: usize) (max_size: usize)

datatype sub_protocol_error =
  ServerSentSubProtocolNoneRequested | InvalidSubProtocol | NoSubProtocol

text \<open>\<open>httparse::Error\<close>, whose variants the code distinguishes.\<close>

datatype httparse_error =
    Httparse_HeaderName | Httparse_HeaderValue | Httparse_NewLine | Httparse_Status
  | Httparse_Token | Httparse_TooManyHeaders | Httparse_Version

datatype protocol_error =
    WrongHttpMethod
  | WrongHttpVersion
  | MissingConnectionUpgradeHeader
  | MissingUpgradeWebSocketHeader
  | MissingSecWebSocketVersionHeader
  | MissingSecWebSocketKey
  | SecWebSocketAcceptKeyMismatch
  | SecWebSocketSubProtocolError sub_protocol_error
  | JunkAfterRequest
  | CustomResponseSuccessful
  | InvalidHeader bytes
  | HandshakeIncomplete
  | HttparseError httparse_error
  | SendAfterClosing
  | ReceivedAfterClosing
  | NonZeroReservedBits
  | UnmaskedFrameFromClient
  | MaskedFrameFromServer
  | FragmentedControlFrame
  | ControlFrameTooBig
  | UnknownControlFrameType u8
  | UnknownDataFrameType u8
  | UnexpectedContinueFrame
  | ExpectedFragment op_data
  | ResetWithoutClosingHandshake
  | InvalidOpcode u8
  | InvalidCloseSequence

datatype url_error =
  TlsFeatureNotEnabled | NoHostName | UnsupportedUrlScheme | EmptyHostName | NoPathOrQuery

datatype 'x tls_error = Tls_Native 'x | Tls_Rustls 'x | InvalidDnsName

datatype ('r, 'x) error =
    ConnectionClosed
  | AlreadyClosed
  | Io io_error
  | Tls "'x tls_error"
  | Capacity capacity_error
  | Protocol protocol_error
  | Utf8 bytes
  | Url url_error
  | Http 'r
  | HttpFormat 'x

text \<open>\<open>impl From<httparse::Error> for Error\<close>.\<close>

fun error_of_httparse :: "httparse_error \<Rightarrow> ('r, 'x) error" where
  "error_of_httparse Httparse_TooManyHeaders = Capacity TooManyHeaders"
| "error_of_httparse e = Protocol (HttparseError e)"

text \<open>The \<open>From\<close> conversions of the foreign errors, by the variant they end in.\<close>

definition error_of_http :: "'x \<Rightarrow> ('r, 'x) error" where
  "error_of_http e = HttpFormat e"

definition tls_error_of_native :: "'x \<Rightarrow> 'x tls_error" where
  "tls_error_of_native e = Tls_Native e"

definition tls_error_of_rustls :: "'x \<Rightarrow> 'x tls_error" where
  "tls_error_of_rustls e = Tls_Rustls e"

end
