(* ===== verification/Utf8_Text.thy ===== *)
theory Utf8_Text
  imports Errors "HOL-Library.List_Lexorder"
begin

text \<open>
  UTF-8 text: the validator of the standard library (\<open>core::str::from_utf8\<close>, whose
  results \<open>simdutf8::compat\<close> documents to return), the contract of the \<open>simdutf8\<close> crate,
  the \<open>Utf8Bytes\<close> type of \<open>src/protocol/frame/utf8/bytes.rs\<close>, and
  \<open>String::from_utf8_lossy\<close>.
\<close>

section \<open>The validator of the standard library\<close>

text \<open>\<open>Utf8Error\<close>: \<open>valid_up_to()\<close> and \<open>error_len()\<close>.\<close>

datatype utf8_verdict = Utf8_Valid | Utf8_Error (valid_up_to: nat) (error_len: "nat option")

text \<open>
  The first character of a byte string: complete and so many bytes long, malformed with
  an invalid sequence so many bytes long, or cut off by the end of the input.
\<close>

datatype char_verdict = Whole nat | Broken nat | Short

definition is_cont :: "u8 \<Rightarrow> bool" where
  "is_cont b \<longleftrightarrow> 0x80 \<le> b \<and> b \<le> 0xBF"

definition second_of_3 :: "u8 \<Rightarrow> u8 \<Rightarrow> bool" where
  "second_of_3 b c \<longleftrightarrow>
     (b = 0xE0 \<and> 0xA0 \<le> c \<and> c \<le> 0xBF) \<or> (0xE1 \<le> b \<and> b \<le> 0xEC \<and> 0x80 \<le> c \<and> c \<le> 0xBF)
     \<or> (b = 0xED \<and> 0x80 \<le> c \<and> c \<le> 0x9F) \<or> (0xEE \<le> b \<and> b \<le> 0xEF \<and> 0x80 \<le> c \<and> c \<le> 0xBF)"

definition second_of_4 :: "u8 \<Rightarrow> u8 \<Rightarrow> bool" where
  "second_of_4 b c \<longleftrightarrow>
     (b = 0xF0 \<and> 0x90 \<le> c \<and> c \<le> 0xBF) \<or> (0xF1 \<le> b \<and> b \<le> 0xF3 \<and> 0x80 \<le> c \<and> c \<le> 0xBF)
     \<or> (b = 0xF4 \<and> 0x80 \<le> c \<and> c \<le> 0x8F)"

text \<open>\<open>utf8_char_width\<close>: the length a first byte announces, 0 for a byte that starts none.\<close>

definition utf8_char_width :: "u8 \<Rightarrow> nat" where
  "utf8_char_width b =
     (if b < 0x80 then 1
      else if 0xC2 \<le> b \<and> b \<le> 0xDF then 2
      else if 0xE0 \<le> b \<and> b \<le> 0xEF then 3
      else if 0xF0 \<le> b \<and> b \<le> 0xF4 then 4
      else 0)"

fun utf8_char :: "bytes \<Rightarrow> char_verdict" where
  "utf8_char [] = Short"
| "utf8_char (b # r) =
     (if utf8_char_width b = 1 then Whole 1
      else if utf8_char_width b = 2 then
        (case r of [] \<Rightarrow> Short | c # _ \<Rightarrow> if is_cont c then Whole 2 else Broken 1)
      else if utf8_char_width b = 3 then
        (case r of [] \<Rightarrow> Short | c # s \<Rightarrow>
           if \<not> second_of_3 b c then Broken 1
           else case s of [] \<Rightarrow> Short | d # _ \<Rightarrow> if is_cont d then Whole 3 else Broken 2)
      else if utf8_char_width b = 4 then
        (case r of [] \<Rightarrow> Short | c # s \<Rightarrow>
           if \<not> second_of_4 b c then Broken 1
           else case s of [] \<Rightarrow> Short | d # t \<Rightarrow>
             if \<not> is_cont d then Broken 2
             else case t of [] \<Rightarrow> Short | e # _ \<Rightarrow> if is_cont e then Whole 4 else Broken 3)
      else Broken 1)"

lemma utf8_char_bounds:
  "utf8_char bs = Whole n \<Longrightarrow> 0 < n \<and> n \<le> length bs \<and> n \<le> 4"
  "utf8_char bs = Broken n \<Longrightarrow> 0 < n \<and> n \<le> length bs \<and> n < 4"
  "utf8_char bs = Short \<Longrightarrow> length bs < 4"
  by (cases bs; auto split: if_splits list.splits)+

function utf8_scan :: "nat \<Rightarrow> bytes \<Rightarrow> utf8_verdict" where
  "utf8_scan pos bs =
     (if bs = [] then Utf8_Valid
      else case utf8_char bs of
        Whole n \<Rightarrow> utf8_scan (pos + n) (drop n bs)
      | Broken n \<Rightarrow> Utf8_Error pos (Some n)
      | Short \<Rightarrow> Utf8_Error pos None)"
  by pat_completeness auto
termination
  by (relation "measure (\<lambda>(pos, bs). length bs)") (auto dest: utf8_char_bounds)

declare utf8_scan.simps [simp del]

definition std_from_utf8 :: "bytes \<Rightarrow> utf8_verdict" where
  "std_from_utf8 bs = utf8_scan 0 bs"

abbreviation valid_utf8 :: "bytes \<Rightarrow> bool" where
  "valid_utf8 bs \<equiv> std_from_utf8 bs = Utf8_Valid"

section \<open>Characters and concatenation\<close>

lemma utf8_char_append: "utf8_char bs \<noteq> Short \<Longrightarrow> utf8_char (bs @ t) = utf8_char bs"
  by (cases bs) (auto split: list.splits)

lemma utf8_char_ShortE:
  assumes "utf8_char p = Short"
  obtains "p = []"
  | b where "p = [b]" "utf8_char_width b \<in> {2, 3, 4}"
  | b c where "p = [b, c]" "utf8_char_width b = 3 \<and> second_of_3 b c \<or> utf8_char_width b = 4 \<and> second_of_4 b c"
  | b c d where "p = [b, c, d]" "utf8_char_width b = 4" "second_of_4 b c" "is_cont d"
  using assms by (cases p) (auto split: if_splits list.splits)

lemma short_grows:
  assumes "utf8_char p = Short"
  shows "utf8_char (p @ t) = Whole n \<Longrightarrow> length p < n"
    and "utf8_char (p @ t) = Broken n \<Longrightarrow> length p \<le> n"
  using assms utf8_char_bounds(1,2)[of t n]
  by (elim utf8_char_ShortE; auto split: if_splits list.splits)+

lemma utf8_char_take4: "utf8_char (take 4 bs) = utf8_char bs"
proof (cases "utf8_char (take 4 bs) = Short")
  case True
  then have "length (take 4 bs) < 4" by (rule utf8_char_bounds)
  then show ?thesis by simp
next
  case False
  then show ?thesis using utf8_char_append[of "take 4 bs" "drop 4 bs"] by simp
qed

section \<open>Scanning and concatenation\<close>

fun shift_verdict :: "nat \<Rightarrow> utf8_verdict \<Rightarrow> utf8_verdict" where
  "shift_verdict k Utf8_Valid = Utf8_Valid"
| "shift_verdict k (Utf8_Error v e) = Utf8_Error (k + v) e"

lemma utf8_scan_Nil [simp]: "utf8_scan pos [] = Utf8_Valid"
  by (simp add: utf8_scan.simps)

lemma utf8_scan_shift: "utf8_scan (k + pos) bs = shift_verdict k (utf8_scan pos bs)"
proof (induction pos bs rule: utf8_scan.induct)
  case (1 pos bs)
  show ?case
  proof (cases "bs = [] \<or> (\<forall>n. utf8_char bs \<noteq> Whole n)")
    case True
    then show ?thesis
      unfolding utf8_scan.simps[of "k + pos"] utf8_scan.simps[of pos bs]
      by (cases "utf8_char bs") auto
  next
    case False
    then obtain n where n: "bs \<noteq> []" "utf8_char bs = Whole n" by auto
    have "utf8_scan (k + pos) bs = utf8_scan (k + (pos + n)) (drop n bs)"
      using n by (subst utf8_scan.simps) (simp add: add.assoc)
    also have "\<dots> = shift_verdict k (utf8_scan (pos + n) (drop n bs))"
      using n by (rule 1)
    also have "utf8_scan (pos + n) (drop n bs) = utf8_scan pos bs"
      using n by (subst (2) utf8_scan.simps) simp
    finally show ?thesis .
  qed
qed

lemma std_from_utf8_Nil [simp]: "std_from_utf8 [] = Utf8_Valid"
  by (simp add: std_from_utf8_def)

lemma std_from_utf8_step:
  "bs \<noteq> [] \<Longrightarrow> std_from_utf8 bs =
     (case utf8_char bs of
        Whole n \<Rightarrow> shift_verdict n (std_from_utf8 (drop n bs))
      | Broken n \<Rightarrow> Utf8_Error 0 (Some n)
      | Short \<Rightarrow> Utf8_Error 0 None)"
proof (cases "utf8_char bs")
  case (Whole n)
  then show "bs \<noteq> [] \<Longrightarrow> ?thesis"
    using utf8_scan_shift[of n 0 "drop n bs"] unfolding std_from_utf8_def utf8_scan.simps[of 0 bs]
    by simp
qed (simp_all add: std_from_utf8_def utf8_scan.simps[of 0 bs])

lemma utf8_induct [case_names Nil Whole Broken Short]:
  assumes "P []"
    and "\<And>bs n. bs \<noteq> [] \<Longrightarrow> utf8_char bs = Whole n \<Longrightarrow> P (drop n bs) \<Longrightarrow> P bs"
    and "\<And>bs n. bs \<noteq> [] \<Longrightarrow> utf8_char bs = Broken n \<Longrightarrow> P bs"
    and "\<And>bs. bs \<noteq> [] \<Longrightarrow> utf8_char bs = Short \<Longrightarrow> P bs"
  shows "P bs"
proof (induction bs rule: length_induct)
  case (1 bs)
  show ?case
  proof (cases "bs = []")
    case False
    then show ?thesis
    proof (cases "utf8_char bs")
      case (Whole n)
      then have "P (drop n bs)"
        using 1 False utf8_char_bounds(1)[OF Whole] by simp
      with False Whole show ?thesis using assms(2) by blast
    qed (use assms False in blast)+
  qed (simp add: assms(1))
qed

lemma std_from_utf8_append:
  "valid_utf8 a \<Longrightarrow> std_from_utf8 (a @ b) = shift_verdict (length a) (std_from_utf8 b)"
proof (induction a rule: utf8_induct)
  case Nil
  then show ?case by (cases "std_from_utf8 b") auto
next
  case (Whole a n)
  have n: "n \<le> length a" using Whole(2) utf8_char_bounds by blast
  have "valid_utf8 (drop n a)"
    using Whole by (cases "std_from_utf8 (drop n a)") (auto simp: std_from_utf8_step)
  then have "std_from_utf8 (drop n a @ b) = shift_verdict (length a - n) (std_from_utf8 b)"
    using Whole.IH by simp
  then show ?case
    using Whole(1,2) n utf8_char_append[of a b]
    by (cases "std_from_utf8 b") (auto simp: std_from_utf8_step)
qed (auto simp: std_from_utf8_step)

lemma valid_utf8_append: "valid_utf8 a \<Longrightarrow> valid_utf8 (a @ b) \<longleftrightarrow> valid_utf8 b"
  by (cases "std_from_utf8 b") (auto simp: std_from_utf8_append)

text \<open>What an error says: the valid prefix is valid, and what follows it is the error.\<close>

fun char_error :: "char_verdict \<Rightarrow> nat option" where
  "char_error (Broken n) = Some n"
| "char_error c = None"

lemma std_from_utf8_error:
  "std_from_utf8 bs = Utf8_Error v e \<Longrightarrow>
     v < length bs \<and> valid_utf8 (take v bs) \<and> (\<forall>n. utf8_char (drop v bs) \<noteq> Whole n)
       \<and> e = char_error (utf8_char (drop v bs))"
proof (induction bs arbitrary: v rule: utf8_induct)
  case (Whole bs n)
  have n: "0 < n" "n \<le> length bs" using Whole(2) utf8_char_bounds by blast+
  obtain w where w: "std_from_utf8 (drop n bs) = Utf8_Error w e" and v: "v = n + w"
    using Whole by (cases "std_from_utf8 (drop n bs)") (auto simp: std_from_utf8_step)
  note IH = Whole.IH[OF w]
  have whole: "utf8_char (take n bs) = Whole n"
    using Whole(2) n utf8_char_append[of "take n bs" "drop n bs"] short_grows(1)[of "take n bs" "drop n bs" n]
    by (cases "utf8_char (take n bs)") auto
  have "valid_utf8 (take n bs)"
    using whole n std_from_utf8_step[of "take n bs"] by (cases bs) auto
  then have "valid_utf8 (take n bs @ take w (drop n bs))"
    using IH by (simp add: valid_utf8_append)
  then show ?case
    using IH v n by (auto simp: take_add add.commute)
qed (auto simp: std_from_utf8_step)

lemma char_error_Some [simp]: "char_error c = Some k \<longleftrightarrow> c = Broken k"
  by (cases c) auto

lemma std_from_utf8_by_char:
  assumes "valid_utf8 a" "p \<noteq> []"
  shows "utf8_char p = Broken n \<Longrightarrow> std_from_utf8 (a @ p) = Utf8_Error (length a) (Some n)"
    and "utf8_char p = Short \<Longrightarrow> std_from_utf8 (a @ p) = Utf8_Error (length a) None"
  using assms std_from_utf8_append[OF assms(1), of p] std_from_utf8_step[OF assms(2)] by simp_all

section \<open>The simdutf8 crate\<close>

text \<open>
  What the code calls of \<open>simdutf8\<close>: \<open>basic::from_utf8\<close> (valid or not, with one error
  value of a fixed text) and \<open>compat::from_utf8\<close> (the verdict of the standard library).
  The contract is the crate's documentation: both validate UTF-8 as the standard library
  does, and \<open>compat\<close> returns its error positions.
\<close>

record simdutf8 =
  basic_ok :: "bytes \<Rightarrow> bool"
  basic_text :: bytes
  compat_from_utf8 :: "bytes \<Rightarrow> utf8_verdict"

locale utf8_validator =
  fixes sv :: simdutf8
  assumes compat: "compat_from_utf8 sv bs = std_from_utf8 bs"
    and basic: "basic_ok sv bs \<longleftrightarrow> valid_utf8 bs"

definition std_simdutf8 :: simdutf8 where
  "std_simdutf8 = \<lparr>basic_ok = (\<lambda>bs. std_from_utf8 bs = Utf8_Valid),
     basic_text = ascii ''invalid utf-8 sequence'', compat_from_utf8 = std_from_utf8\<rparr>"

interpretation std_utf8: utf8_validator std_simdutf8
  by unfold_locales (simp_all add: std_simdutf8_def)

section \<open>Utf8Bytes\<close>

datatype utf8_bytes = Utf8Bytes (utf8_raw: bytes)

text \<open>A \<open>str\<close> is its bytes.\<close>

definition utf8_as_str :: "utf8_bytes \<Rightarrow> bytes" where
  "utf8_as_str u = utf8_raw u"

definition utf8_from_static :: "string \<Rightarrow> utf8_bytes" where
  "utf8_from_static s = Utf8Bytes (ascii s)"

text \<open>\<open>from_bytes_unchecked\<close>, and the conversion from \<open>String\<close>.\<close>

definition utf8_from_bytes_unchecked :: "bytes \<Rightarrow> utf8_bytes" where
  "utf8_from_bytes_unchecked bs = Utf8Bytes bs"

definition utf8_of_string :: "bytes \<Rightarrow> utf8_bytes" where
  "utf8_of_string s = Utf8Bytes s"

text \<open>\<open>TryFrom<Bytes>\<close>; its error is \<open>basic::Utf8Error\<close>, a unit value.\<close>

definition utf8_try_from :: "simdutf8 \<Rightarrow> bytes \<Rightarrow> (unit, utf8_bytes) res" where
  "utf8_try_from sv bs = (if basic_ok sv bs then Ok (Utf8Bytes bs) else Err ())"

text \<open>\<open>impl From<simdutf8::basic::Utf8Error> for Error\<close>, as \<open>?\<close> applies it.\<close>

fun utf8_question :: "simdutf8 \<Rightarrow> (unit, 'a) res \<Rightarrow> (('r, 'x) error, 'a) res" where
  "utf8_question sv (Ok a) = Ok a"
| "utf8_question sv (Err u) = Err (Utf8 (basic_text sv))"
| "utf8_question sv Panic = Panic"

definition utf8_wf :: "utf8_bytes \<Rightarrow> bool" where
  "utf8_wf u \<longleftrightarrow> valid_utf8 (utf8_raw u)"

text \<open>
  \<open>Deref\<close>, \<open>Borrow<str>\<close> and the three \<open>AsRef\<close>; \<open>Display\<close>; \<open>Hash\<close> and \<open>PartialEq\<close> go through
  the string, with the hash of \<open>str\<close> and its equality with the other type as arguments.
\<close>

definition utf8_deref :: "utf8_bytes \<Rightarrow> bytes" where
  "utf8_deref u = utf8_as_str u"

definition utf8_borrow :: "utf8_bytes \<Rightarrow> bytes" where
  "utf8_borrow u = utf8_as_str u"

definition utf8_as_ref_slice :: "utf8_bytes \<Rightarrow> bytes" where
  "utf8_as_ref_slice u = utf8_raw u"

definition utf8_as_ref_str :: "utf8_bytes \<Rightarrow> bytes" where
  "utf8_as_ref_str u = utf8_as_str u"

definition utf8_as_ref_bytes :: "utf8_bytes \<Rightarrow> bytes" where
  "utf8_as_ref_bytes u = utf8_raw u"

definition utf8_hash :: "(bytes \<Rightarrow> 'h \<Rightarrow> 'h) \<Rightarrow> utf8_bytes \<Rightarrow> 'h \<Rightarrow> 'h" where
  "utf8_hash hash_str u st = hash_str (utf8_as_str u) st"

definition utf8_eq :: "(bytes \<Rightarrow> 't \<Rightarrow> bool) \<Rightarrow> utf8_bytes \<Rightarrow> 't \<Rightarrow> bool" where
  "utf8_eq str_eq u other = str_eq (utf8_as_str u) other"

definition show_utf8 :: "utf8_bytes \<Rightarrow> bytes" where
  "show_utf8 u = utf8_as_str u"

text \<open>The other conversions: \<open>TryFrom<BytesMut>\<close>, \<open>TryFrom<Vec<u8>>\<close>, and from and to other types.\<close>

definition utf8_try_from_mut :: "simdutf8 \<Rightarrow> bytes \<Rightarrow> (unit, utf8_bytes) res" where
  "utf8_try_from_mut sv bs = utf8_try_from sv bs"

definition utf8_try_from_vec :: "simdutf8 \<Rightarrow> bytes \<Rightarrow> (unit, utf8_bytes) res" where
  "utf8_try_from_vec sv v = utf8_try_from sv v"

definition utf8_of_str :: "bytes \<Rightarrow> utf8_bytes" where
  "utf8_of_str s = Utf8Bytes s"

definition utf8_of_string_ref :: "bytes \<Rightarrow> utf8_bytes" where
  "utf8_of_string_ref s = utf8_of_str s"

fun bytes_of_utf8 :: "utf8_bytes \<Rightarrow> bytes" where
  "bytes_of_utf8 (Utf8Bytes bytes) = bytes"

text \<open>\<open>Ord\<close> and \<open>PartialOrd\<close>: the order of \<open>str\<close>, which is that of the bytes. It is a total order.\<close>

datatype ordering = Less | Equal | Greater

definition str_cmp :: "bytes \<Rightarrow> bytes \<Rightarrow> ordering" where
  "str_cmp a b = (if a < b then Less else if a = b then Equal else Greater)"

definition utf8_cmp :: "utf8_bytes \<Rightarrow> utf8_bytes \<Rightarrow> ordering" where
  "utf8_cmp a b = str_cmp (utf8_as_str a) (utf8_as_str b)"

definition utf8_partial_cmp :: "utf8_bytes \<Rightarrow> utf8_bytes \<Rightarrow> ordering option" where
  "utf8_partial_cmp a b = Some (utf8_cmp a b)"

instantiation utf8_bytes :: linorder
begin

definition less_eq_utf8_bytes :: "utf8_bytes \<Rightarrow> utf8_bytes \<Rightarrow> bool" where
  "less_eq_utf8_bytes a b \<longleftrightarrow> utf8_cmp a b \<noteq> Greater"

definition less_utf8_bytes :: "utf8_bytes \<Rightarrow> utf8_bytes \<Rightarrow> bool" where
  "less_utf8_bytes a b \<longleftrightarrow> utf8_cmp a b = Less"

instance
  by intro_classes (auto simp: less_eq_utf8_bytes_def less_utf8_bytes_def utf8_cmp_def str_cmp_def utf8_as_str_def
      split: if_splits intro: utf8_bytes.expand)

end

section \<open>Lossy decoding\<close>

text \<open>
  \<open>String::from_utf8_lossy\<close>: each invalid sequence becomes U+FFFD.
\<close>

function from_utf8_lossy :: "bytes \<Rightarrow> bytes" where
  "from_utf8_lossy bs =
     (case std_from_utf8 bs of
        Utf8_Valid \<Rightarrow> bs
      | Utf8_Error v None \<Rightarrow> take v bs @ [0xEF, 0xBF, 0xBD]
      | Utf8_Error v (Some n) \<Rightarrow> take v bs @ [0xEF, 0xBF, 0xBD] @ from_utf8_lossy (drop (v + n) bs))"
  by pat_completeness auto
termination
proof (relation "measure length", goal_cases)
  case (2 bs v x2 n)
  then have "std_from_utf8 bs = Utf8_Error v (Some n)" by simp
  then have "v < length bs" "utf8_char (drop v bs) = Broken n"
    using std_from_utf8_error[of bs v "Some n"] by (simp_all, metis char_error_Some)
  then show ?case
    using utf8_char_bounds(2) by fastforce
qed auto

declare from_utf8_lossy.simps [simp del]

end
