(* ===== verification/Mask.thy ===== *)
theory Mask
  imports Ws_Prelude
begin

text \<open>
  Frame masking, \<open>src/protocol/frame/mask.rs\<close>: the byte-at-a-time loop and the routine
  over 32-bit words that the codec calls. Where \<open>align_to_mut\<close> splits the buffer, and the
  byte order of the target, are outside the code: they are parameters (\<open>platform\<close>), and
  the fast routine is proved equal to the simple one for every split and both byte orders.
\<close>

section \<open>The byte loop\<close>

text \<open>\<open>[u8; 4]\<close>.\<close>

type_synonym mask4 = "u8 \<times> u8 \<times> u8 \<times> u8"

definition mask_bytes :: "mask4 \<Rightarrow> bytes" where
  "mask_bytes m = (case m of (a, b, c, d) \<Rightarrow> [a, b, c, d])"

text \<open>\<open>for (i, byte) in buf.iter_mut().enumerate() { *byte ^= mask[i & 3]; }\<close>\<close>

primrec mask_from :: "nat \<Rightarrow> bytes \<Rightarrow> mask4 \<Rightarrow> bytes" where
  "mask_from i [] m = []"
| "mask_from i (b # bs) m = (b XOR mask_bytes m ! (i AND 3)) # mask_from (Suc i) bs m"

definition apply_mask_fallback :: "bytes \<Rightarrow> mask4 \<Rightarrow> bytes" where
  "apply_mask_fallback buf m = mask_from 0 buf m"

section \<open>The word loop\<close>

text \<open>
  \<open>u32::from_ne_bytes\<close> and \<open>u32::to_ne_bytes\<close> on a target whose byte order is big endian
  (\<open>True\<close>) or little endian (\<open>False\<close>).
\<close>

fun u32_from_ne_bytes :: "bool \<Rightarrow> mask4 \<Rightarrow> u32" where
  "u32_from_ne_bytes True (a, b, c, d) =
     push_bit 24 (ucast a) OR push_bit 16 (ucast b) OR push_bit 8 (ucast c) OR ucast d"
| "u32_from_ne_bytes False (a, b, c, d) =
     ucast a OR push_bit 8 (ucast b) OR push_bit 16 (ucast c) OR push_bit 24 (ucast d)"

fun u32_to_ne_bytes :: "bool \<Rightarrow> u32 \<Rightarrow> mask4" where
  "u32_to_ne_bytes True w =
     (ucast (drop_bit 24 w), ucast (drop_bit 16 w), ucast (drop_bit 8 w), ucast w)"
| "u32_to_ne_bytes False w =
     (ucast w, ucast (drop_bit 8 w), ucast (drop_bit 16 w), ucast (drop_bit 24 w))"

text \<open>\<open>for word in words.iter_mut() { *word ^= mask_u32; }\<close>, on the bytes of the words.\<close>

fun xor_words :: "bool \<Rightarrow> u32 \<Rightarrow> bytes \<Rightarrow> bytes" where
  "xor_words big mk (a # b # c # d # rest) =
     mask_bytes (u32_to_ne_bytes big (u32_from_ne_bytes big (a, b, c, d) XOR mk))
       @ xor_words big mk rest"
| "xor_words big mk rest = rest"

text \<open>
  \<open>apply_mask_fast32\<close>. The pair \<open>(np, nw)\<close> is the split that \<open>align_to_mut::<u32>\<close> made:
  \<open>np\<close> bytes of prefix and \<open>nw\<close> whole words.
\<close>

definition apply_mask_fast32 :: "bool \<Rightarrow> nat \<times> nat \<Rightarrow> bytes \<Rightarrow> mask4 \<Rightarrow> bytes" where
  "apply_mask_fast32 big split buf m =
     (let (np, nw) = split;
          mask_u32 = u32_from_ne_bytes big m;
          prefix = take np buf;
          words = take (4 * nw) (drop np buf);
          suffix = drop (np + 4 * nw) buf;
          head = length prefix AND 3;
          mask_u32' =
            (if head > 0
             then (if big then word_rotl (8 * head) mask_u32 else word_rotr (8 * head) mask_u32)
             else mask_u32)
      in apply_mask_fallback prefix m @ xor_words big mask_u32' words
           @ apply_mask_fallback suffix (u32_to_ne_bytes big mask_u32'))"

text \<open>
  The target: its byte order, and the split of each buffer. The standard library promises
  of a split only that its parts make up the buffer (\<open>split_ok\<close>).
\<close>

record platform =
  big_endian :: bool
  align_to :: "bytes \<Rightarrow> nat \<times> nat"

definition split_ok :: "(bytes \<Rightarrow> nat \<times> nat) \<Rightarrow> bool" where
  "split_ok f \<longleftrightarrow> (\<forall>buf. fst (f buf) + 4 * snd (f buf) \<le> length buf)"

definition apply_mask :: "platform \<Rightarrow> bytes \<Rightarrow> mask4 \<Rightarrow> bytes" where
  "apply_mask pl buf m = apply_mask_fast32 (big_endian pl) (align_to pl buf) buf m"

section \<open>The byte loop: length, involution, concatenation\<close>

lemma length_mask_from [simp, length_simps]: "length (mask_from i bs m) = length bs"
  by (induction bs arbitrary: i) auto

lemma mask_from_involution: "mask_from i (mask_from i bs m) m = bs"
  by (induction bs arbitrary: i) (auto simp: xor.assoc)

lemma mask_from_append:
  "mask_from i (xs @ ys) m = mask_from i xs m @ mask_from (i + length xs) ys m"
  by (induction xs arbitrary: i) auto

lemma nth_mask_from:
  "k < length bs \<Longrightarrow> mask_from i bs m ! k = bs ! k XOR mask_bytes m ! ((i + k) AND 3)"
proof (induction bs arbitrary: i k)
  case Nil
  then show ?case by simp
next
  case (Cons b bs)
  then show ?case by (cases k) auto
qed

lemma and_3_mod_4: "(i :: nat) AND 3 = i mod 4"
  using take_bit_eq_mask [of 2 i] by (simp add: take_bit_eq_mod mask_eq_exp_minus_1)

text \<open>Rotating the mask by one byte is starting the loop one index later.\<close>

fun rotate_mask :: "mask4 \<Rightarrow> mask4" where
  "rotate_mask (a, b, c, d) = (b, c, d, a)"

lemma mask_bytes_rotate: "mask_bytes (rotate_mask m) ! (i mod 4) = mask_bytes m ! (Suc i mod 4)"
proof -
  have "i mod 4 = 0 \<or> i mod 4 = 1 \<or> i mod 4 = 2 \<or> i mod 4 = 3" by presburger
  then show ?thesis
    by (cases m rule: rotate_mask.cases) (auto simp: mask_bytes_def mod_Suc)
qed

lemma mask_from_rotate: "mask_from i bs (rotate_mask m) = mask_from (Suc i) bs m"
  by (induction bs arbitrary: i) (auto simp: and_3_mod_4 mask_bytes_rotate)

lemma mask_from_rotates: "mask_from i bs ((rotate_mask ^^ k) m) = mask_from (i + k) bs m"
  by (induction k arbitrary: i) (simp_all add: mask_from_rotate)

lemma mask_from_mod4: "mask_from (i + 4 * k) bs m = mask_from i bs m"
  by (induction bs arbitrary: i) (auto simp: and_3_mod_4 simp flip: add_Suc)

section \<open>The word loop computes the byte loop\<close>

lemma u32_ne_roundtrip [simp]: "u32_to_ne_bytes big (u32_from_ne_bytes big m) = m"
proof -
  obtain a b c d where m: "m = (a, b, c, d)" by (cases m) auto
  show ?thesis
    by (cases big; simp add: m; intro conjI; rule bit_word_eqI)
      (auto simp: bit_simps dest: bit_imp_le_length)
qed

lemma u32_from_ne_xor:
  "u32_from_ne_bytes big (a, b, c, d) XOR u32_from_ne_bytes big (e, f, g, h)
     = u32_from_ne_bytes big (a XOR e, b XOR f, c XOR g, d XOR h)"
  by (cases big; simp; rule bit_word_eqI) (auto simp: bit_simps dest: bit_imp_le_length)

text \<open>Rotating the word is rotating the mask, in the direction each byte order needs.\<close>

lemma bit_rotr8:
  "bit (word_rotr 8 (w :: u32)) n \<longleftrightarrow> n < 32 \<and> (if n < 24 then bit w (n + 8) else bit w (n - 24))"
proof -
  have "(n + 8) mod 32 = (if n < 24 then n + 8 else n - 24)" if "n < 32"
  proof (cases "n < 24")
    case False
    then have "n + 8 = (n - 24) + 32" by simp
    then have "(n + 8) mod 32 = (n - 24) mod 32" by (metis mod_add_self2)
    with False that show ?thesis by simp
  qed simp
  then show ?thesis by (cases "n < 32") (simp_all add: bit_word_rotr_iff)
qed

lemma byte_bit_high [simp]: "8 \<le> n \<Longrightarrow> \<not> bit (a :: u8) n"
  using bit_imp_le_length[of a n] by auto

lemmas word_bits = bit_or_iff bit_push_bit_iff bit_ucast_iff bit_rotr8

lemma quarter_cases:
  assumes "n < LENGTH(32)"
  obtains "n < 8" | "8 \<le> n" "n < 16" | "16 \<le> n" "n < 24" | k where "n = k + 24" "k < 8"
proof -
  have "n < 32" using assms by simp
  moreover have "\<exists>k. n = k + 24 \<and> k < 8" if "24 \<le> n" "n < 32"
    using that by presburger
  ultimately show ?thesis using that by fastforce
qed

lemma rotr8_little: "word_rotr 8 (u32_from_ne_bytes False m) = u32_from_ne_bytes False (rotate_mask m)"
proof -
  obtain a b c d where m: "m = (a, b, c, d)" by (cases m) auto
  show ?thesis
  proof (rule bit_word_eqI)
    fix n assume "n < LENGTH(32)"
    then show "bit (word_rotr 8 (u32_from_ne_bytes False m)) n
        = bit (u32_from_ne_bytes False (rotate_mask m)) n"
      by (rule quarter_cases) (simp_all add: m word_bits)
  qed
qed

lemma rotr8_big:
  "word_rotr 8 (u32_from_ne_bytes True m) = u32_from_ne_bytes True ((rotate_mask ^^ 3) m)"
proof -
  obtain a b c d where m: "m = (a, b, c, d)" by (cases m) auto
  show ?thesis
  proof (rule bit_word_eqI)
    fix n assume "n < LENGTH(32)"
    then show "bit (word_rotr 8 (u32_from_ne_bytes True m)) n
        = bit (u32_from_ne_bytes True ((rotate_mask ^^ 3) m)) n"
      by (rule quarter_cases) (simp_all add: m word_bits numeral_3_eq_3)
  qed
qed

lemma rotate_mask4 [simp]: "rotate_mask (rotate_mask (rotate_mask (rotate_mask m))) = m"
  by (cases m rule: rotate_mask.cases) simp

lemma rotated_word:
  assumes "head < 4"
  shows "(if head > 0
          then (if big then word_rotl (8 * head) (u32_from_ne_bytes big m)
                else word_rotr (8 * head) (u32_from_ne_bytes big m))
          else u32_from_ne_bytes big m)
       = u32_from_ne_bytes big ((rotate_mask ^^ head) m)"
proof -
  have add: "word_rotr 16 w = word_rotr 8 (word_rotr 8 w)"
    "word_rotr 24 w = word_rotr 8 (word_rotr 8 (word_rotr 8 w))" for w :: u32
    by (simp_all add: word_rotr_word_rotr_eq)
  have rotl: "word_rotl 8 w = word_rotr 24 w" "word_rotl 16 w = word_rotr 16 w"
    "word_rotl 24 w = word_rotr 8 w" for w :: u32
    by (simp_all add: word_rotl_eq_word_rotr)
  from assms have "head = 0 \<or> head = 1 \<or> head = 2 \<or> head = 3" by arith
  then show ?thesis
    by (cases big) (auto simp: rotl add rotr8_little rotr8_big numeral_3_eq_3 numeral_2_eq_2)
qed

lemma xor_words_eq:
  "4 dvd length bs \<Longrightarrow> xor_words big (u32_from_ne_bytes big m) bs = mask_from 0 bs m"
proof (induction big "u32_from_ne_bytes big m" bs rule: xor_words.induct)
  case (1 big a b c d rest)
  obtain e f g h where m: "m = (e, f, g, h)" by (cases m) auto
  have shift: "mask_from (Suc (Suc (Suc (Suc 0)))) rest m = mask_from 0 rest m"
    using mask_from_mod4[of 0 1] by (simp add: numeral_eq_Suc)
  from 1(2) have "4 dvd length rest + 4"
    by (simp add: numeral_eq_Suc)
  then have "4 dvd length rest"
    by presburger
  then have IH: "xor_words big (u32_from_ne_bytes big m) rest = mask_from 0 rest m"
    by (rule 1(1))
  have "mask_from 0 (a # b # c # d # rest) m = [a XOR e, b XOR f, c XOR g, d XOR h] @ mask_from 0 rest m"
    by (simp add: shift) (simp add: m mask_bytes_def and_3_mod_4)
  then show ?case
    by (simp add: IH) (simp add: m u32_from_ne_xor mask_bytes_def)
qed (auto dest: dvd_imp_le)

lemma fast32_eq_fallback:
  assumes "np + 4 * nw \<le> length buf"
  shows "apply_mask_fast32 big (np, nw) buf m = apply_mask_fallback buf m"
proof -
  let ?pre = "take np buf" and ?words = "take (4 * nw) (drop np buf)"
    and ?suf = "drop (np + 4 * nw) buf" and ?r = "(rotate_mask ^^ (np mod 4)) m"
  have buf: "buf = ?pre @ ?words @ ?suf"
    by (metis append_take_drop_id drop_drop add.commute)
  have len: "length ?pre = np" "length ?words = 4 * nw"
    using assms by auto
  have off: "mask_from i bs ?r = mask_from (i + np) bs m" for i bs
    using mask_from_mod4[of "i + np mod 4" "np div 4" bs m]
    by (simp add: mask_from_rotates add.commute)
  have "apply_mask_fast32 big (np, nw) buf m
      = mask_from 0 ?pre m @ mask_from 0 ?words ?r @ mask_from 0 ?suf ?r"
    using rotated_word[of "np mod 4" big m] xor_words_eq[of ?words big ?r]
    by (simp only: apply_mask_fast32_def apply_mask_fallback_def and_3_mod_4 Let_def prod.case len
        u32_ne_roundtrip dvd_triv_left mod_less_divisor zero_less_numeral)
  also have "\<dots> = mask_from 0 (?pre @ ?words @ ?suf) m"
    using len mask_from_mod4[of np nw ?suf m] by (simp only: mask_from_append off) simp
  finally show ?thesis using buf by (simp add: apply_mask_fallback_def)
qed

section \<open>What the codec relies on\<close>

text \<open>
  The contract between masking and the codec: masking keeps the length and undoes itself.
\<close>

locale masking =
  fixes mask_with :: "bytes \<Rightarrow> mask4 \<Rightarrow> bytes"
  assumes mask_length: "length (mask_with buf m) = length buf"
    and mask_undo: "mask_with (mask_with buf m) m = buf"
begin

lemma mask_empty: "mask_with [] m = []"
  using mask_length[of "[]" m] by simp

lemma mask_inject: "mask_with xs m = mask_with ys m \<longleftrightarrow> xs = ys"
  using mask_undo by metis

end

interpretation byte_loop: masking apply_mask_fallback
  by unfold_locales (simp_all add: apply_mask_fallback_def mask_from_involution)

text \<open>On a platform whose splits are sound, the routine the codec calls meets the contract.\<close>

locale sound_platform =
  fixes pl :: platform
  assumes splits: "split_ok (align_to pl)"
begin

lemma apply_mask_eq: "apply_mask pl buf m = apply_mask_fallback buf m"
  using splits fast32_eq_fallback[of "fst (align_to pl buf)" "snd (align_to pl buf)" buf "big_endian pl" m]
  by (simp add: apply_mask_def split_ok_def)

end

sublocale sound_platform \<subseteq> masking "apply_mask pl"
  by unfold_locales (simp_all add: apply_mask_eq byte_loop.mask_length byte_loop.mask_undo)

text \<open>
  A little-endian target where every buffer starts on a word boundary: no prefix, as many
  words as fit.
\<close>

definition aligned_le :: platform where
  "aligned_le = \<lparr>big_endian = False, align_to = (\<lambda>buf. (0, length buf div 4))\<rparr>"

interpretation le: sound_platform aligned_le
  by unfold_locales (simp add: split_ok_def aligned_le_def)

section \<open>Properties\<close>

text \<open>C36. The word-at-a-time masking routine is the byte loop of the protocol, for every split
  the platform makes of the buffer and both byte orders, and masking twice with one key
  gives the buffer back.\<close>

theorem masking_correct:
  assumes "split_ok (align_to pl)"
  shows "apply_mask pl buf m = apply_mask_fallback buf m
       \<and> length (apply_mask pl buf m) = length buf
       \<and> apply_mask pl (apply_mask pl buf m) m = buf"
proof -
  have "sound_platform pl" using assms by unfold_locales
  then show ?thesis
    by (simp add: sound_platform.apply_mask_eq byte_loop.mask_length byte_loop.mask_undo)
qed

text \<open>The key and the first bytes of the crate's own test, on an aligned little-endian target.\<close>

lemma masking_correct_witness:
  "apply_mask aligned_le [0xf3, 0x00, 0x01, 0x02, 0x03] (0x6d, 0xb6, 0xb2, 0x80)
     = [0x9e, 0xb6, 0xb3, 0x82, 0x6e]"
  using masking_correct[OF le.splits, of "[0xf3, 0x00, 0x01, 0x02, 0x03]" "(0x6d, 0xb6, 0xb2, 0x80)"]
  by (simp add: apply_mask_fallback_def mask_bytes_def and_3_mod_4)

end
