(* ===== verification/Frame.thy ===== *)
theory Frame
  imports Utf8_Text Mask
begin

text \<open>
  Frame headers and frames, \<open>src/protocol/frame/frame.rs\<close>: the header parser over a
  \<open>std::io::Cursor\<close>, the header formatter over a writer, the length encoding, and the
  constructors and accessors of \<open>Frame\<close>.
\<close>

section \<open>Length encoding\<close>

datatype length_format = LenU8 u8 | LenU16 | LenU64

definition length_for_length :: "u64 \<Rightarrow> length_format" where
  "length_for_length len = (if len < 126 then LenU8 (ucast len) else if len < 65536 then LenU16 else LenU64)"

fun extra_bytes :: "length_format \<Rightarrow> nat" where
  "extra_bytes (LenU8 b) = 0"
| "extra_bytes LenU16 = 2"
| "extra_bytes LenU64 = 8"

fun length_byte :: "length_format \<Rightarrow> u8" where
  "length_byte (LenU8 b) = b"
| "length_byte LenU16 = 126"
| "length_byte LenU64 = 127"

definition length_for_byte :: "u8 \<Rightarrow> length_format" where
  "length_for_byte byte =
     (if byte AND 0x7F = 126 then LenU16 else if byte AND 0x7F = 127 then LenU64
      else LenU8 (byte AND 0x7F))"

section \<open>Headers\<close>

record frame_header =
  is_final :: bool
  rsv1 :: bool
  rsv2 :: bool
  rsv3 :: bool
  opcode :: op_code
  frame_mask :: "mask4 option"

definition default_header :: frame_header where
  "default_header = \<lparr>is_final = True, rsv1 = False, rsv2 = False, rsv3 = False,
     opcode = OpControl OpClose, frame_mask = None\<rparr>"

definition max_header_size :: nat where
  "max_header_size = 14"

definition header_len :: "frame_header \<Rightarrow> u64 \<Rightarrow> nat" where
  "header_len h len = 2 + extra_bytes (length_for_length len) + (if frame_mask h \<noteq> None then 4 else 0)"

text \<open>The two leading bytes of a header.\<close>

definition header_byte_one :: "frame_header \<Rightarrow> u8" where
  "header_byte_one h = u8_of_opcode (opcode h)
     OR (if is_final h then 0x80 else 0) OR (if rsv1 h then 0x40 else 0)
     OR (if rsv2 h then 0x20 else 0) OR (if rsv3 h then 0x10 else 0)"

definition header_byte_two :: "frame_header \<Rightarrow> u64 \<Rightarrow> u8" where
  "header_byte_two h len = length_byte (length_for_length len) OR (if frame_mask h \<noteq> None then 0x80 else 0)"

text \<open>
  \<open>FrameHeader::format\<close> over a writer \<open>wr\<close>: \<open>write_all\<close> of the bytes, with \<open>?\<close> after
  each call.
\<close>

definition io_write ::
  "('w \<Rightarrow> bytes \<Rightarrow> (io_error, unit) res \<times> 'w) \<Rightarrow> 'w \<Rightarrow> bytes \<Rightarrow> (('r, 'x) error, unit) res \<times> 'w" where
  "io_write wr w bs = (case wr w bs of
     (Ok u, w') \<Rightarrow> (Ok (), w') | (Err e, w') \<Rightarrow> (Err (Io e), w') | (Panic, w') \<Rightarrow> (Panic, w'))"

definition header_format ::
  "('w \<Rightarrow> bytes \<Rightarrow> (io_error, unit) res \<times> 'w) \<Rightarrow> frame_header \<Rightarrow> u64 \<Rightarrow> 'w
     \<Rightarrow> (('r, 'x) error, unit) res \<times> 'w" where
  "header_format wr h len w =
     bind_st (io_write wr w [header_byte_one h, header_byte_two h len]) (\<lambda>_ w1.
     bind_st (case length_for_length len of
                LenU8 b \<Rightarrow> (Ok (), w1)
              | LenU16 \<Rightarrow> io_write wr w1 (u16_to_be_bytes (ucast len))
              | LenU64 \<Rightarrow> io_write wr w1 (u64_to_be_bytes len)) (\<lambda>_ w2.
     case frame_mask h of
       Some m \<Rightarrow> io_write wr w2 (mask_bytes m)
     | None \<Rightarrow> (Ok (), w2)))"

text \<open>\<open>impl Write for Vec<u8>\<close>, which appends and never fails.\<close>

definition vec_write :: "bytes \<Rightarrow> bytes \<Rightarrow> (io_error, unit) res \<times> bytes" where
  "vec_write v bs = (Ok (), v @ bs)"

text \<open>\<open>set_random_mask\<close>, with the mask that \<open>generate_mask\<close> drew.\<close>

definition header_set_mask :: "mask4 \<Rightarrow> frame_header \<Rightarrow> frame_header" where
  "header_set_mask m h = h\<lparr>frame_mask := Some m\<rparr>"

section \<open>Parsing\<close>

text \<open>
  \<open>std::io::Cursor\<close>: \<open>read\<close> returns what is left, at most what was asked for;
  \<open>read_exact\<close> fails with \<open>UnexpectedEof\<close> when too little is left, at the end.
\<close>

record cursor =
  cur_data :: bytes
  cur_pos :: nat

definition cursor_new :: "bytes \<Rightarrow> cursor" where
  "cursor_new bs = \<lparr>cur_data = bs, cur_pos = 0\<rparr>"

definition cursor_left :: "cursor \<Rightarrow> bytes" where
  "cursor_left c = drop (cur_pos c) (cur_data c)"

definition cursor_read :: "nat \<Rightarrow> cursor \<Rightarrow> bytes \<times> cursor" where
  "cursor_read n c = (let got = take n (cursor_left c) in (got, c\<lparr>cur_pos := cur_pos c + length got\<rparr>))"

definition cursor_read_exact :: "nat \<Rightarrow> cursor \<Rightarrow> bytes option \<times> cursor" where
  "cursor_read_exact n c =
     (if length (cursor_left c) < n then (None, c\<lparr>cur_pos := length (cur_data c)\<rparr>)
      else (Some (take n (cursor_left c)), c\<lparr>cur_pos := cur_pos c + n\<rparr>))"

text \<open>The payload length: \<open>None\<close> where the bytes are not all there.\<close>

definition parse_length :: "u8 \<Rightarrow> cursor \<Rightarrow> ('e, u64 option) res \<times> cursor" where
  "parse_length second c =
     (let len_byte = second AND 0x7F; length_length = extra_bytes (length_for_byte len_byte) in
      if length_length > 0 then
        if \<not> length_length \<le> 8 then (Panic, c)
        else (case cursor_read_exact length_length c of
                (None, c') \<Rightarrow> (Ok None, c')
              | (Some bs, c') \<Rightarrow> (Ok (Some (u64_from_be_bytes (replicate (8 - length_length) 0 @ bs))), c'))
      else (Ok (Some (ucast len_byte)), c))"

text \<open>The mask: \<open>None\<close> where the bytes are not all there.\<close>

definition parse_mask :: "bool \<Rightarrow> cursor \<Rightarrow> mask4 option option \<times> cursor" where
  "parse_mask masked c =
     (if masked then
        (case cursor_read 4 c of
           ([x, y, z, w], c') \<Rightarrow> (Some (Some (x, y, z, w)), c')
         | (_, c') \<Rightarrow> (None, c'))
      else (Some None, c))"

definition parse_internal ::
  "cursor \<Rightarrow> (('r, 'x) error, (frame_header \<times> u64) option) res \<times> cursor" where
  "parse_internal c0 =
     (case cursor_read 2 c0 of
        ([first, second], c1) \<Rightarrow>
          (case opcode_of_u8 (first AND 0x0F) of
             Panic \<Rightarrow> (Panic, c1)
           | Err e \<Rightarrow> (Err e, c1)
           | Ok op \<Rightarrow>
               bind_st (parse_length second c1) (\<lambda>len c2.
                 case len of
                   None \<Rightarrow> (Ok None, c2)
                 | Some plen \<Rightarrow>
                     (case parse_mask (second AND 0x80 \<noteq> 0) c2 of
                        (None, c3) \<Rightarrow> (Ok None, c3)
                      | (Some msk, c3) \<Rightarrow>
                          if is_reserved op
                          then (Err (Protocol (InvalidOpcode (first AND 0x0F))), c3)
                          else (Ok (Some (\<lparr>is_final = first AND 0x80 \<noteq> 0, rsv1 = first AND 0x40 \<noteq> 0,
                                          rsv2 = first AND 0x20 \<noteq> 0, rsv3 = first AND 0x10 \<noteq> 0,
                                          opcode = op, frame_mask = msk\<rparr>, plen)), c3))))
      | (_, c1) \<Rightarrow> (Ok None, c1))"

text \<open>\<open>FrameHeader::parse\<close>: the cursor is put back when there is too little data.\<close>

definition header_parse ::
  "cursor \<Rightarrow> (('r, 'x) error, (frame_header \<times> u64) option) res \<times> cursor" where
  "header_parse c = (case parse_internal c of
     (Ok None, c') \<Rightarrow> (Ok None, c'\<lparr>cur_pos := cur_pos c\<rparr>)
   | ret \<Rightarrow> ret)"

section \<open>Frames\<close>

record frame =
  header :: frame_header
  payload :: bytes

record close_frame =
  close_code :: close_code
  close_reason :: utf8_bytes

definition frame_len :: "frame \<Rightarrow> nat" where
  "frame_len f = header_len (header f) (of_nat (length (payload f))) + length (payload f)"

definition frame_is_empty :: "frame \<Rightarrow> bool" where
  "frame_is_empty f \<longleftrightarrow> frame_len f = 0"

text \<open>\<open>header\<close>, a change of the header through \<open>header_mut\<close>, and \<open>payload\<close>.\<close>

definition frame_get_header :: "frame \<Rightarrow> frame_header" where
  "frame_get_header f = header f"

definition frame_update_header :: "(frame_header \<Rightarrow> frame_header) \<Rightarrow> frame \<Rightarrow> frame" where
  "frame_update_header g f = f\<lparr>header := g (header f)\<rparr>"

definition frame_get_payload :: "frame \<Rightarrow> bytes" where
  "frame_get_payload f = payload f"

definition frame_is_masked :: "frame \<Rightarrow> bool" where
  "frame_is_masked f \<longleftrightarrow> frame_mask (header f) \<noteq> None"

definition frame_set_mask :: "mask4 \<Rightarrow> frame \<Rightarrow> frame" where
  "frame_set_mask m f = f\<lparr>header := header_set_mask m (header f)\<rparr>"

definition frame_into_text :: "simdutf8 \<Rightarrow> frame \<Rightarrow> (unit, utf8_bytes) res" where
  "frame_into_text sv f = utf8_try_from sv (payload f)"

definition frame_into_payload :: "frame \<Rightarrow> bytes" where
  "frame_into_payload f = payload f"

definition frame_to_text :: "simdutf8 \<Rightarrow> frame \<Rightarrow> (unit, bytes) res" where
  "frame_to_text sv f = (if basic_ok sv (payload f) then Ok (payload f) else Err ())"

definition frame_into_close :: "simdutf8 \<Rightarrow> frame \<Rightarrow> (('r, 'x) error, close_frame option) res" where
  "frame_into_close sv f = (case payload f of
     [] \<Rightarrow> Ok None
   | [b] \<Rightarrow> Err (Protocol InvalidCloseSequence)
   | a # b # rest \<Rightarrow>
       bind_res (utf8_question sv (utf8_try_from sv rest)) (\<lambda>reason.
         Ok (Some \<lparr>close_code = close_code_of_u16 (u16_from_be_bytes [a, b]), close_reason = reason\<rparr>)))"

text \<open>\<open>Frame::message\<close>; its \<open>debug_assert!\<close> on the opcode is the panic.\<close>

definition frame_message :: "bytes \<Rightarrow> op_code \<Rightarrow> bool \<Rightarrow> ('e, frame) res" where
  "frame_message data op fin = (case op of
     OpData d \<Rightarrow> Ok \<lparr>header = default_header\<lparr>is_final := fin, opcode := op\<rparr>, payload = data\<rparr>
   | OpControl c \<Rightarrow> Panic)"

definition frame_pong :: "bytes \<Rightarrow> frame" where
  "frame_pong data = \<lparr>header = default_header\<lparr>opcode := OpControl OpPong\<rparr>, payload = data\<rparr>"

definition frame_ping :: "bytes \<Rightarrow> frame" where
  "frame_ping data = \<lparr>header = default_header\<lparr>opcode := OpControl OpPing\<rparr>, payload = data\<rparr>"

definition frame_close :: "close_frame option \<Rightarrow> frame" where
  "frame_close msg = \<lparr>header = default_header,
     payload = (case msg of
       Some c \<Rightarrow> u16_to_be_bytes (u16_of_close_code (close_code c)) @ utf8_raw (close_reason c)
     | None \<Rightarrow> [])\<rparr>"

definition frame_from_payload :: "frame_header \<Rightarrow> bytes \<Rightarrow> frame" where
  "frame_from_payload h data = \<lparr>header = h, payload = data\<rparr>"

text \<open>\<open>Frame::format\<close>: the header with its mask, then the masked payload.\<close>

definition frame_format ::
  "platform \<Rightarrow> ('w \<Rightarrow> bytes \<Rightarrow> (io_error, unit) res \<times> 'w) \<Rightarrow> frame \<Rightarrow> 'w
     \<Rightarrow> (('r, 'x) error, unit) res \<times> 'w" where
  "frame_format pl wr f w =
     bind_st (header_format wr (header f) (of_nat (length (payload f))) w) (\<lambda>_ w1.
       case frame_mask (header f) of
         Some m \<Rightarrow> io_write wr w1 (apply_mask pl (payload f) m)
       | None \<Rightarrow> io_write wr w1 (payload f))"

section \<open>What the parser computes\<close>

text \<open>
  The specification of the parser on the bytes left in the cursor: the size of the header
  is determined by its second byte; a header that is not all there is no header; reserved
  opcodes are errors.
\<close>

definition wire_header_size :: "bytes \<Rightarrow> nat" where
  "wire_header_size bs =
     2 + extra_bytes (length_for_byte (bs ! 1)) + (if bs ! 1 AND 0x80 \<noteq> 0 then 4 else 0)"

definition wire_opcode :: "bytes \<Rightarrow> op_code" where
  "wire_opcode bs = (case opcode_of_u8 (hd bs AND 0x0F) :: (unit, op_code) res of Ok c \<Rightarrow> c | _ \<Rightarrow> OpData OpContinue)"

definition wire_length :: "bytes \<Rightarrow> u64" where
  "wire_length bs =
     (case extra_bytes (length_for_byte (bs ! 1)) of
        0 \<Rightarrow> ucast (bs ! 1 AND 0x7F)
      | n \<Rightarrow> u64_from_be_bytes (take n (drop 2 bs)))"

definition wire_mask :: "bytes \<Rightarrow> mask4 option" where
  "wire_mask bs =
     (let p = 2 + extra_bytes (length_for_byte (bs ! 1)) in
      if bs ! 1 AND 0x80 \<noteq> 0 then Some (bs ! p, bs ! (p + 1), bs ! (p + 2), bs ! (p + 3)) else None)"

definition wire_header :: "bytes \<Rightarrow> frame_header" where
  "wire_header bs = \<lparr>is_final = hd bs AND 0x80 \<noteq> 0, rsv1 = hd bs AND 0x40 \<noteq> 0,
     rsv2 = hd bs AND 0x20 \<noteq> 0, rsv3 = hd bs AND 0x10 \<noteq> 0, opcode = wire_opcode bs,
     frame_mask = wire_mask bs\<rparr>"

lemma length_for_byte_idem [simp]: "length_for_byte (b AND 0x7F) = length_for_byte b"
  by (simp add: length_for_byte_def and.assoc)

lemma extra_bytes_for_byte: "extra_bytes (length_for_byte b) \<in> {0, 2, 8}"
  by (simp add: length_for_byte_def)

lemma wire_opcode_eq: "opcode_of_u8 (b AND 0x0F) = Ok (wire_opcode (b # bs))"
proof -
  have "opcode_of_u8 (b AND 0x0F) \<noteq> (Panic :: (unit, op_code) res)"
    by (intro opcode_of_u8_total low_nibble_le)
  then show ?thesis
    by (auto simp: wire_opcode_def opcode_of_u8_def split: if_splits)
qed

lemma u64_from_be_pad [simp]: "u64_from_be_bytes (replicate n 0 @ bs) = u64_from_be_bytes bs"
  by (simp add: u64_from_be_bytes_def be_acc_append)

text \<open>The two sub-parsers, at the position where they run.\<close>

lemma parse_length_eq:
  assumes "n = extra_bytes (length_for_byte second)"
  shows "parse_length second c =
    (if length (cursor_left c) < n then (Ok None, c\<lparr>cur_pos := length (cur_data c)\<rparr>)
     else (Ok (Some (if n = 0 then ucast (second AND 0x7F) else u64_from_be_bytes (take n (cursor_left c)))),
           c\<lparr>cur_pos := cur_pos c + n\<rparr>))"
  using extra_bytes_for_byte[of second]
  by (auto simp: parse_length_def cursor_read_exact_def assms Let_def)

lemma parse_mask_eq:
  "parse_mask masked c =
    (if \<not> masked then (Some None, c)
     else if length (cursor_left c) < 4 then (None, snd (cursor_read 4 c))
     else (Some (Some (cursor_left c ! 0, cursor_left c ! 1, cursor_left c ! 2, cursor_left c ! 3)),
           c\<lparr>cur_pos := cur_pos c + 4\<rparr>))"
proof -
  consider "length (cursor_left c) < 4" | a b d e r where "cursor_left c = a # b # d # e # r"
  proof (cases "length (cursor_left c) < 4")
    case False
    then have "\<exists>a b d e r. cursor_left c = a # b # d # e # r"
      by (auto simp: not_less numeral_eq_Suc Suc_le_length_iff)
    then show thesis using that by blast
  qed
  then show ?thesis
  proof cases
    case 1
    then show ?thesis
      by (auto simp: parse_mask_def cursor_read_def Let_def split: list.splits)
  next
    case 2
    then show ?thesis
      by (simp add: parse_mask_def cursor_read_def Let_def numeral_eq_Suc)
  qed
qed

lemma cursor_left_advance [simp]:
  "cursor_left (c\<lparr>cur_pos := cur_pos c + n\<rparr>) = drop n (cursor_left c)"
  by (simp add: cursor_left_def add.commute)

lemma parse_internal_short:
  "length (cursor_left c) < 2 \<Longrightarrow> parse_internal c = (Ok None, snd (cursor_read 2 c))"
  by (auto simp: parse_internal_def cursor_read_def Let_def split: list.splits)

lemma parse_internal_eq:
  assumes bs: "cursor_left c = first # second # r"
    and n: "n = extra_bytes (length_for_byte second)"
    and all: "bs = first # second # r"
  shows "\<exists>p. parse_internal c =
    (if length bs < wire_header_size bs then (Ok None, c\<lparr>cur_pos := p\<rparr>)
     else if is_reserved (wire_opcode bs)
       then (Err (Protocol (InvalidOpcode (first AND 0x0F))), c\<lparr>cur_pos := cur_pos c + wire_header_size bs\<rparr>)
     else (Ok (Some (wire_header bs, wire_length bs)), c\<lparr>cur_pos := cur_pos c + wire_header_size bs\<rparr>))"
proof -
  define c2 where "c2 = c\<lparr>cur_pos := cur_pos c + 2\<rparr>"
  define c3 where "c3 = c2\<lparr>cur_pos := cur_pos c2 + n\<rparr>"
  have read: "cursor_read 2 c = ([first, second], c2)"
    by (simp add: cursor_read_def bs c2_def)
  have left: "cursor_left c2 = r" "cursor_left c3 = drop n r"
    unfolding c3_def c2_def cursor_left_advance bs by simp_all
  have size: "wire_header_size bs = 2 + n + (if second AND 0x80 \<noteq> 0 then 4 else 0)"
    by (simp add: wire_header_size_def all n)
  have pos: "c3\<lparr>cur_pos := cur_pos c3 + 4\<rparr> = c\<lparr>cur_pos := cur_pos c + (2 + n + 4)\<rparr>"
    "c3 = c\<lparr>cur_pos := cur_pos c + (2 + n)\<rparr>"
    by (simp_all add: c3_def c2_def)
  have none: "\<exists>p. c2\<lparr>cur_pos := q\<rparr> = c\<lparr>cur_pos := p\<rparr>" "\<exists>p. snd (cursor_read k c3) = c\<lparr>cur_pos := p\<rparr>" for q k
    by (auto simp: c2_def c3_def cursor_read_def Let_def)
  have plen: "parse_length second c2 = (if length r < n then (Ok None, c2\<lparr>cur_pos := length (cur_data c2)\<rparr>)
      else (Ok (Some (wire_length bs)), c3))"
    using n by (simp add: parse_length_eq[OF n] left wire_length_def all c3_def split: nat.split)
  have pmask: "n \<le> length r \<Longrightarrow> parse_mask (second AND 0x80 \<noteq> 0) c3 =
      (if length bs < wire_header_size bs then (None, snd (cursor_read 4 c3))
       else (Some (wire_mask bs), c\<lparr>cur_pos := cur_pos c + wire_header_size bs\<rparr>))"
    unfolding parse_mask_eq left size pos(1)
    using pos(2) by (cases "second AND 0x80 \<noteq> 0") (auto simp: all wire_mask_def Let_def n[symmetric] left numeral_3_eq_3)
  show ?thesis
  proof (cases "length r < n")
    case True
    then have "length bs < wire_header_size bs" using size all by simp
    with True show ?thesis
      using none by (simp add: parse_internal_def read wire_opcode_eq[of first "second # r"] plen)
  next
    case False
    then show ?thesis
      using none
      by (simp add: parse_internal_def read wire_opcode_eq[of first "second # r"] plen pmask all wire_header_def)
  qed
qed

text \<open>The parser is its specification.\<close>

lemma header_parse_eq:
  assumes "bs = cursor_left c"
  shows "(header_parse c :: (('r, 'x) error, (frame_header \<times> u64) option) res \<times> cursor) =
    (if length bs < 2 \<or> length bs < wire_header_size bs then (Ok None, c)
     else if is_reserved (wire_opcode bs)
       then (Err (Protocol (InvalidOpcode (hd bs AND 0x0F))), c\<lparr>cur_pos := cur_pos c + wire_header_size bs\<rparr>)
     else (Ok (Some (wire_header bs, wire_length bs)), c\<lparr>cur_pos := cur_pos c + wire_header_size bs\<rparr>))"
proof (cases "length bs < 2")
  case True
  then show ?thesis
    using assms by (simp add: header_parse_def parse_internal_short cursor_read_def Let_def)
next
  case False
  then obtain first second r where bs: "bs = first # second # r"
    by (auto simp: not_less numeral_eq_Suc Suc_le_length_iff)
  then have left: "cursor_left c = first # second # r" using assms by simp
  obtain p where "parse_internal c = (if length bs < wire_header_size bs then (Ok None, c\<lparr>cur_pos := p\<rparr>)
     else if is_reserved (wire_opcode bs)
       then (Err (Protocol (InvalidOpcode (first AND 0x0F))), c\<lparr>cur_pos := cur_pos c + wire_header_size bs\<rparr>)
     else (Ok (Some (wire_header bs, wire_length bs)), c\<lparr>cur_pos := cur_pos c + wire_header_size bs\<rparr>)
       :: (('r, 'x) error, (frame_header \<times> u64) option) res \<times> cursor)"
    using parse_internal_eq[OF left refl bs] by blast
  with False show ?thesis
    by (simp add: header_parse_def) (simp add: bs)
qed

section \<open>What the formatter writes\<close>

definition length_bytes :: "u64 \<Rightarrow> bytes" where
  "length_bytes len = (case length_for_length len of
     LenU8 b \<Rightarrow> [] | LenU16 \<Rightarrow> u16_to_be_bytes (ucast len) | LenU64 \<Rightarrow> u64_to_be_bytes len)"

definition header_bytes :: "frame_header \<Rightarrow> u64 \<Rightarrow> bytes" where
  "header_bytes h len = [header_byte_one h, header_byte_two h len] @ length_bytes len
     @ (case frame_mask h of Some m \<Rightarrow> mask_bytes m | None \<Rightarrow> [])"

lemma length_length_bytes [length_simps]: "length (length_bytes len) = extra_bytes (length_for_length len)"
  by (simp add: length_bytes_def split: length_format.split)

lemma length_mask_bytes [simp, length_simps]: "length (mask_bytes m) = 4"
  by (simp add: mask_bytes_def split: prod.split)

lemma length_header_bytes [length_simps]: "length (header_bytes h len) = header_len h len"
  by (simp add: header_bytes_def header_len_def length_length_bytes split: option.split)

lemma header_format_vec: "header_format vec_write h len w = (Ok (), w @ header_bytes h len)"
  by (simp add: header_format_def io_write_def vec_write_def header_bytes_def length_bytes_def
      split: length_format.split option.split)

text \<open>A 64-bit length takes one of three encodings, of 2, 4 or 10 bytes with the first two.\<close>

lemma header_len_bound: "header_len h len \<le> max_header_size"
  by (simp add: header_len_def max_header_size_def length_for_length_def)

subsection \<open>The leading bytes\<close>

lemma and_mask_small: "unat (k :: 'n::len word) < 2 ^ n \<Longrightarrow> k AND mask n = k"
  by (simp add: word_unat_eq_iff unsigned_take_bit_eq take_bit_nat_eq_self flip: take_bit_eq_mask)

lemma small_opcode:
  assumes "k \<le> (15 :: u8)"
  shows "k AND 0x0F = k" "k AND 0x80 = 0" "k AND 0x40 = 0" "k AND 0x20 = 0" "k AND 0x10 = 0"
proof -
  have "(15 :: u8) = mask 4" by (simp add: mask_eq_exp_minus_1)
  then show k: "k AND 0x0F = k"
    using assms and_mask_small[of k 4] by (simp add: word_le_nat_alt)
  have "k AND m = 0" if "15 AND m = 0" for m :: u8
    using k that by (metis and.assoc and_zero_eq)
  then show "k AND 0x80 = 0" "k AND 0x40 = 0" "k AND 0x20 = 0" "k AND 0x10 = 0" by simp_all
qed

lemma header_byte_one_bits:
  assumes "opcode_wf (opcode h)"
  shows "header_byte_one h AND 0x0F = u8_of_opcode (opcode h)"
    and "header_byte_one h AND 0x80 \<noteq> 0 \<longleftrightarrow> is_final h"
    and "header_byte_one h AND 0x40 \<noteq> 0 \<longleftrightarrow> rsv1 h"
    and "header_byte_one h AND 0x20 \<noteq> 0 \<longleftrightarrow> rsv2 h"
    and "header_byte_one h AND 0x10 \<noteq> 0 \<longleftrightarrow> rsv3 h"
  using small_opcode[OF u8_of_opcode_le[OF assms]]
  by (simp_all add: header_byte_one_def bit.conj_disj_distrib2)

lemma small_length:
  assumes "k \<le> (127 :: u8)"
  shows "k AND 0x7F = k" "k AND 0x80 = 0"
proof -
  have "(127 :: u8) = mask 7" by (simp add: mask_eq_exp_minus_1)
  then show k: "k AND 0x7F = k"
    using assms and_mask_small[of k 7] by (simp add: word_le_nat_alt)
  have "127 AND 0x80 = (0 :: u8)" by simp
  with k show "k AND 0x80 = 0" by (metis and.assoc and_zero_eq)
qed

lemma ucast_small_length:
  assumes "(len :: u64) < 126"
  shows "unat (ucast len :: u8) = unat len" "(ucast (ucast len :: u8) :: u64) = len"
proof -
  have "unat len < 126" using assms by (simp add: word_less_nat_alt)
  then show u: "unat (ucast len :: u8) = unat len"
    by (simp add: unsigned_ucast_eq unsigned_take_bit_eq take_bit_nat_eq_self)
  show "(ucast (ucast len :: u8) :: u64) = len"
    using u by (simp add: word_unat_eq_iff unsigned_ucast_eq unsigned_take_bit_eq take_bit_word_eq_self)
qed

lemma length_byte_le: "length_byte (length_for_length len) \<le> 127"
  using ucast_small_length(1)[of len]
  by (auto simp: length_for_length_def word_le_nat_alt word_less_nat_alt)

lemma length_for_byte_length_byte: "length_for_byte (length_byte (length_for_length len)) = length_for_length len"
proof (cases "len < 126")
  case True
  then have "unat (ucast len :: u8) < 126"
    using ucast_small_length(1)[of len] by (simp add: word_less_nat_alt)
  then have "ucast len \<noteq> (126 :: u8)" "ucast len \<noteq> (127 :: u8)" "ucast len AND 0x7F = (ucast len :: u8)"
    using small_length(1)[of "ucast len"] by (auto simp: word_le_nat_alt word_unat_eq_iff)
  with True show ?thesis by (simp add: length_for_length_def length_for_byte_def)
qed (simp add: length_for_length_def length_for_byte_def)

lemma header_byte_two_bits:
  shows "length_for_byte (header_byte_two h len) = length_for_length len"
    and "header_byte_two h len AND 0x7F = length_byte (length_for_length len)"
    and "header_byte_two h len AND 0x80 \<noteq> 0 \<longleftrightarrow> frame_mask h \<noteq> None"
proof -
  note small = small_length[OF length_byte_le[of len]]
  show low: "header_byte_two h len AND 0x7F = length_byte (length_for_length len)"
    and "header_byte_two h len AND 0x80 \<noteq> 0 \<longleftrightarrow> frame_mask h \<noteq> None"
    using small by (simp_all add: header_byte_two_def bit.conj_disj_distrib2)
  show "length_for_byte (header_byte_two h len) = length_for_length len"
    using length_for_byte_idem[of "header_byte_two h len"] length_for_byte_length_byte[of len]
    by (simp add: low)
qed

lemma u64_of_u16_bytes:
  assumes "(len :: u64) < 65536"
  shows "u64_from_be_bytes (u16_to_be_bytes (ucast len)) = len"
proof -
  have "len AND mask 16 = len"
    using assms by (intro and_mask_small) (simp add: word_less_nat_alt)
  then have low: "n < 16" if "bit len n" for n
    using that by (metis bit_and_iff bit_mask_iff)
  show ?thesis
    by (rule bit_word_eqI)
      (auto simp: u64_from_be_bytes_def u16_to_be_bytes_def bit_simps dest: bit_imp_le_length low)
qed

section \<open>Round trip\<close>

lemma wire_of_header_bytes:
  assumes "opcode_wf (opcode h)" and bs: "bs = header_bytes h len @ rest"
  shows "wire_header_size bs = header_len h len"
    and "wire_opcode bs = opcode h"
    and "wire_header bs = h"
    and "wire_length bs = len"
proof -
  note one = header_byte_one_bits[OF assms(1)] and two = header_byte_two_bits[of h len]
  define tail where "tail = length_bytes len @ (case frame_mask h of Some m \<Rightarrow> mask_bytes m | None \<Rightarrow> []) @ rest"
  have split: "bs = header_byte_one h # header_byte_two h len # tail"
    by (simp add: bs header_bytes_def tail_def)
  show size: "wire_header_size bs = header_len h len"
    by (simp add: split wire_header_size_def header_len_def two)
  have "(opcode_of_u8 (u8_of_opcode (opcode h)) :: (unit, op_code) res) = Ok (opcode h)"
    by (rule opcode_roundtrip) (rule assms(1))
  then show op: "wire_opcode bs = opcode h"
    by (simp add: split wire_opcode_def one)
  have "wire_mask bs = frame_mask h"
  proof (cases "frame_mask h")
    case None
    then show ?thesis using two by (simp add: wire_mask_def split)
  next
    case (Some m)
    obtain a b c d where m: "m = (a, b, c, d)" by (cases m) auto
    have "tail = length_bytes len @ [a, b, c, d] @ rest"
      by (simp add: tail_def Some m mask_bytes_def)
    then show ?thesis
      using two Some by (simp add: wire_mask_def split m Let_def nth_append length_length_bytes)
  qed
  then show "wire_header bs = h"
    by (simp add: wire_header_def op) (simp add: split one)
  have "take (extra_bytes (length_for_length len)) tail = length_bytes len"
    by (simp add: tail_def length_length_bytes)
  then show "wire_length bs = len"
    using two ucast_small_length(2)[of len] u64_of_u16_bytes[of len]
    by (auto simp: wire_length_def split length_bytes_def length_for_length_def numeral_2_eq_2 split: if_splits)
qed

lemma header_roundtrip:
  assumes wf: "opcode_wf (opcode h)" "\<not> is_reserved (opcode h)"
    and left: "cursor_left c = header_bytes h len @ rest"
  shows "header_parse c = (Ok (Some (h, len)), c\<lparr>cur_pos := cur_pos c + header_len h len\<rparr>)"
proof -
  note wire = wire_of_header_bytes[OF wf(1) refl, of len rest]
  have "2 \<le> header_len h len" by (simp add: header_len_def)
  then show ?thesis
    using wf by (simp add: header_parse_eq[OF refl] left wire length_header_bytes)
qed

section \<open>Close frames\<close>

lemma close_roundtrip:
  assumes "utf8_validator sv" "utf8_wf (close_reason c)"
    and "close_code_of_u16 (u16_of_close_code (close_code c)) = close_code c"
  shows "frame_into_close sv (frame_close (Some c)) = Ok (Some c)"
proof -
  obtain a b where ab: "u16_to_be_bytes (u16_of_close_code (close_code c)) = [a, b]"
    by (simp add: u16_to_be_bytes_def)
  then have "u16_from_be_bytes [a, b] = u16_of_close_code (close_code c)"
    by (metis u16_be_roundtrip)
  then show ?thesis
    using assms(2,3) ab
    by (simp add: frame_into_close_def frame_close_def utf8_try_from_def utf8_wf_def utf8_validator.basic[OF assms(1)])
qed

section \<open>Properties\<close>

text \<open>C37. Parsing a formatted header gives the header and the payload length back and leaves
  the cursor right after it, wherever in the buffer it stands and whatever follows.\<close>

theorem header_format_parse:
  assumes "opcode_wf (opcode h)" "\<not> is_reserved (opcode h)"
  shows "header_parse \<lparr>cur_data = snd (header_format vec_write h len before
             :: (('r, 'x) error, unit) res \<times> bytes) @ rest, cur_pos = length before\<rparr>
     = (Ok (Some (h, len)) :: (('r, 'x) error, _) res,
        \<lparr>cur_data = snd (header_format vec_write h len before
             :: (('r, 'x) error, unit) res \<times> bytes) @ rest,
         cur_pos = length before + header_len h len\<rparr>)"
  by (subst header_roundtrip[OF assms]) (simp_all add: header_format_vec cursor_left_def)

text \<open>A masked binary frame of 200 bytes, behind one byte of an earlier frame.\<close>

lemma header_format_parse_witness:
  "header_parse \<lparr>cur_data = [7, 0x82, 0xFE, 0, 200, 1, 2, 3, 4, 9], cur_pos = 1\<rparr>
     = (Ok (Some (\<lparr>is_final = True, rsv1 = False, rsv2 = False, rsv3 = False, opcode = OpData OpBinary,
           frame_mask = Some (1, 2, 3, 4)\<rparr>, 200)) :: ((unit, unit) error, _) res,
        \<lparr>cur_data = [7, 0x82, 0xFE, 0, 200, 1, 2, 3, 4, 9], cur_pos = 9\<rparr>)"
  using header_format_parse[of "\<lparr>is_final = True, rsv1 = False, rsv2 = False, rsv3 = False,
      opcode = OpData OpBinary, frame_mask = Some (1, 2, 3, 4)\<rparr>" 200 "[7]" "[9]",
      where ?'r = unit and ?'x = unit]
  by (simp add: header_format_vec header_bytes_def header_byte_one_def header_byte_two_def
      length_bytes_def length_for_length_def u16_to_be_bytes_def mask_bytes_def header_len_def)

lemma wire_header_size_bound: "wire_header_size bs \<le> max_header_size"
  using extra_bytes_for_byte[of "bs ! 1"] by (auto simp: wire_header_size_def max_header_size_def)


text \<open>A close frame comes back from its payload as it was built, when its code is one that
  the wire format can tell apart and its reason is valid text; a close frame without a body
  comes back without one.\<close>

theorem close_frame_roundtrip:
  assumes "utf8_validator sv"
    and "\<And>c. msg = Some c \<Longrightarrow> utf8_wf (close_reason c)
      \<and> close_code_of_u16 (u16_of_close_code (close_code c)) = close_code c"
  shows "frame_into_close sv (frame_close msg) = Ok msg"
proof (cases msg)
  case None
  then show ?thesis by (simp add: frame_into_close_def frame_close_def)
next
  case (Some c)
  with assms show ?thesis by (simp add: close_roundtrip)
qed

lemma close_frame_roundtrip_witness:
  "frame_into_close std_simdutf8 (frame_close (Some \<lparr>close_code = Code_Away, close_reason = Utf8Bytes [98, 121, 101]\<rparr>))
     = (Ok (Some \<lparr>close_code = Code_Away, close_reason = Utf8Bytes [98, 121, 101]\<rparr>) :: ((unit, unit) error, _) res)"
  by (rule close_frame_roundtrip[OF std_utf8.utf8_validator_axioms])
    (auto simp: utf8_wf_def close_code_of_u16_def std_from_utf8_step utf8_char_width_def)

end
