(* ===== verification/Codec.thy ===== *)
theory Codec
  imports Frame
begin

text \<open>
  The frame codec without its transport: \<open>FrameDecoder\<close>
  (\<open>src/protocol/frame/codec/decode.rs\<close>) and \<open>FrameEncoder\<close>
  (\<open>src/protocol/frame/codec/encode.rs\<close>). The decoder is a resumable parser over a growing
  buffer: what it yields does not depend on how the bytes were cut into reads.
\<close>

section \<open>FrameDecoder\<close>

record frame_decoder =
  dec_header :: "(frame_header \<times> usize) option"
  dec_max_frame_size :: "usize option"
  dec_unmask :: bool
  dec_accept_unmasked :: bool

definition default_decoder :: frame_decoder where
  "default_decoder = \<lparr>dec_header = None, dec_max_frame_size = None, dec_unmask = False,
     dec_accept_unmasked = False\<rparr>"

definition set_unmask :: "bool \<Rightarrow> frame_decoder \<Rightarrow> frame_decoder" where
  "set_unmask b d = d\<lparr>dec_unmask := b\<rparr>"

definition set_max_frame_size :: "usize option \<Rightarrow> frame_decoder \<Rightarrow> frame_decoder" where
  "set_max_frame_size m d = d\<lparr>dec_max_frame_size := m\<rparr>"

definition set_accept_unmasked :: "bool \<Rightarrow> frame_decoder \<Rightarrow> frame_decoder" where
  "set_accept_unmasked b d = d\<lparr>dec_accept_unmasked := b\<rparr>"

text \<open>\<open>monoio_codec::Decoded\<close>.\<close>

datatype 'a decoded = Decoded 'a | Insufficient | InsufficientAtLeast usize

text \<open>
  The two halves of \<open>decode\<close>. The first runs when no header is held: it takes a header off
  the buffer (\<open>True\<close>) or finds too little data (\<open>False\<close>). The second takes the payload.
\<close>

definition decode_header ::
  "frame_decoder \<Rightarrow> bytes \<Rightarrow> (('r, 'x) error, bool) res \<times> frame_decoder \<times> bytes" where
  "decode_header d src = (case header_parse (cursor_new src) of
     (Panic, c) \<Rightarrow> (Panic, d, src)
   | (Err e, c) \<Rightarrow> (Err e, d, src)
   | (Ok None, c) \<Rightarrow> (Ok False, d, src)
   | (Ok (Some (h, len)), c) \<Rightarrow>
       let src' = drop (cur_pos c) src in
       (case dec_max_frame_size d of
          Some mx \<Rightarrow>
            if len > mx then (Err (Capacity (MessageTooLong len mx)), d, src')
            else (Ok True, d\<lparr>dec_header := Some (h, len)\<rparr>, src')
        | None \<Rightarrow> (Ok True, d\<lparr>dec_header := Some (h, len)\<rparr>, src')))"

definition decode_payload ::
  "platform \<Rightarrow> frame_decoder \<Rightarrow> bytes
     \<Rightarrow> (('r, 'x) error, frame decoded) res \<times> frame_decoder \<times> bytes" where
  "decode_payload pl d src = (case dec_header d of
     None \<Rightarrow> (Panic, d, src)
   | Some (h, len) \<Rightarrow>
       if length src < unat len then (Ok (InsufficientAtLeast len), d, src)
       else
         let data = take (unat len) src; src' = drop (unat len) src; d' = d\<lparr>dec_header := None\<rparr> in
         if dec_unmask d then
           (case frame_mask h of
              Some m \<Rightarrow>
                (Ok (Decoded (frame_from_payload (h\<lparr>frame_mask := None\<rparr>) (apply_mask pl data m))), d', src')
            | None \<Rightarrow>
                if \<not> dec_accept_unmasked d then (Err (Protocol UnmaskedFrameFromClient), d', src')
                else (Ok (Decoded (frame_from_payload h data)), d', src'))
         else (Ok (Decoded (frame_from_payload h data)), d', src'))"

definition decode ::
  "platform \<Rightarrow> frame_decoder \<Rightarrow> bytes
     \<Rightarrow> (('r, 'x) error, frame decoded) res \<times> frame_decoder \<times> bytes" where
  "decode pl d src =
     (if dec_header d = None
      then bind_st (decode_header d src) (\<lambda>got (d', src').
             if got then decode_payload pl d' src' else (Ok Insufficient, d', src'))
      else decode_payload pl d src)"

section \<open>FrameEncoder\<close>

definition write_header :: "frame_header \<Rightarrow> u64 \<Rightarrow> bytes \<Rightarrow> bytes" where
  "write_header h len dst =
     (let dst1 = dst @ [header_byte_one h, header_byte_two h len];
          dst2 = (case length_for_length len of
                    LenU8 b \<Rightarrow> dst1
                  | LenU16 \<Rightarrow> dst1 @ u16_to_be_bytes (ucast len)
                  | LenU64 \<Rightarrow> dst1 @ u64_to_be_bytes len)
      in case frame_mask h of Some m \<Rightarrow> dst2 @ mask_bytes m | None \<Rightarrow> dst2)"

definition encode :: "platform \<Rightarrow> frame \<Rightarrow> bytes \<Rightarrow> bytes" where
  "encode pl f dst =
     (let dst1 = write_header (header f) (of_nat (length (payload f))) dst;
          len = length dst1;
          dst2 = dst1 @ payload f
      in case frame_mask (header f) of
           Some m \<Rightarrow> take len dst2 @ apply_mask pl (drop len dst2) m
         | None \<Rightarrow> dst2)"

text \<open>What the encoder appends.\<close>

definition frame_bytes :: "platform \<Rightarrow> frame \<Rightarrow> bytes" where
  "frame_bytes pl f = header_bytes (header f) (of_nat (length (payload f)))
     @ (case frame_mask (header f) of Some m \<Rightarrow> apply_mask pl (payload f) m | None \<Rightarrow> payload f)"

lemma write_header_eq: "write_header h len dst = dst @ header_bytes h len"
  by (simp add: write_header_def header_bytes_def length_bytes_def Let_def
      split: length_format.split option.split)

lemma encode_eq: "encode pl f dst = dst @ frame_bytes pl f"
  by (simp add: encode_def frame_bytes_def write_header_eq Let_def split: option.split)

lemma frame_format_vec: "frame_format pl vec_write f w = (Ok (), w @ frame_bytes pl f)"
  by (simp add: frame_format_def header_format_vec io_write_def vec_write_def frame_bytes_def split: option.split)

section \<open>The decoder on headers\<close>

lemma cursor_left_new [simp]: "cursor_left (cursor_new bs) = bs"
  by (simp add: cursor_left_def cursor_new_def)

text \<open>The header half, by the specification of the parser.\<close>

lemma decode_header_eq:
  "decode_header d src =
    (if length src < 2 \<or> length src < wire_header_size src then (Ok False, d, src)
     else if is_reserved (wire_opcode src)
       then (Err (Protocol (InvalidOpcode (hd src AND 0x0F))), d, src)
     else if \<exists>mx. dec_max_frame_size d = Some mx \<and> wire_length src > mx
       then (Err (Capacity (MessageTooLong (wire_length src) (the (dec_max_frame_size d)))), d,
             drop (wire_header_size src) src)
     else (Ok True, d\<lparr>dec_header := Some (wire_header src, wire_length src)\<rparr>,
           drop (wire_header_size src) src))"
  by (simp add: decode_header_def header_parse_eq[OF refl] Let_def cursor_new_def[of src, THEN arg_cong[of _ _ cur_pos]]
      split: option.split)

section \<open>Resumable decoders\<close>

text \<open>
  The contract between a decoder and whatever drives it over a growing buffer: a frame or
  an error is decided by the bytes that are there, and stays so when more arrive; when the
  data is insufficient, the decoder can be called again with more as if it had not been
  called before; and a decoded frame uses up some measure of state and buffer.
\<close>

locale resumable_decoder =
  fixes dec :: "'d \<Rightarrow> bytes \<Rightarrow> ('e, 'f decoded) res \<times> 'd \<times> bytes"
    and weight :: "'d \<Rightarrow> bytes \<Rightarrow> nat"
  assumes frame_stays: "dec d src = (Ok (Decoded f), d', src') \<Longrightarrow>
      dec d (src @ extra) = (Ok (Decoded f), d', src' @ extra)"
    and error_stays: "dec d src = (Err e, d', src') \<Longrightarrow> dec d (src @ extra) = (Err e, d', src' @ extra)"
    and resumes: "dec d src = (Ok r, d', src') \<Longrightarrow> (\<forall>f. r \<noteq> Decoded f) \<Longrightarrow>
      dec d (src @ extra) = dec d' (src' @ extra)"
    and no_panic: "fst (dec d src) \<noteq> Panic"
    and progress: "dec d src = (Ok (Decoded f), d', src') \<Longrightarrow> weight d' src' < weight d src"

text \<open>
  Driving a decoder: decode frames until one step gives no frame. \<open>fuel\<close> bounds the
  frames; the weight of the start is enough.
\<close>

fun drain :: "('d \<Rightarrow> bytes \<Rightarrow> ('e, 'f decoded) res \<times> 'd \<times> bytes) \<Rightarrow> nat \<Rightarrow> 'd \<Rightarrow> bytes
    \<Rightarrow> ('f list \<times> 'e option \<times> 'd \<times> bytes) option" where
  "drain dec 0 d src = None"
| "drain dec (Suc fuel) d src = (case dec d src of
     (Ok (Decoded f), d', src') \<Rightarrow>
       map_option (\<lambda>(fs, r). (f # fs, r)) (drain dec fuel d' src')
   | (Ok _, d', src') \<Rightarrow> Some ([], None, d', src')
   | (Err e, d', src') \<Rightarrow> Some ([], Some e, d', src')
   | (Panic, d', src') \<Rightarrow> None)"

text \<open>Driving it over the chunks of a stream, as they are read.\<close>

fun feed :: "('d \<Rightarrow> bytes \<Rightarrow> ('e, 'f decoded) res \<times> 'd \<times> bytes) \<Rightarrow> ('d \<Rightarrow> bytes \<Rightarrow> nat)
    \<Rightarrow> 'd \<Rightarrow> bytes \<Rightarrow> bytes list \<Rightarrow> ('f list \<times> 'e option) option" where
  "feed dec weight d src [] = map_option (\<lambda>(fs, e, _). (fs, e)) (drain dec (Suc (weight d src)) d src)"
| "feed dec weight d src (c # cs) = (case drain dec (Suc (weight d src)) d src of
     None \<Rightarrow> None
   | Some (fs, Some e, d', src') \<Rightarrow> Some (fs, Some e)
   | Some (fs, None, d', src') \<Rightarrow> map_option (\<lambda>(gs, r). (fs @ gs, r)) (feed dec weight d' (src' @ c) cs))"

context resumable_decoder
begin

lemma drain_total: "weight d src < fuel \<Longrightarrow> \<exists>r. drain dec fuel d src = Some r"
proof (induction fuel arbitrary: d src)
  case 0
  then show ?case by simp
next
  case (Suc fuel)
  obtain r d' src' where step: "dec d src = (r, d', src')" by (cases "dec d src") auto
  show ?case
  proof (cases "\<exists>f. r = Ok (Decoded f)")
    case True
    then obtain f where "dec d src = (Ok (Decoded f), d', src')" using step by auto
    moreover from this have "weight d' src' < fuel" using progress Suc.prems by fastforce
    ultimately show ?thesis using Suc.IH[of d' src'] by auto
  next
    case False
    then show ?thesis using step no_panic[of d src] by (auto split: res.splits decoded.splits)
  qed
qed

lemma drain_fuel: "drain dec fuel d src = Some r \<Longrightarrow> fuel \<le> fuel' \<Longrightarrow> drain dec fuel' d src = Some r"
proof (induction fuel arbitrary: fuel' d src r)
  case (Suc fuel)
  then obtain k where "fuel' = Suc k" "fuel \<le> k" by (cases fuel') auto
  obtain x d1 t where step: "dec d src = (x, d1, t)" by (cases "dec d src") auto
  show ?case
  proof (cases "\<exists>f. x = Ok (Decoded f)")
    case True
    then obtain f where f: "dec d src = (Ok (Decoded f), d1, t)" using step by auto
    with Suc.prems obtain q where "drain dec fuel d1 t = Some q" by auto
    with Suc.IH[OF this \<open>fuel \<le> k\<close>] Suc.prems f \<open>fuel' = Suc k\<close> show ?thesis by simp
  next
    case False
    then show ?thesis
      using Suc.prems(1) step \<open>fuel' = Suc k\<close> by (cases x) (auto split: decoded.splits)
  qed
qed simp

text \<open>Draining more data is draining what there was and going on.\<close>

lemma drain_append:
  assumes "drain dec fuel d src = Some (fs, None, d', src')"
    and "drain dec fuel' d' (src' @ extra) = Some (gs, r)"
  shows "drain dec (fuel + fuel') d (src @ extra) = Some (fs @ gs, r)"
  using assms(1)
proof (induction fuel arbitrary: d src fs)
  case (Suc fuel)
  obtain x e t where step: "dec d src = (x, e, t)" by (cases "dec d src") auto
  show ?case
  proof (cases "\<exists>f. x = Ok (Decoded f)")
    case True
    then obtain f where f: "dec d src = (Ok (Decoded f), e, t)" using step by auto
    with Suc.prems obtain hs where "drain dec fuel e t = Some (hs, None, d', src')" "fs = f # hs"
      by auto
    with Suc.IH[of e t hs] frame_stays[OF f, of extra] show ?thesis by simp
  next
    case False
    then obtain y where y: "dec d src = (Ok y, e, t)" "\<forall>f. y \<noteq> Decoded f"
      using step Suc.prems by (cases x) auto
    then have same: "e = d'" "t = src'" "fs = []"
      using Suc.prems by (auto split: decoded.splits)
    obtain k where k: "fuel' = Suc k" using assms(2) by (cases fuel') auto
    have "dec d (src @ extra) = dec d' (src' @ extra)"
      using resumes[OF y, of extra] same by simp
    then have "drain dec (Suc k) d (src @ extra) = Some (gs, r)"
      using assms(2) k by simp
    then show ?thesis
      using drain_fuel[of "Suc k" d "src @ extra" "(gs, r)" "Suc fuel + fuel'"] k same by simp
  qed
qed simp

lemma drain_append_error:
  assumes "drain dec fuel d src = Some (fs, Some e, d', src')"
  shows "drain dec fuel d (src @ extra) = Some (fs, Some e, d', src' @ extra)"
  using assms
proof (induction fuel arbitrary: d src fs)
  case (Suc fuel)
  obtain x d1 t where step: "dec d src = (x, d1, t)" by (cases "dec d src") auto
  show ?case
  proof (cases "\<exists>f. x = Ok (Decoded f)")
    case True
    then obtain f where f: "dec d src = (Ok (Decoded f), d1, t)" using step by auto
    with Suc.prems obtain hs where "drain dec fuel d1 t = Some (hs, Some e, d', src')" "fs = f # hs"
      by auto
    with Suc.IH frame_stays[OF f, of extra] show ?thesis by simp
  next
    case False
    then have "dec d src = (Err e, d', src')" "fs = []"
      using step Suc.prems by (auto split: res.splits decoded.splits)
    then show ?thesis using error_stays[of d src e d' src' extra] by simp
  qed
qed simp

text \<open>The frames of a stream do not depend on its chunks.\<close>

lemma feed_concat:
  "feed dec weight d src cs
     = map_option (\<lambda>(fs, e, _). (fs, e)) (drain dec (Suc (weight d (src @ concat cs))) d (src @ concat cs))"
proof (induction cs arbitrary: d src)
  case Nil
  then show ?case by simp
next
  case (Cons c cs)
  let ?rest = "c @ concat cs"
  let ?total = "drain dec (Suc (weight d (src @ ?rest))) d (src @ ?rest)"
  obtain r where tot: "?total = Some r" using drain_total by blast
  obtain fs e d' src' where dr: "drain dec (Suc (weight d src)) d src = Some (fs, e, d', src')"
    using drain_total[of d src] by force
  have unique: "drain dec n d (src @ ?rest) = Some q \<Longrightarrow> q = r" for n q
    using drain_fuel[of n d "src @ ?rest" q "max n (Suc (weight d (src @ ?rest)))"]
      drain_fuel[OF tot, of "max n (Suc (weight d (src @ ?rest)))"] by simp
  show ?case
  proof (cases e)
    case None
    obtain gs q where rest: "drain dec (Suc (weight d' (src' @ ?rest))) d' (src' @ ?rest) = Some (gs, q)"
      using drain_total[of d' "src' @ ?rest"] by force
    have "r = (fs @ gs, q)"
      using unique[OF drain_append[OF dr[unfolded None] rest]] by simp
    then show ?thesis
      using Cons.IH[of d' "src' @ c"] dr None rest tot by (cases q) simp
  next
    case (Some x)
    have "r = (fs, Some x, d', src' @ ?rest)"
      using unique[OF drain_append_error[OF dr[unfolded Some]]] by simp
    then show ?thesis using dr Some tot by simp
  qed
qed

end

section \<open>FrameDecoder is resumable\<close>

lemma wire_append:
  assumes "2 \<le> length src" "wire_header_size src \<le> length src"
  shows "wire_header_size (src @ extra) = wire_header_size src"
    and "wire_opcode (src @ extra) = wire_opcode src"
    and "wire_length (src @ extra) = wire_length src"
    and "wire_header (src @ extra) = wire_header src"
    and "hd (src @ extra) = hd src"
proof -
  obtain a b r where src: "src = a # b # r"
    using assms(1) by (auto simp: numeral_eq_Suc Suc_le_length_iff)
  show size: "wire_header_size (src @ extra) = wire_header_size src"
    by (simp add: src wire_header_size_def)
  show op: "wire_opcode (src @ extra) = wire_opcode src" "hd (src @ extra) = hd src"
    by (simp_all add: src wire_opcode_def)
  have n: "extra_bytes (length_for_byte b) \<le> length r"
    using assms(2) by (simp add: src wire_header_size_def)
  then show "wire_length (src @ extra) = wire_length src"
    by (simp add: src wire_length_def split: nat.split)
  have "wire_mask (src @ extra) = wire_mask src"
    using assms(2)
    by (cases "b AND 0x80 = 0") (auto simp: src wire_mask_def wire_header_size_def Let_def nth_append)
  then show "wire_header (src @ extra) = wire_header src"
    using op by (simp add: wire_header_def)
qed

lemma decode_header_stays:
  assumes "decode_header d src = (r, d', src')" "r \<noteq> Ok False"
  shows "decode_header d (src @ extra) = (r, d', src' @ extra)"
proof -
  have size: "2 \<le> length src" "wire_header_size src \<le> length src"
    using assms by (auto simp: decode_header_eq split: if_splits)
  then show ?thesis
    using assms by (auto simp: decode_header_eq wire_append[OF size] split: if_splits)
qed

lemma decode_header_no_panic: "decode_header d src \<noteq> (Panic, d', src')"
  by (simp add: decode_header_eq)

lemma decode_header_False: "decode_header d src = (Ok False, d', src') \<Longrightarrow> d' = d \<and> src' = src"
  by (auto simp: decode_header_eq split: if_splits)

lemma decode_header_True:
  "decode_header d src = (Ok True, d', src') \<Longrightarrow>
     d' = d\<lparr>dec_header := Some (wire_header src, wire_length src)\<rparr> \<and> src' = drop (wire_header_size src) src
     \<and> 2 \<le> length src \<and> wire_header_size src \<le> length src \<and> \<not> is_reserved (wire_opcode src)
     \<and> (\<forall>mx. dec_max_frame_size d = Some mx \<longrightarrow> wire_length src \<le> mx)"
  by (auto simp: decode_header_eq split: if_splits)

lemma decode_payload_stays:
  assumes "decode_payload pl d src = (r, d', src')" "\<forall>n. r \<noteq> Ok (InsufficientAtLeast n)" "dec_header d \<noteq> None"
  shows "decode_payload pl d (src @ extra) = (r, d', src' @ extra)"
  using assms by (auto simp: decode_payload_def Let_def split: option.splits if_splits)

lemma decode_payload_short:
  assumes "decode_payload pl d src = (Ok r, d', src')" "\<forall>f. r \<noteq> Decoded f" "dec_header d \<noteq> None"
  shows "d' = d \<and> src' = src"
  using assms by (auto simp: decode_payload_def Let_def split: option.splits if_splits)

lemma decode_payload_no_panic: "dec_header d = Some h \<Longrightarrow> decode_payload pl d src \<noteq> (Panic, d', src')"
  by (auto simp: decode_payload_def Let_def split: option.splits prod.splits if_splits)

lemma decode_payload_frame:
  "decode_payload pl d src = (Ok (Decoded f), d', src') \<Longrightarrow>
     dec_header d' = None \<and> length src' \<le> length src \<and> dec_header d \<noteq> None"
  by (auto simp: decode_payload_def Let_def split: option.splits if_splits)

text \<open>One call of \<open>decode\<close>, by the phase it starts in.\<close>

lemma decode_cases:
  fixes r :: "(('r, 'x) error, frame decoded) res"
  assumes "decode pl d src = (r, d', src')"
  obtains (payload) h where "dec_header d = Some h" "decode_payload pl d src = (r, d', src')"
  | (header_error) e where "dec_header d = None" "decode_header d src = (Err e, d', src')" "r = Err e"
  | (no_header) "dec_header d = None" "decode_header d src = (Ok False :: (('r, 'x) error, bool) res, d, src)"
      "r = Ok Insufficient" "d' = d" "src' = src"
  | (both) d1 s1 h where "dec_header d = None"
      "decode_header d src = (Ok True :: (('r, 'x) error, bool) res, d1, s1)"
      "dec_header d1 = Some h" "decode_payload pl d1 s1 = (r, d', src')"
proof (cases "dec_header d = None")
  case False
  then show thesis using assms payload by (auto simp: decode_def)
next
  case True
  then have "bind_st (decode_header d src :: (('r, 'x) error, bool) res \<times> frame_decoder \<times> bytes) (\<lambda>got (d', src').
      if got then decode_payload pl d' src' else (Ok Insufficient, d', src')) = (r, d', src')"
    using assms by (simp add: decode_def)
  then show thesis
  proof (cases rule: bind_st_cases)
    case (1 got s)
    obtain d1 s1 where s: "s = (d1, s1)" by (cases s) auto
    show thesis
    proof (cases got)
      case got: True
      then have hdr: "decode_header d src = (Ok True :: (('r, 'x) error, bool) res, d1, s1)" using 1 s by simp
      then show thesis
        using decode_header_True[OF hdr] 1 s got both[OF True, of d1 s1 "(wire_header src, wire_length src)"]
        by simp
    next
      case False
      then show thesis
        using 1 s decode_header_False[of d src d1 s1] by (intro no_header[OF True]) auto
    qed
  next
    case (2 e)
    then show thesis using True header_error by simp
  next
    case 3
    then show thesis using decode_header_no_panic by blast
  qed
qed

lemma decode_not_panic: "decode pl d src \<noteq> (Panic, d', src')"
proof
  assume "decode pl d src = (Panic, d', src')"
  then show False
  proof (cases rule: decode_cases)
    case (payload h)
    then show False using decode_payload_no_panic by blast
  next
    case (both d1 s1 h)
    then show False using decode_payload_no_panic by blast
  qed simp_all
qed

definition decode_weight :: "frame_decoder \<Rightarrow> bytes \<Rightarrow> nat" where
  "decode_weight d src = 2 * length src + (if dec_header d = None then 0 else 1)"

interpretation frame_decoder: resumable_decoder "decode pl" decode_weight
  for pl :: platform
proof (unfold_locales, goal_cases)
  case (1 d src f d' src' extra)
  then show ?case
    by (cases rule: decode_cases) (simp_all add: decode_def decode_payload_stays decode_header_stays)
next
  case (2 d src e d' src' extra)
  then show ?case
    by (cases rule: decode_cases) (simp_all add: decode_def decode_payload_stays decode_header_stays)
next
  case (3 d src r d' src' extra)
  from 3(1) show ?case
  proof (cases rule: decode_cases)
    case payload
    then show ?thesis using 3(2) decode_payload_short by fastforce
  next
    case (both d1 s1)
    have "d' = d1 \<and> src' = s1" using both 3(2) decode_payload_short by blast
    then show ?thesis
      using both(1,3) decode_header_stays[OF both(2)] by (simp add: decode_def)
  qed simp_all
next
  case (4 d src)
  show ?case using decode_not_panic by (metis prod.collapse)
next
  case (5 d src f d' src')
  then show ?case
  proof (cases rule: decode_cases)
    case payload
    then show ?thesis using decode_payload_frame[OF payload(2)] by (simp add: decode_weight_def)
  next
    case (both d1 s1)
    have "length s1 + 2 \<le> length src"
      using decode_header_True[OF both(2)] by (auto simp: wire_header_size_def)
    then show ?thesis
      using decode_payload_frame[OF both(4)] both(1) by (simp add: decode_weight_def)
  qed simp_all
qed

section \<open>Encoding and decoding\<close>

text \<open>The frames a decoder accepts, and what it delivers for them.\<close>

definition sendable :: "frame \<Rightarrow> bool" where
  "sendable f \<longleftrightarrow> opcode_wf (opcode (header f)) \<and> \<not> is_reserved (opcode (header f))
     \<and> length (payload f) < 2 ^ 64"

definition receivable :: "frame_decoder \<Rightarrow> frame \<Rightarrow> bool" where
  "receivable d f \<longleftrightarrow> sendable f
     \<and> (case dec_max_frame_size d of Some mx \<Rightarrow> length (payload f) \<le> unat mx | None \<Rightarrow> True)
     \<and> (dec_unmask d \<and> \<not> dec_accept_unmasked d \<longrightarrow> frame_mask (header f) \<noteq> None)"

definition delivered :: "platform \<Rightarrow> frame_decoder \<Rightarrow> frame \<Rightarrow> frame" where
  "delivered pl d f = (case frame_mask (header f) of
     None \<Rightarrow> f
   | Some m \<Rightarrow>
       if dec_unmask d then f\<lparr>header := (header f)\<lparr>frame_mask := None\<rparr>\<rparr>
       else f\<lparr>payload := apply_mask pl (payload f) m\<rparr>)"

lemma length_frame_bytes:
  "sound_platform pl \<Longrightarrow> length (frame_bytes pl f)
     = header_len (header f) (of_nat (length (payload f))) + length (payload f)"
  by (simp add: frame_bytes_def length_header_bytes byte_loop.mask_length sound_platform.apply_mask_eq split: option.split)

text \<open>The header half on an encoded frame.\<close>

lemma decode_header_frame_bytes:
  assumes "sendable f"
    and "case dec_max_frame_size d of Some mx \<Rightarrow> length (payload f) \<le> unat mx | None \<Rightarrow> True"
    and body: "src = header_bytes (header f) (of_nat (length (payload f))) @ body"
  shows "decode_header d src
    = (Ok True, d\<lparr>dec_header := Some (header f, of_nat (length (payload f)))\<rparr>, body)"
proof -
  let ?len = "of_nat (length (payload f)) :: u64"
  have wf: "opcode_wf (opcode (header f))" "\<not> is_reserved (opcode (header f))"
    and len: "unat ?len = length (payload f)"
    using assms(1) by (simp_all add: sendable_def unsigned_of_nat take_bit_nat_eq_self)
  note wire = wire_of_header_bytes[OF wf(1) body]
  have "length src = header_len (header f) ?len + length body" "2 \<le> header_len (header f) ?len"
    by (simp_all add: body length_header_bytes header_len_def)
  moreover have "\<not> (\<exists>mx. dec_max_frame_size d = Some mx \<and> ?len > mx)"
    using assms(2) len by (auto simp: word_less_nat_alt)
  ultimately show ?thesis
    using wf by (simp add: decode_header_eq wire) (simp add: body length_header_bytes)
qed

lemma decode_frame_bytes:
  assumes "sound_platform pl" "receivable d f" "dec_header d = None"
  shows "decode pl d (frame_bytes pl f @ rest) = (Ok (Decoded (delivered pl d f)), d, rest)"
proof -
  let ?len = "of_nat (length (payload f)) :: u64"
  let ?body = "case frame_mask (header f) of Some m \<Rightarrow> apply_mask pl (payload f) m | None \<Rightarrow> payload f"
  have send: "sendable f" and len: "unat ?len = length (payload f)"
    using assms(2) by (simp_all add: receivable_def sendable_def unsigned_of_nat take_bit_nat_eq_self)
  have body: "length ?body = length (payload f)"
    by (simp add: byte_loop.mask_length sound_platform.apply_mask_eq[OF assms(1)] split: option.split)
  have undo: "apply_mask pl (apply_mask pl (payload f) m) m = payload f" for m
    by (simp add: byte_loop.mask_undo sound_platform.apply_mask_eq[OF assms(1)])
  have clear: "d\<lparr>dec_header := None\<rparr> = d" using assms(3) by (cases d) simp
  have hdr: "decode_header d (frame_bytes pl f @ rest)
      = (Ok True, d\<lparr>dec_header := Some (header f, ?len)\<rparr>, ?body @ rest)"
    using assms(2) by (intro decode_header_frame_bytes[OF send]) (simp_all add: receivable_def frame_bytes_def)
  have "decode pl d (frame_bytes pl f @ rest)
      = decode_payload pl (d\<lparr>dec_header := Some (header f, ?len)\<rparr>) (?body @ rest)"
    using assms(3) by (simp add: decode_def hdr)
  also have "\<dots> = (Ok (Decoded (delivered pl d f)), d, rest)"
    using assms(2) body undo clear
    by (cases "frame_mask (header f)")
      (simp_all add: decode_payload_def len frame_from_payload_def delivered_def receivable_def Let_def)
  finally show ?thesis .
qed

lemma decode_unmasked_rejected:
  assumes "sendable f" "dec_header d = None" "dec_unmask d" "\<not> dec_accept_unmasked d"
    and "case dec_max_frame_size d of Some mx \<Rightarrow> length (payload f) \<le> unat mx | None \<Rightarrow> True"
    and "frame_mask (header f) = None"
  shows "decode pl d (frame_bytes pl f @ rest) = (Err (Protocol UnmaskedFrameFromClient), d, rest)"
proof -
  have hdr: "decode_header d (frame_bytes pl f @ rest)
      = (Ok True, d\<lparr>dec_header := Some (header f, of_nat (length (payload f)))\<rparr>, payload f @ rest)"
    using assms by (intro decode_header_frame_bytes) (simp_all add: frame_bytes_def)
  have "d\<lparr>dec_header := None\<rparr> = d" using assms(2) by (cases d) simp
  moreover have "unat (of_nat (length (payload f)) :: u64) = length (payload f)"
    using assms(1) by (simp add: sendable_def unsigned_of_nat take_bit_nat_eq_self)
  ultimately show ?thesis
    using assms by (simp add: decode_def decode_payload_def hdr)
qed

lemma decode_empty: "dec_header d = None \<Longrightarrow> decode pl d [] = (Ok Insufficient, d, [])"
  by (simp add: decode_def decode_header_eq)

lemma drain_frames:
  assumes "sound_platform pl" "dec_header d = None" "\<forall>f \<in> set fs. receivable d f" "length fs < fuel"
  shows "drain (decode pl) fuel d (concat (map (frame_bytes pl) fs)) = Some (map (delivered pl d) fs, None, d, [])"
  using assms(3,4)
proof (induction fs arbitrary: fuel)
  case Nil
  then show ?case using assms(2) by (cases fuel) (simp_all add: decode_empty)
next
  case (Cons f fs)
  then obtain k where "fuel = Suc k" "length fs < k" by (cases fuel) auto
  then show ?case
    using Cons by (simp add: decode_frame_bytes[OF assms(1) _ assms(2)])
qed

lemma feed_frames:
  assumes "sound_platform pl" "dec_header d = None" "\<forall>f \<in> set fs. receivable d f"
    and "concat cs = concat (map (frame_bytes pl) fs)"
  shows "feed (decode pl :: _ \<Rightarrow> _ \<Rightarrow> (('r, 'x) error, _) res \<times> _) decode_weight d [] cs = Some (map (delivered pl d) fs, None)"
proof -
  let ?bs = "concat (map (frame_bytes pl) fs)"
  define n where "n = Suc (decode_weight d ?bs)"
  have all: "drain (decode pl :: _ \<Rightarrow> _ \<Rightarrow> (('r, 'x) error, _) res \<times> _) n d ?bs = Some (map (delivered pl d) fs, None, d, [])"
  proof -
    obtain r where r: "drain (decode pl :: _ \<Rightarrow> _ \<Rightarrow> (('r, 'x) error, _) res \<times> _) n d ?bs = Some r"
      unfolding n_def using frame_decoder.drain_total by blast
    have "drain (decode pl) (max n (Suc (length fs))) d ?bs = Some r"
      using r by (rule frame_decoder.drain_fuel) simp
    then have "r = (map (delivered pl d) fs, None, d, [])"
      by (simp add: drain_frames[OF assms(1-3)] del: drain.simps)
    with r show ?thesis by simp
  qed
  then show ?thesis
    by (simp add: frame_decoder.feed_concat assms(4) n_def del: drain.simps)
qed

section \<open>The invariant of the decoder\<close>

text \<open>What holds of a header that the decoder accepted, of its state, and of what it yields.\<close>

definition header_ok :: "frame_decoder \<Rightarrow> frame_header \<Rightarrow> nat \<Rightarrow> bool" where
  "header_ok d h n \<longleftrightarrow> opcode_wf (opcode h) \<and> \<not> is_reserved (opcode h) \<and> n < 2 ^ 64
     \<and> (case dec_max_frame_size d of Some mx \<Rightarrow> n \<le> unat mx | None \<Rightarrow> True)"

definition decoder_ok :: "frame_decoder \<Rightarrow> bool" where
  "decoder_ok d \<longleftrightarrow> (case dec_header d of Some (h, len) \<Rightarrow> header_ok d h (unat len) | None \<Rightarrow> True)"

definition frame_ok :: "frame_decoder \<Rightarrow> frame \<Rightarrow> bool" where
  "frame_ok d f \<longleftrightarrow> header_ok d (header f) (length (payload f))
     \<and> (dec_unmask d \<longrightarrow> frame_mask (header f) = None)"

lemma wire_opcode_wf: "opcode_wf (wire_opcode bs)"
  unfolding wire_opcode_def
  by (auto simp: opcode_of_u8_def split: res.splits if_splits)

lemma decode_header_ok:
  assumes "decode_header d src = (Ok True, d1, s1)"
  shows "decoder_ok d1" "dec_unmask d1 = dec_unmask d" "dec_max_frame_size d1 = dec_max_frame_size d"
    "dec_accept_unmasked d1 = dec_accept_unmasked d"
  using decode_header_True[OF assms] unsigned_less[of "wire_length src", where ?'a = nat]
  by (auto simp: decoder_ok_def header_ok_def wire_header_def wire_opcode_wf word_le_nat_alt split: option.split)

lemma decode_payload_ok:
  fixes r :: "(('r, 'x) error, frame decoded) res"
  assumes "sound_platform pl" "decoder_ok d" "dec_header d = Some hl"
    and "decode_payload pl d src = (r, d', src')"
  shows "(d' = d \<or> d' = d\<lparr>dec_header := None\<rparr>) \<and> (\<forall>f. r = Ok (Decoded f) \<longrightarrow> frame_ok d f)"
proof -
  obtain h len where hl: "hl = (h, len)" by (cases hl) auto
  show ?thesis
    using assms(2-4) unfolding hl
    by (auto simp: decode_payload_def frame_ok_def decoder_ok_def header_ok_def frame_from_payload_def Let_def
        byte_loop.mask_length sound_platform.apply_mask_eq[OF assms(1)] split: if_splits option.splits)
qed

text \<open>The settings survive every call, and the invariant with them.\<close>

lemma decode_ok:
  fixes r :: "(('r, 'x) error, frame decoded) res"
  assumes "sound_platform pl" "decoder_ok d" "decode pl d src = (r, d', src')"
  shows "decoder_ok d' \<and> dec_unmask d' = dec_unmask d \<and> dec_max_frame_size d' = dec_max_frame_size d
    \<and> dec_accept_unmasked d' = dec_accept_unmasked d \<and> (\<forall>f. r = Ok (Decoded f) \<longrightarrow> frame_ok d f)"
  using assms(3)
proof (cases rule: decode_cases)
  case (payload h)
  then show ?thesis
    using decode_payload_ok[OF assms(1,2) payload] assms(2) by (auto simp: decoder_ok_def)
next
  case (header_error e)
  then show ?thesis
    using assms(2) by (auto simp: decode_header_eq split: if_splits)
next
  case no_header
  then show ?thesis using assms(2) by simp
next
  case (both d1 s1 h)
  note hdr = decode_header_ok[OF both(2)]
  have "frame_ok d1 f \<longleftrightarrow> frame_ok d f" for f
    by (simp add: frame_ok_def header_ok_def hdr)
  then show ?thesis
    using decode_payload_ok[OF assms(1) hdr(1) both(3,4)] hdr by (auto simp: decoder_ok_def)
qed

lemma decode_oversized:
  assumes "sendable f" "dec_header d = None" "dec_max_frame_size d = Some mx" "unat mx < length (payload f)"
    and body: "src = header_bytes (header f) (of_nat (length (payload f))) @ body"
  shows "decode pl d src
    = (Err (Capacity (MessageTooLong (of_nat (length (payload f))) mx)) :: (('r, 'x) error, _) res, d, body)"
proof -
  let ?len = "of_nat (length (payload f)) :: u64"
  have wf: "opcode_wf (opcode (header f))" "\<not> is_reserved (opcode (header f))"
    and len: "unat ?len = length (payload f)"
    using assms(1) by (simp_all add: sendable_def unsigned_of_nat take_bit_nat_eq_self)
  note wire = wire_of_header_bytes[OF wf(1) body]
  have "length src = header_len (header f) ?len + length body" "2 \<le> header_len (header f) ?len"
    by (simp_all add: body length_header_bytes header_len_def)
  moreover have "?len > mx"
    using assms(4) len by (simp add: word_less_nat_alt)
  ultimately have "decode_header d src
      = (Err (Capacity (MessageTooLong ?len mx)) :: (('r, 'x) error, _) res, d, body)"
    using wf assms(3) by (simp add: decode_header_eq wire) (simp add: body length_header_bytes)
  then show ?thesis using assms(2) by (simp add: decode_def)
qed

section \<open>Properties\<close>

text \<open>C32. A sequence of frames that the peer encodes arrives, frame by frame and unmasked where
  the decoder unmasks, whatever the pieces in which the transport delivers its bytes.\<close>

theorem frames_survive_chunking:
  assumes "sound_platform pl" "dec_header d = None" "\<forall>f \<in> set fs. receivable d f"
    and "concat chunks = concat (map (\<lambda>f. encode pl f []) fs)"
  shows "feed (decode pl :: _ \<Rightarrow> _ \<Rightarrow> (('r, 'x) error, _) res \<times> _) decode_weight d [] chunks
     = Some (map (delivered pl d) fs, None)"
proof -
  have "(\<lambda>f. encode pl f []) = frame_bytes pl" by (simp add: encode_eq fun_eq_iff)
  with assms show ?thesis by (simp add: feed_frames)
qed

text \<open>A masked ping and a masked text frame to a server, cut inside the header of the first and
  inside the mask of the second.\<close>

lemma frames_survive_chunking_witness:
  "feed (decode aligned_le :: _ \<Rightarrow> _ \<Rightarrow> ((unit, unit) error, _) res \<times> _) decode_weight
     (set_max_frame_size (Some 16) (set_unmask True default_decoder)) []
     [[0x89], [0x81, 0, 0, 0, 0, 7, 0x81, 0x82, 1], [1, 1, 1, 0x49, 0x68]]
   = Some ([frame_ping [7], \<lparr>header = default_header\<lparr>opcode := OpData OpText\<rparr>, payload = [0x48, 0x69]\<rparr>], None)"
  using frames_survive_chunking[of aligned_le "set_max_frame_size (Some 16) (set_unmask True default_decoder)"
      "[frame_set_mask (0, 0, 0, 0) (frame_ping [7]),
        frame_set_mask (1, 1, 1, 1) \<lparr>header = default_header\<lparr>opcode := OpData OpText\<rparr>, payload = [0x48, 0x69]\<rparr>]"
      "[[0x89], [0x81, 0, 0, 0, 0, 7, 0x81, 0x82, 1], [1, 1, 1, 0x49, 0x68]]", where ?'r = unit and ?'x = unit]
  by (simp add: le.sound_platform_axioms le.apply_mask_eq apply_mask_fallback_def mask_bytes_def and_3_mod_4
      encode_eq frame_bytes_def header_bytes_def header_byte_one_def header_byte_two_def length_bytes_def
      length_for_length_def default_header_def frame_ping_def frame_set_mask_def header_set_mask_def
      receivable_def sendable_def delivered_def set_max_frame_size_def set_unmask_def default_decoder_def)




text \<open>A frame over the limit is refused with its size and the limit as soon as its header
  is there; the header has then left the buffer and is not held, so what follows in the
  buffer is the payload, at the place where the next call looks for a header.\<close>

theorem oversized_frame_refused:
  assumes "sendable f" "dec_header d = None" "dec_max_frame_size d = Some mx" "unat mx < length (payload f)"
  shows "decode pl d (header_bytes (header f) (of_nat (length (payload f))) @ body)
    = (Err (Capacity (MessageTooLong (of_nat (length (payload f))) mx)) :: (('r, 'x) error, _) res, d, body)"
  using assms by (rule decode_oversized) simp

text \<open>A two-byte frame against a limit of one byte: its payload, 81 00, is then decoded as an
  empty text frame.\<close>

lemma oversized_frame_refused_witness:
  "let d = set_max_frame_size (Some 1) default_decoder in
   decode aligned_le d [0x82, 2, 0x81, 0]
     = (Err (Capacity (MessageTooLong 2 1)) :: ((unit, unit) error, _) res, d, [0x81, 0])
   \<and> decode aligned_le d [0x81, 0]
     = (Ok (Decoded \<lparr>header = default_header\<lparr>opcode := OpData OpText\<rparr>, payload = []\<rparr>) :: ((unit, unit) error, _) res, d, [])"
  using oversized_frame_refused[of "\<lparr>header = default_header\<lparr>opcode := OpData OpBinary\<rparr>, payload = [0x81, 0]\<rparr>"
      "set_max_frame_size (Some 1) default_decoder" 1 aligned_le "[0x81, 0]", where ?'r = unit and ?'x = unit]
  by (simp add: decode_def decode_header_eq decode_payload_def default_decoder_def wire_header_size_def
        wire_opcode_def wire_header_def wire_mask_def wire_length_def length_for_byte_def opcode_of_u8_def
        frame_from_payload_def default_header_def set_max_frame_size_def sendable_def header_bytes_def
        header_byte_one_def header_byte_two_def length_bytes_def length_for_length_def)

text \<open>C40. The codec's encoder and the frame's own formatter write the same bytes behind what the
  buffer holds, the formatter never fails on a vector, and the number of bytes written is
  what \<open>Frame::len\<close> announces.\<close>

theorem encoder_equals_format:
  assumes "split_ok (align_to pl)"
  shows "(frame_format pl vec_write f dst :: (('r, 'x) error, unit) res \<times> bytes) = (Ok (), encode pl f dst)
    \<and> length (encode pl f dst) = length dst + frame_len f
    \<and> take (length dst) (encode pl f dst) = dst"
proof -
  have "sound_platform pl" using assms by unfold_locales
  then show ?thesis by (simp add: frame_format_vec encode_eq length_frame_bytes frame_len_def)
qed

lemma encoder_equals_format_witness:
  "length (encode aligned_le (frame_set_mask (1, 2, 3, 4) (frame_pong [5, 6])) [9]) = 9"
  using encoder_equals_format[OF le.splits, of "frame_set_mask (1, 2, 3, 4) (frame_pong [5, 6])" "[9]",
      where ?'r = unit and ?'x = unit]
  by (simp add: frame_len_def header_len_def length_for_length_def frame_set_mask_def header_set_mask_def
      frame_pong_def default_header_def)

text \<open>A server that does not accept unmasked frames refuses one, and has then taken exactly
  that frame off the buffer.\<close>

theorem unmasked_frame_refused:
  assumes "sendable f" "dec_header d = None" "dec_unmask d" "\<not> dec_accept_unmasked d"
    and "case dec_max_frame_size d of Some mx \<Rightarrow> length (payload f) \<le> unat mx | None \<Rightarrow> True"
    and "\<not> frame_is_masked f"
  shows "decode pl d (encode pl f [] @ rest) = (Err (Protocol UnmaskedFrameFromClient) :: (('r, 'x) error, _) res, d, rest)"
proof -
  have "frame_mask (header f) = None" using assms(6) by (simp only: frame_is_masked_def not_not)
  with assms(1-5) show ?thesis by (simp add: encode_eq decode_unmasked_rejected)
qed

lemma unmasked_frame_refused_witness:
  "decode aligned_le (set_unmask True default_decoder) (encode aligned_le (frame_ping [1]) [] @ [2, 3])
     = (Err (Protocol UnmaskedFrameFromClient) :: ((unit, unit) error, _) res, set_unmask True default_decoder, [2, 3])"
  by (rule unmasked_frame_refused)
    (simp_all add: sendable_def frame_ping_def default_header_def set_unmask_def default_decoder_def frame_is_masked_def)

end
