(* ===== verification/Frame_Codec.thy ===== *)
theory Frame_Codec
  imports Codec
begin

text \<open>
  \<open>FrameCodec\<close> of \<open>src/protocol/frame/codec.rs\<close>: the frame decoder over a transport's
  read side, and a write buffer in front of its write side. The transport and
  \<open>monoio_codec::FramedRead\<close> are not the crate's code; they are a parameter of the model,
  with their documented behaviour as two interfaces, and the in-memory transport of the
  crate's tests as the instance.
\<close>

section \<open>The transport\<close>

text \<open>
  \<open>FramedRead\<close>: an I/O object, a decoder and a read buffer; \<open>fr_aux\<close> stands for the
  rest of its private state.
\<close>

record ('s, 'd, 'q) framed =
  fr_io :: 's
  fr_decoder :: 'd
  fr_buffer :: bytes
  fr_aux :: 'q

text \<open>
  The operations the code calls: \<open>write_all\<close>, \<open>flush\<close> and \<open>shutdown\<close> of an I/O object,
  and \<open>FramedRead::next_with\<close>, which drives a decoder and returns the \<open>Option<Result>\<close>
  of a stream. \<open>framed_start\<close> is the private state of a new \<open>FramedRead\<close>.
\<close>

type_synonym ('d, 'e, 'f) decoding = "'d \<Rightarrow> bytes \<Rightarrow> ('e, 'f decoded) res \<times> 'd \<times> bytes"

record ('s, 'q, 'e) transport =
  io_write_all :: "bytes \<Rightarrow> 's \<Rightarrow> (io_error, unit) res \<times> 's"
  io_flush :: "'s \<Rightarrow> (io_error, unit) res \<times> 's"
  io_shutdown :: "'s \<Rightarrow> (io_error, unit) res \<times> 's"
  framed_next :: "(frame_decoder, 'e, frame) decoding \<Rightarrow> ('s, frame_decoder, 'q) framed
      \<Rightarrow> ('e, frame) res option \<times> ('s, frame_decoder, 'q) framed"
  framed_start :: 'q

definition framed_new :: "('s, 'q, 'e) transport \<Rightarrow> 's \<Rightarrow> 'd \<Rightarrow> ('s, 'd, 'q) framed" where
  "framed_new tr io d = \<lparr>fr_io = io, fr_decoder = d, fr_buffer = [], fr_aux = framed_start tr\<rparr>"

text \<open>\<open>map_decoder\<close> keeps the I/O object and the buffer.\<close>

definition framed_map_decoder :: "('c \<Rightarrow> 'd) \<Rightarrow> ('s, 'c, 'q) framed \<Rightarrow> ('s, 'd, 'q) framed" where
  "framed_map_decoder f fr = \<lparr>fr_io = fr_io fr, fr_decoder = f (fr_decoder fr),
     fr_buffer = fr_buffer fr, fr_aux = fr_aux fr\<rparr>"

section \<open>FrameCodec\<close>

record ('s, 'q) frame_codec =
  fc_inner :: "('s, frame_decoder, 'q) framed"
  fc_write_buf :: bytes
  fc_write_limit :: usize

definition codec_new :: "('s, 'q, 'e) transport \<Rightarrow> 's \<Rightarrow> usize \<Rightarrow> ('s, 'q) frame_codec" where
  "codec_new tr io limit = \<lparr>fc_inner = framed_new tr io default_decoder, fc_write_buf = [], fc_write_limit = limit\<rparr>"

definition codec_from_framed_read :: "('s, 'c, 'q) framed \<Rightarrow> usize \<Rightarrow> ('s, 'q) frame_codec" where
  "codec_from_framed_read fr limit = \<lparr>fc_inner = framed_map_decoder (\<lambda>_. default_decoder) fr,
     fc_write_buf = [], fc_write_limit = limit\<rparr>"

definition codec_set_write_limit :: "usize \<Rightarrow> ('s, 'q) frame_codec \<Rightarrow> ('s, 'q) frame_codec" where
  "codec_set_write_limit limit fc = fc\<lparr>fc_write_limit := limit\<rparr>"

definition codec_get_io :: "('s, 'q) frame_codec \<Rightarrow> 's" where
  "codec_get_io fc = fr_io (fc_inner fc)"

definition codec_set_io :: "'s \<Rightarrow> ('s, 'q) frame_codec \<Rightarrow> ('s, 'q) frame_codec" where
  "codec_set_io io fc = fc\<lparr>fc_inner := (fc_inner fc)\<lparr>fr_io := io\<rparr>\<rparr>"

definition codec_into_inner :: "('s, 'q) frame_codec \<Rightarrow> 's" where
  "codec_into_inner fc = fr_io (fc_inner fc)"

text \<open>\<open>write_limit\<close>, \<open>write_buffer\<close>, and a change of the buffer through \<open>write_buffer_mut\<close>.\<close>

definition codec_write_limit :: "('s, 'q) frame_codec \<Rightarrow> usize" where
  "codec_write_limit fc = fc_write_limit fc"

definition codec_write_buffer :: "('s, 'q) frame_codec \<Rightarrow> bytes" where
  "codec_write_buffer fc = fc_write_buf fc"

definition codec_update_write_buffer :: "(bytes \<Rightarrow> bytes) \<Rightarrow> ('s, 'q) frame_codec \<Rightarrow> ('s, 'q) frame_codec" where
  "codec_update_write_buffer f fc = fc\<lparr>fc_write_buf := f (fc_write_buf fc)\<rparr>"

text \<open>A change of the decoder through \<open>decoder_mut\<close>.\<close>

definition codec_update_decoder ::
  "(frame_decoder \<Rightarrow> frame_decoder) \<Rightarrow> ('s, 'q) frame_codec \<Rightarrow> ('s, 'q) frame_codec" where
  "codec_update_decoder f fc = fc\<lparr>fc_inner := (fc_inner fc)\<lparr>fr_decoder := f (fr_decoder (fc_inner fc))\<rparr>\<rparr>"

text \<open>
  The inherent \<open>flush\<close>: the buffer is taken out, written, put back whatever happened, and
  cleared when the write succeeded.
\<close>

definition codec_flush_io ::
  "('s, 'q, 'e) transport \<Rightarrow> ('s, 'q) frame_codec \<Rightarrow> (io_error, unit) res \<times> ('s, 'q) frame_codec" where
  "codec_flush_io tr fc =
     (if fc_write_buf fc = [] then (Ok (), fc)
      else
        let buf = fc_write_buf fc; (res, io) = io_write_all tr buf (codec_get_io fc);
            fc1 = codec_set_io io fc\<lparr>fc_write_buf := buf\<rparr>
        in bind_st (res, fc1) (\<lambda>_ fc2.
             let fc3 = fc2\<lparr>fc_write_buf := []\<rparr>; (res', io') = io_flush tr (codec_get_io fc3)
             in (res', codec_set_io io' fc3)))"

text \<open>\<open>?\<close> from \<open>io::Result\<close> into the crate's \<open>Result\<close>.\<close>

definition lift_io :: "(io_error, 'a) res \<times> 't \<Rightarrow> (('r, 'x) error, 'a) res \<times> 't" where
  "lift_io r = (case r of (Ok a, t) \<Rightarrow> (Ok a, t) | (Err e, t) \<Rightarrow> (Err (Io e), t) | (Panic, t) \<Rightarrow> (Panic, t))"

text \<open>
  \<open>send_with\<close> and \<open>next_with\<close>: the caller's codec, an argument that is changed. An \<open>Encoder\<close>
  appends to the buffer or fails with its own error type, into which the error of an I/O
  operation converts; \<open>FramedRead::next_with\<close> drives the \<open>Decoder\<close>.
\<close>

type_synonym ('c, 'i, 'e) encoder = "'c \<Rightarrow> 'i \<Rightarrow> bytes \<Rightarrow> ('e, unit) res \<times> 'c \<times> bytes"

definition question_io :: "(io_error \<Rightarrow> 'e) \<Rightarrow> (io_error, 'a) res \<Rightarrow> ('e, 'a) res" where
  "question_io from_io r = (case r of Ok a \<Rightarrow> Ok a | Err e \<Rightarrow> Err (from_io e) | Panic \<Rightarrow> Panic)"

definition codec_send_with ::
  "(io_error \<Rightarrow> 'e) \<Rightarrow> ('c, 'i, 'e) encoder \<Rightarrow> ('s, 'q, 'd) transport \<Rightarrow> 'c \<Rightarrow> 'i \<Rightarrow> ('s, 'q) frame_codec
     \<Rightarrow> ('e, unit) res \<times> 'c \<times> ('s, 'q) frame_codec" where
  "codec_send_with from_io enc tr c item fc =
     (let (r, fc1) = (if length (fc_write_buf fc) > unat (fc_write_limit fc)
            then (case codec_flush_io tr fc of (q, t) \<Rightarrow> (question_io from_io q, t)) else (Ok (), fc))
      in bind_st (r, (c, fc1)) (\<lambda>_ (c, fc2).
           case enc c item (fc_write_buf fc2) of (r', c', buf) \<Rightarrow>
             bind_st (r', (c', fc2\<lparr>fc_write_buf := buf\<rparr>)) (\<lambda>_ st. (Ok (), st))))"

definition codec_next_with ::
  "('c \<Rightarrow> ('s, frame_decoder, 'q) framed \<Rightarrow> ('e, 'i) res option \<times> 'c \<times> ('s, frame_decoder, 'q) framed)
     \<Rightarrow> 'c \<Rightarrow> ('s, 'q) frame_codec \<Rightarrow> ('e, 'i) res option \<times> 'c \<times> ('s, 'q) frame_codec" where
  "codec_next_with next_with c fc = (case next_with c (fc_inner fc) of (out, c', fr) \<Rightarrow> (out, c', fc\<lparr>fc_inner := fr\<rparr>))"

definition codec_send ::
  "platform \<Rightarrow> ('s, 'q, 'e) transport \<Rightarrow> frame \<Rightarrow> ('s, 'q) frame_codec
     \<Rightarrow> (('r, 'x) error, unit) res \<times> ('s, 'q) frame_codec" where
  "codec_send pl tr f fc =
     bind_st (if length (fc_write_buf fc) > unat (fc_write_limit fc)
              then lift_io (codec_flush_io tr fc) else (Ok (), fc))
       (\<lambda>_ fc1. (Ok (), fc1\<lparr>fc_write_buf := encode pl f (fc_write_buf fc1)\<rparr>))"

definition codec_flush ::
  "('s, 'q, 'e) transport \<Rightarrow> ('s, 'q) frame_codec \<Rightarrow> (('r, 'x) error, unit) res \<times> ('s, 'q) frame_codec" where
  "codec_flush tr fc = lift_io (codec_flush_io tr fc)"

definition codec_close ::
  "('s, 'q, 'e) transport \<Rightarrow> ('s, 'q) frame_codec \<Rightarrow> (('r, 'x) error, unit) res \<times> ('s, 'q) frame_codec" where
  "codec_close tr fc = bind_st (lift_io (codec_flush_io tr fc)) (\<lambda>_ fc1.
     let (res, io) = io_shutdown tr (codec_get_io fc1) in lift_io (res, codec_set_io io fc1))"

definition codec_next ::
  "platform \<Rightarrow> ('s, 'q, ('r, 'x) error) transport \<Rightarrow> ('s, 'q) frame_codec
     \<Rightarrow> (('r, 'x) error, frame) res option \<times> ('s, 'q) frame_codec" where
  "codec_next pl tr fc = (let (out, fr) = framed_next tr (decode pl) (fc_inner fc) in (out, fc\<lparr>fc_inner := fr\<rparr>))"

section \<open>The contract of the write side\<close>

text \<open>
  \<open>sent\<close> reads off an I/O object the bytes that have left through it. \<open>write_all\<close>
  appends its bytes, or a prefix of them when it fails; \<open>flush\<close>, \<open>shutdown\<close> and reading
  append nothing; none of them panics.
\<close>

locale byte_sink =
  fixes tr :: "('s, 'q, 'e) transport" and sent :: "'s \<Rightarrow> bytes"
  assumes write_ok: "io_write_all tr bs s = (Ok u, s') \<Longrightarrow> sent s' = sent s @ bs"
    and write_err: "io_write_all tr bs s = (Err e, s') \<Longrightarrow> \<exists>k. sent s' = sent s @ take k bs"
    and write_panic: "fst (io_write_all tr bs s) \<noteq> Panic"
    and flush_sent: "sent (snd (io_flush tr s)) = sent s" "fst (io_flush tr s) \<noteq> Panic"
    and shutdown_sent: "sent (snd (io_shutdown tr s)) = sent s" "fst (io_shutdown tr s) \<noteq> Panic"

text \<open>The bytes that have left through the transport or wait in the write buffer.\<close>

definition outgoing :: "('s \<Rightarrow> bytes) \<Rightarrow> ('s, 'q) frame_codec \<Rightarrow> bytes" where
  "outgoing sent fc = sent (codec_get_io fc) @ fc_write_buf fc"

lemma codec_io_simps [simp]:
  "codec_get_io (codec_set_io io fc) = io"
  "codec_get_io (fc\<lparr>fc_write_buf := b\<rparr>) = codec_get_io fc"
  "codec_get_io (fc\<lparr>fc_write_limit := n\<rparr>) = codec_get_io fc"
  "codec_get_io (codec_update_decoder f fc) = codec_get_io fc"
  "fc_write_buf (codec_set_io io fc) = fc_write_buf fc"
  "fc_write_buf (codec_update_decoder f fc) = fc_write_buf fc"
  "fc_write_limit (codec_set_io io fc) = fc_write_limit fc"
  "fr_decoder (fc_inner (codec_set_io io fc)) = fr_decoder (fc_inner fc)"
  "fr_buffer (fc_inner (codec_set_io io fc)) = fr_buffer (fc_inner fc)"
  "fr_aux (fc_inner (codec_set_io io fc)) = fr_aux (fc_inner fc)"
  by (simp_all add: codec_get_io_def codec_set_io_def codec_update_decoder_def)

text \<open>The read side of the codec is out of reach of its write side.\<close>

definition same_reader :: "('s, 'q) frame_codec \<Rightarrow> ('s, 'q) frame_codec \<Rightarrow> bool" where
  "same_reader fc fc' \<longleftrightarrow> fr_decoder (fc_inner fc') = fr_decoder (fc_inner fc)
     \<and> fr_buffer (fc_inner fc') = fr_buffer (fc_inner fc) \<and> fr_aux (fc_inner fc') = fr_aux (fc_inner fc)
     \<and> fc_write_limit fc' = fc_write_limit fc"

lemma same_reader_refl [simp]: "same_reader fc fc"
  by (simp add: same_reader_def)

lemma same_reader_trans: "same_reader a b \<Longrightarrow> same_reader b c \<Longrightarrow> same_reader a c"
  by (simp add: same_reader_def)

lemma same_reader_io [simp]:
  "same_reader fc (codec_set_io io fc') \<longleftrightarrow> same_reader fc fc'"
  "same_reader fc (fc'\<lparr>fc_write_buf := b\<rparr>) \<longleftrightarrow> same_reader fc fc'"
  by (auto simp: same_reader_def)

lemma lift_io_simps [simp]:
  "lift_io (Ok a, t) = (Ok a, t)" "lift_io (Err e, t) = (Err (Io e), t)" "lift_io (Panic, t) = (Panic, t)"
  by (simp_all add: lift_io_def)

text \<open>\<open>send_with\<close> is \<open>send\<close> when the codec is the crate's own encoder.\<close>

lemma codec_send_with_frame_encoder:
  "codec_send_with Io (\<lambda>u f dst. (Ok (), u, encode pl f dst)) tr u f fc
     = (case codec_send pl tr f fc of (r :: (('r, 'x) error, unit) res, fc') \<Rightarrow> (r, u, fc'))"
proof (cases "length (fc_write_buf fc) > unat (fc_write_limit fc)")
  case True
  obtain q t where "codec_flush_io tr fc = (q, t)" by (cases "codec_flush_io tr fc")
  then show ?thesis
    using True by (cases q) (simp_all add: codec_send_with_def codec_send_def question_io_def)
qed (simp add: codec_send_with_def codec_send_def)

lemma codec_flush_io_reader:
  "codec_flush_io tr fc = (r, fc') \<Longrightarrow> same_reader fc fc'"
  by (auto simp: codec_flush_io_def Let_def bind_st_def split: if_splits prod.splits res.splits)

context byte_sink
begin

lemma flush_io_ok:
  assumes "codec_flush_io tr fc = (r, fc')"
  shows "r \<noteq> Panic"
    and "r = Ok () \<Longrightarrow> fc_write_buf fc' = [] \<and> sent (codec_get_io fc') = outgoing sent fc"
    and "\<exists>k. sent (codec_get_io fc') = sent (codec_get_io fc) @ take k (fc_write_buf fc)"
proof -
  let ?buf = "fc_write_buf fc" and ?io = "codec_get_io fc"
  consider "?buf = []" | "?buf \<noteq> []" by blast
  then have all: "r \<noteq> Panic \<and> (r = Ok () \<longrightarrow> fc_write_buf fc' = [] \<and> sent (codec_get_io fc') = outgoing sent fc)
    \<and> (\<exists>k. sent (codec_get_io fc') = sent ?io @ take k ?buf)"
  proof cases
    case 1
    with assms show ?thesis by (auto simp: codec_flush_io_def outgoing_def)
  next
    case 2
    obtain w io1 where w: "io_write_all tr ?buf ?io = (w, io1)" by (cases "io_write_all tr ?buf ?io")
    show ?thesis
    proof (cases w)
      case (Ok u)
      have "\<exists>k. sent ?io @ ?buf = sent ?io @ take k ?buf" by (rule exI[of _ "length ?buf"]) simp
      then show ?thesis
        using assms 2 w Ok write_ok[of ?buf ?io u io1] flush_sent[of io1]
        by (cases "io_flush tr io1") (auto simp: codec_flush_io_def outgoing_def Let_def)
    next
      case (Err e)
      then show ?thesis
        using assms 2 w write_err[of ?buf ?io e io1] by (auto simp: codec_flush_io_def Let_def)
    next
      case Panic
      then show ?thesis using write_panic[of ?buf ?io] w by simp
    qed
  qed
  show "r \<noteq> Panic"
    and "r = Ok () \<Longrightarrow> fc_write_buf fc' = [] \<and> sent (codec_get_io fc') = outgoing sent fc"
    and "\<exists>k. sent (codec_get_io fc') = sent (codec_get_io fc) @ take k (fc_write_buf fc)"
    using all by auto
qed

lemma send_ok:
  assumes "(codec_send pl tr f fc :: (('r, 'x) error, unit) res \<times> _) = (r, fc')"
  shows "same_reader fc fc'" and "r \<noteq> Panic"
    and "r = Ok () \<Longrightarrow> outgoing sent fc' = outgoing sent fc @ frame_bytes pl f"
    and "r \<noteq> Ok () \<Longrightarrow> \<exists>e. r = Err (Io e)"
proof -
  have "same_reader fc fc' \<and> r \<noteq> Panic \<and> (r = Ok () \<longrightarrow> outgoing sent fc' = outgoing sent fc @ frame_bytes pl f)
    \<and> (r \<noteq> Ok () \<longrightarrow> (\<exists>e. r = Err (Io e)))"
  proof (cases "length (fc_write_buf fc) > unat (fc_write_limit fc)")
    case False
    then show ?thesis using assms by (auto simp: codec_send_def encode_eq outgoing_def)
  next
    case True
    obtain q fc1 where q: "codec_flush_io tr fc = (q, fc1)" by (cases "codec_flush_io tr fc")
    note fl = flush_io_ok(1,2)[OF q] and rd = codec_flush_io_reader[OF q]
    show ?thesis
    proof (cases q)
      case (Ok u)
      then have "sent (codec_get_io fc1) = outgoing sent fc" "fc_write_buf fc1 = []" using fl(2) by simp_all
      then show ?thesis
        using assms True Ok rd by (auto simp: codec_send_def q encode_eq outgoing_def[of sent fc'])
    next
      case (Err e)
      then show ?thesis using assms True rd by (auto simp: codec_send_def q)
    next
      case Panic
      then show ?thesis using fl(1) by simp
    qed
  qed
  then show "same_reader fc fc'" and "r \<noteq> Panic"
    and "r = Ok () \<Longrightarrow> outgoing sent fc' = outgoing sent fc @ frame_bytes pl f"
    and "r \<noteq> Ok () \<Longrightarrow> \<exists>e. r = Err (Io e)"
    by auto
qed

lemma flush_ok:
  assumes "(codec_flush tr fc :: (('r, 'x) error, unit) res \<times> _) = (r, fc')"
  shows "same_reader fc fc'" and "r \<noteq> Panic"
    and "r = Ok () \<Longrightarrow> fc_write_buf fc' = [] \<and> sent (codec_get_io fc') = outgoing sent fc"
    and "r \<noteq> Ok () \<Longrightarrow> \<exists>e. r = Err (Io e)"
proof -
  obtain q fc1 where q: "codec_flush_io tr fc = (q, fc1)" by (cases "codec_flush_io tr fc")
  show "same_reader fc fc'" and "r \<noteq> Panic"
    and "r = Ok () \<Longrightarrow> fc_write_buf fc' = [] \<and> sent (codec_get_io fc') = outgoing sent fc"
    and "r \<noteq> Ok () \<Longrightarrow> \<exists>e. r = Err (Io e)"
    using assms flush_io_ok[OF q] codec_flush_io_reader[OF q]
    by (auto simp: codec_flush_def q lift_io_def split: res.splits)
qed

lemma close_ok:
  assumes "(codec_close tr fc :: (('r, 'x) error, unit) res \<times> _) = (r, fc')"
  shows "same_reader fc fc'" and "r \<noteq> Panic"
    and "r = Ok () \<Longrightarrow> fc_write_buf fc' = [] \<and> sent (codec_get_io fc') = outgoing sent fc"
    and "r \<noteq> Ok () \<Longrightarrow> \<exists>e. r = Err (Io e)"
proof -
  obtain q fc1 where q: "codec_flush_io tr fc = (q, fc1)" by (cases "codec_flush_io tr fc")
  obtain w io where w: "io_shutdown tr (codec_get_io fc1) = (w, io)" by (cases "io_shutdown tr (codec_get_io fc1)")
  show "same_reader fc fc'" and "r \<noteq> Panic"
    and "r = Ok () \<Longrightarrow> fc_write_buf fc' = [] \<and> sent (codec_get_io fc') = outgoing sent fc"
    and "r \<noteq> Ok () \<Longrightarrow> \<exists>e. r = Err (Io e)"
    using assms flush_io_ok[OF q] codec_flush_io_reader[OF q] shutdown_sent[of "codec_get_io fc1"] w
    by (auto simp: codec_close_def q lift_io_def bind_st_def split: res.splits)
qed

end

section \<open>The contract of the read side\<close>

text \<open>
  What \<open>next\<close> may return, by the decoder, its state and the buffer: the frame or the error
  of a decoding of the buffer, perhaps after more bytes were read; the end of the stream; an
  I/O error. A stream that has ended or failed may report its end at once.
\<close>

inductive next_spec ::
  "('d, ('r, 'x) error, 'f) decoding \<Rightarrow> 'd \<Rightarrow> bytes \<Rightarrow> (('r, 'x) error, 'f) res option \<Rightarrow> 'd \<Rightarrow> bytes \<Rightarrow> bool"
  for dec where
  yield: "dec d b = (Ok (Decoded f), d', b') \<Longrightarrow> next_spec dec d b (Some (Ok f)) d' b'"
| fail: "dec d b = (Err e, d', b') \<Longrightarrow> next_spec dec d b (Some (Err e)) d' b'"
| panic: "dec d b = (Panic, d', b') \<Longrightarrow> next_spec dec d b (Some Panic) d' b'"
| more_data: "dec d b = (Ok r, d1, b1) \<Longrightarrow> (\<forall>f. r \<noteq> Decoded f) \<Longrightarrow> next_spec dec d1 (b1 @ chunk) res d' b'
    \<Longrightarrow> next_spec dec d b res d' b'"
| eof: "dec d b = (Ok r, d', b') \<Longrightarrow> (\<forall>f. r \<noteq> Decoded f) \<Longrightarrow> next_spec dec d b None d' b'"
| io_error: "dec d b = (Ok r, d', b') \<Longrightarrow> (\<forall>f. r \<noteq> Decoded f) \<Longrightarrow> next_spec dec d b (Some (Err (Io e))) d' b'"
| ended: "next_spec dec d b None d b"

locale frame_source = byte_sink tr sent
  for tr :: "('s, 'q, ('r, 'x) error) transport" and sent :: "'s \<Rightarrow> bytes" +
  assumes next_correct: "framed_next tr dec fr = (res, fr') \<Longrightarrow>
      next_spec dec (fr_decoder fr) (fr_buffer fr) res (fr_decoder fr') (fr_buffer fr')"
    and next_sent: "sent (fr_io (snd (framed_next tr dec fr))) = sent (fr_io fr)"

text \<open>An invariant of the decoder is one of the stream.\<close>

lemma next_spec_invariant:
  assumes "next_spec dec d b res d' b'" "I d"
    and step: "\<And>d b r d' b'. dec d b = (r, d', b') \<Longrightarrow> I d \<Longrightarrow> I d' \<and> r \<noteq> Panic \<and> (\<forall>f. r = Ok (Decoded f) \<longrightarrow> P f)"
  shows "I d' \<and> res \<noteq> Some Panic \<and> (\<forall>f. res = Some (Ok f) \<longrightarrow> P f)"
  using assms(1,2) by (induction rule: next_spec.induct) (auto dest: step)

text \<open>With a resumable decoder a frame or an error is that of one decoding.\<close>

lemma next_spec_decodes:
  assumes "next_spec dec d b res d' b'" "resumable_decoder dec weight"
  shows "res = Some (Ok f) \<Longrightarrow> \<exists>got. dec d (b @ got) = (Ok (Decoded f), d', b')"
    and "res = Some (Err e) \<Longrightarrow> (\<exists>got. dec d (b @ got) = (Err e, d', b')) \<or> (\<exists>k. e = Io k)"
  using assms(1)
proof (induction rule: next_spec.induct)
  case (yield d b f d' b')
  { case 1
    with yield show ?case by (intro exI[of _ "[]"]) simp
  next
    case 2
    then show ?case by simp }
next
  case (fail d b e d' b')
  { case 1
    then show ?case by simp
  next
    case 2
    with fail show ?case by (intro disjI1 exI[of _ "[]"]) simp }
next
  case (more_data d b r d1 b1 chunk res d' b')
  have again: "dec d (b @ chunk @ got) = dec d1 ((b1 @ chunk) @ got)" for got
    using resumable_decoder.resumes[OF assms(2) more_data.hyps(1,2), of "chunk @ got"] by simp
  { case 1
    with more_data.IH(1) again show ?case by metis
  next
    case 2
    with more_data.IH(2) again show ?case by metis }
qed auto

text \<open>The codec's stream, with the frame decoder.\<close>

lemma next_spec_decode:
  assumes "next_spec (decode pl) d b res d' b'" "sound_platform pl" "decoder_ok d"
  shows "decoder_ok d' \<and> dec_unmask d' = dec_unmask d \<and> dec_max_frame_size d' = dec_max_frame_size d
    \<and> dec_accept_unmasked d' = dec_accept_unmasked d \<and> res \<noteq> Some Panic \<and> (\<forall>f. res = Some (Ok f) \<longrightarrow> frame_ok d f)"
proof -
  let ?I = "\<lambda>e. decoder_ok e \<and> dec_unmask e = dec_unmask d \<and> dec_max_frame_size e = dec_max_frame_size d
    \<and> dec_accept_unmasked e = dec_accept_unmasked d"
  have "?I d' \<and> res \<noteq> Some Panic \<and> (\<forall>f. res = Some (Ok f) \<longrightarrow> frame_ok d f)"
  proof (rule next_spec_invariant[OF assms(1), where I = ?I])
    show "?I d" using assms(3) by simp
    fix e b r e' b'
    assume step: "decode pl e b = (r, e', b')" and inv: "?I e"
    have "frame_ok e f \<longleftrightarrow> frame_ok d f" for f using inv by (simp add: frame_ok_def header_ok_def)
    then show "?I e' \<and> r \<noteq> Panic \<and> (\<forall>f. r = Ok (Decoded f) \<longrightarrow> frame_ok d f)"
      using decode_ok[OF assms(2) _ step] inv step decode_not_panic by fastforce
  qed
  then show ?thesis by blast
qed

lemma codec_next_ok:
  fixes tr :: "('s, 'q, ('r, 'x) error) transport"
  assumes "frame_source tr sent" "sound_platform pl" "codec_next pl tr fc = (res, fc')"
    and d: "d = fr_decoder (fc_inner fc)" "decoder_ok d"
  shows "outgoing sent fc' = outgoing sent fc \<and> fc_write_limit fc' = fc_write_limit fc"
    and "res \<noteq> Some Panic"
    and "res = Some (Ok f) \<Longrightarrow> frame_ok d f"
    and "d' = fr_decoder (fc_inner fc') \<Longrightarrow> decoder_ok d' \<and> dec_unmask d' = dec_unmask d
      \<and> dec_max_frame_size d' = dec_max_frame_size d \<and> dec_accept_unmasked d' = dec_accept_unmasked d"
proof -
  obtain fr' where fr: "framed_next tr (decode pl) (fc_inner fc) = (res, fr')" "fc' = fc\<lparr>fc_inner := fr'\<rparr>"
    using assms(3) by (auto simp: codec_next_def Let_def split: prod.splits)
  note spec = next_spec_decode[OF frame_source.next_correct[OF assms(1) fr(1)] assms(2) d(2)[unfolded d(1)]]
  show "outgoing sent fc' = outgoing sent fc \<and> fc_write_limit fc' = fc_write_limit fc"
    using fr frame_source.next_sent[OF assms(1), of "decode pl" "fc_inner fc"]
    by (simp add: outgoing_def codec_get_io_def)
  show "res \<noteq> Some Panic" and "res = Some (Ok f) \<Longrightarrow> frame_ok d f"
    and "d' = fr_decoder (fc_inner fc') \<Longrightarrow> decoder_ok d' \<and> dec_unmask d' = dec_unmask d
      \<and> dec_max_frame_size d' = dec_max_frame_size d \<and> dec_accept_unmasked d' = dec_accept_unmasked d"
    using spec fr d by simp_all
qed

section \<open>The in-memory transport\<close>

text \<open>
  \<open>MockWrite\<close> of the tests in \<open>src/protocol/websocket.rs\<close>: reading takes the given bytes
  in the given pieces, writing accepts everything, flush and shutdown succeed. Here it also
  keeps what was written. At the end of the input left-over bytes are an I/O error, as in
  \<open>decode_eof\<close>.
\<close>

record mem_io =
  mem_in :: "bytes list"
  mem_out :: bytes

definition mem_eof_error :: io_error where
  "mem_eof_error = Io_Error (OtherKind 0) (ascii ''bytes remaining on stream'')"

fun mem_drive ::
  "('d, ('r, 'x) error, 'f) decoding \<Rightarrow> 'd \<Rightarrow> bytes \<Rightarrow> bytes list
     \<Rightarrow> (('r, 'x) error, 'f) res option \<times> 'd \<times> bytes \<times> bytes list" where
  "mem_drive dec d b cs = (case dec d b of
     (Ok (Decoded f), d', b') \<Rightarrow> (Some (Ok f), d', b', cs)
   | (Err e, d', b') \<Rightarrow> (Some (Err e), d', b', cs)
   | (Panic, d', b') \<Rightarrow> (Some Panic, d', b', cs)
   | (Ok _, d', b') \<Rightarrow>
       (case cs of
          [] \<Rightarrow> (if b' = [] then None else Some (Err (Io mem_eof_error)), d', b', [])
        | c # rest \<Rightarrow> mem_drive dec d' (b' @ c) rest))"

definition mem_next ::
  "('d, ('r, 'x) error, 'f) decoding \<Rightarrow> (mem_io, 'd, unit) framed
     \<Rightarrow> (('r, 'x) error, 'f) res option \<times> (mem_io, 'd, unit) framed" where
  "mem_next dec fr = (case mem_drive dec (fr_decoder fr) (fr_buffer fr) (mem_in (fr_io fr)) of
     (res, d, b, cs) \<Rightarrow> (res, fr\<lparr>fr_io := (fr_io fr)\<lparr>mem_in := cs\<rparr>, fr_decoder := d, fr_buffer := b\<rparr>))"

definition mem_transport :: "(mem_io, unit, ('r, 'x) error) transport" where
  "mem_transport = \<lparr>io_write_all = (\<lambda>bs s. (Ok (), s\<lparr>mem_out := mem_out s @ bs\<rparr>)),
     io_flush = (\<lambda>s. (Ok (), s)), io_shutdown = (\<lambda>s. (Ok (), s)),
     framed_next = mem_next, framed_start = ()\<rparr>"

declare mem_drive.simps [simp del]

lemma mem_drive_spec:
  "mem_drive dec d b cs = (res, d', b', cs') \<Longrightarrow> next_spec dec d b res d' b'"
proof (induction cs arbitrary: d b)
  case Nil
  then show ?case
    by (subst (asm) mem_drive.simps)
      (auto split: prod.splits res.splits decoded.splits if_splits intro: next_spec.intros)
next
  case (Cons c cs)
  obtain r d1 b1 where step: "dec d b = (r, d1, b1)" by (cases "dec d b") auto
  show ?case
  proof (cases "\<exists>y. r = Ok y \<and> (\<forall>f. y \<noteq> Decoded f)")
    case True
    then obtain y where y: "r = Ok y" "\<forall>f. y \<noteq> Decoded f" by blast
    then have "mem_drive dec d1 (b1 @ c) cs = (res, d', b', cs')"
      using Cons.prems step by (subst (asm) mem_drive.simps) (auto split: decoded.splits)
    then show ?thesis using Cons.IH step y next_spec.more_data by metis
  next
    case False
    then show ?thesis
      using Cons.prems step
      by (subst (asm) mem_drive.simps) (auto split: res.splits decoded.splits intro: next_spec.intros)
  qed
qed

interpretation mem: frame_source mem_transport mem_out
  by unfold_locales
    (auto simp: mem_transport_def mem_next_def dest: mem_drive_spec split: prod.splits)

end
