(* ===== verification/String_Collector.thy ===== *)
theory String_Collector
  imports Utf8_Text
begin

text \<open>
  Text that arrives in fragments: \<open>Incomplete\<close> of \<open>src/protocol/frame/utf8/decode.rs\<close>,
  which carries the bytes of a character cut by a fragment boundary, and
  \<open>StringCollector\<close> of \<open>src/protocol/message.rs\<close>, which uses it. The refinement
  proved here: whatever the fragmentation, the collector accepts exactly what the
  validator accepts of the concatenation, holds the same text, and never panics.
\<close>

section \<open>Incomplete\<close>

text \<open>\<open>buffer: [u8; 4]\<close> and \<open>buffer_len: u8\<close>.\<close>

record incomplete =
  inc_buffer :: bytes
  inc_buffer_len :: u8

definition incomplete_new :: incomplete where
  "incomplete_new = \<lparr>inc_buffer = [0, 0, 0, 0], inc_buffer_len = 0\<rparr>"

text \<open>\<open>from_bytes\<close>; more than four bytes are an index out of range.\<close>

definition incomplete_from_bytes :: "bytes \<Rightarrow> ('e, incomplete) res" where
  "incomplete_from_bytes bs =
     (if length bs > 4 then Panic
      else Ok \<lparr>inc_buffer = bs @ drop (length bs) [0, 0, 0, 0], inc_buffer_len = of_nat (length bs)\<rparr>)"

definition incomplete_len :: "incomplete \<Rightarrow> nat" where
  "incomplete_len s = unat (inc_buffer_len s)"

definition incomplete_is_empty :: "incomplete \<Rightarrow> bool" where
  "incomplete_is_empty s \<longleftrightarrow> inc_buffer_len s = 0"

definition take_buffer :: "incomplete \<Rightarrow> ('e, bytes) res \<times> incomplete" where
  "take_buffer s =
     (let len = unat (inc_buffer_len s); s' = s\<lparr>inc_buffer_len := 0\<rparr>
      in if len > length (inc_buffer s) then (Panic, s') else (Ok (take len (inc_buffer s)), s'))"

text \<open>
  \<open>try_complete_offsets\<close>: the bytes consumed from the input and \<open>Some True\<close> for
  \<open>Some(Ok(()))\<close>, \<open>Some False\<close> for \<open>Some(Err(()))\<close>. The slices and the two
  \<open>checked_sub().unwrap()\<close> are the panics.
\<close>

definition try_complete_offsets ::
  "simdutf8 \<Rightarrow> incomplete \<Rightarrow> bytes \<Rightarrow> ('e, nat \<times> bool option) res \<times> incomplete" where
  "try_complete_offsets sv s input =
     (let initial = unat (inc_buffer_len s) in
      if initial > length (inc_buffer s) then (Panic, s)
      else
        let copied = min (length input) (length (inc_buffer s) - initial);
            buffer = take initial (inc_buffer s) @ take copied input
                       @ drop (initial + copied) (inc_buffer s);
            s' = s\<lparr>inc_buffer := buffer\<rparr>;
            spliced = take (initial + copied) buffer
        in case compat_from_utf8 sv spliced of
             Utf8_Valid \<Rightarrow>
               (Ok (copied, Some True), s'\<lparr>inc_buffer_len := of_nat (length spliced)\<rparr>)
           | Utf8_Error valid el \<Rightarrow>
               if valid > 0 then
                 if valid < initial then (Panic, s')
                 else (Ok (valid - initial, Some True), s'\<lparr>inc_buffer_len := of_nat valid\<rparr>)
               else case el of
                 Some n \<Rightarrow>
                   if n < initial then (Panic, s')
                   else (Ok (n - initial, Some False), s'\<lparr>inc_buffer_len := of_nat n\<rparr>)
               | None \<Rightarrow>
                   (Ok (copied, None), s'\<lparr>inc_buffer_len := of_nat (length spliced)\<rparr>))"

text \<open>
  \<open>try_complete\<close>: \<open>None\<close> when the character is still incomplete; otherwise the
  completed text (\<open>Inr\<close>) or the invalid bytes (\<open>Inl\<close>), and the rest of the input.
\<close>

definition try_complete ::
  "simdutf8 \<Rightarrow> incomplete \<Rightarrow> bytes \<Rightarrow> ('e, ((bytes + bytes) \<times> bytes) option) res \<times> incomplete" where
  "try_complete sv s input =
     bind_st (try_complete_offsets sv s input) (\<lambda>(consumed, opt_result) s1.
       case opt_result of
         None \<Rightarrow> (Ok None, s1)
       | Some good \<Rightarrow>
           if consumed > length input then (Panic, s1)
           else bind_st (take_buffer s1) (\<lambda>result_bytes s2.
             (Ok (Some (if good then Inr result_bytes else Inl result_bytes, drop consumed input)), s2)))"

section \<open>StringCollector\<close>

record string_collector =
  sc_data :: bytes
  sc_incomplete :: incomplete

definition collector_new :: string_collector where
  "collector_new = \<lparr>sc_data = [], sc_incomplete = incomplete_new\<rparr>"

definition collector_len :: "string_collector \<Rightarrow> usize" where
  "collector_len c =
     saturating_add (len_usize (sc_data c)) (of_nat (incomplete_len (sc_incomplete c)))"

text \<open>The second half of \<open>extend\<close>: what is left of the input after the cut character.\<close>

definition collector_push ::
  "simdutf8 \<Rightarrow> string_collector \<Rightarrow> bytes \<Rightarrow> (('r, 'x) error, unit) res \<times> string_collector" where
  "collector_push sv c input =
     (if input = [] then (Ok (), c)
      else case compat_from_utf8 sv input of
        Utf8_Valid \<Rightarrow> (Ok (), c\<lparr>sc_data := sc_data c @ input\<rparr>)
      | Utf8_Error valid el \<Rightarrow>
          let after_valid = drop valid input;
              c' = c\<lparr>sc_data := sc_data c @ take valid input\<rparr>
          in case el of
               Some n \<Rightarrow> (Err (Utf8 (from_utf8_lossy (take n after_valid))), c')
             | None \<Rightarrow>
                 (case incomplete_from_bytes after_valid of
                    Ok i \<Rightarrow> (Ok (), c'\<lparr>sc_incomplete := i\<rparr>)
                  | Err e \<Rightarrow> (Err e, c')
                  | Panic \<Rightarrow> (Panic, c')))"

definition collector_extend ::
  "simdutf8 \<Rightarrow> string_collector \<Rightarrow> bytes \<Rightarrow> (('r, 'x) error, unit) res \<times> string_collector" where
  "collector_extend sv c input =
     (if incomplete_is_empty (sc_incomplete c) then collector_push sv c input
      else case try_complete sv (sc_incomplete c) input of
        (Ok (Some (Inr text, rest)), i) \<Rightarrow>
          collector_push sv (c\<lparr>sc_data := sc_data c @ text, sc_incomplete := i\<rparr>) rest
      | (Ok (Some (Inl bad, rest)), i) \<Rightarrow>
          (Err (Utf8 (from_utf8_lossy bad)), c\<lparr>sc_incomplete := i\<rparr>)
      | (Ok None, i) \<Rightarrow> (Ok (), c\<lparr>sc_incomplete := i\<rparr>)
      | (Err e, i) \<Rightarrow> (Err e, c\<lparr>sc_incomplete := i\<rparr>)
      | (Panic, i) \<Rightarrow> (Panic, c\<lparr>sc_incomplete := i\<rparr>))"

text \<open>\<open>format!("incomplete string: {:?}", self.incomplete)\<close>, the derived \<open>Debug\<close> text.\<close>

definition debug_incomplete :: "incomplete \<Rightarrow> string" where
  "debug_incomplete s =
     ''Incomplete { buffer: ['' @ concat (map (\<lambda>(i, b). (if i = 0 then '''' else '', '') @ show_nat (unat b))
                                    (enumerate 0 (inc_buffer s)))
     @ ''], buffer_len: '' @ show_nat (unat (inc_buffer_len s)) @ '' }''"

definition collector_into_string :: "string_collector \<Rightarrow> (('r, 'x) error, bytes) res" where
  "collector_into_string c =
     (if \<not> incomplete_is_empty (sc_incomplete c)
      then Err (Utf8 (ascii (''incomplete string: '' @ debug_incomplete (sc_incomplete c))))
      else Ok (sc_data c))"

section \<open>What a collector stands for\<close>

definition pending :: "incomplete \<Rightarrow> bytes" where
  "pending s = take (unat (inc_buffer_len s)) (inc_buffer s)"

definition incomplete_wf :: "incomplete \<Rightarrow> bool" where
  "incomplete_wf s \<longleftrightarrow> length (inc_buffer s) = 4 \<and> unat (inc_buffer_len s) < 4
     \<and> utf8_char (pending s) = Short"

definition collector_rep :: "string_collector \<Rightarrow> bytes \<Rightarrow> bool" where
  "collector_rep c input \<longleftrightarrow> input = sc_data c @ pending (sc_incomplete c)
     \<and> valid_utf8 (sc_data c) \<and> incomplete_wf (sc_incomplete c)"

lemma unat_of_nat_u8: "n < 256 \<Longrightarrow> unat (of_nat n :: u8) = n"
  by (simp add: unsigned_of_nat take_bit_nat_eq_self)

lemma unat_of_nat_usize: "n < 2 ^ 64 \<Longrightarrow> unat (of_nat n :: usize) = n"
  by (simp add: unsigned_of_nat take_bit_nat_eq_self)

lemma incomplete_wf_new [simp]: "incomplete_wf incomplete_new" "pending incomplete_new = []"
  by (simp_all add: incomplete_wf_def incomplete_new_def pending_def)

lemma collector_rep_new [simp]: "collector_rep collector_new []"
  by (simp add: collector_rep_def collector_new_def)

lemma pending_Nil: "incomplete_wf s \<Longrightarrow> incomplete_is_empty s \<longleftrightarrow> pending s = []"
  by (auto simp: incomplete_wf_def incomplete_is_empty_def pending_def unat_eq_zero)

lemma length_pending: "incomplete_wf s \<Longrightarrow> length (pending s) = unat (inc_buffer_len s)"
  by (simp add: incomplete_wf_def pending_def)

lemma collector_len_rep:
  assumes "collector_rep c input" "length input < 2 ^ 64"
  shows "unat (collector_len c) = length input"
proof -
  have len: "length input = length (sc_data c) + unat (inc_buffer_len (sc_incomplete c))"
    using assms(1) length_pending by (fastforce simp: collector_rep_def)
  then have "unat (of_nat (incomplete_len (sc_incomplete c)) :: usize) = incomplete_len (sc_incomplete c)"
    using assms(2) by (intro unat_of_nat_usize) (simp add: incomplete_len_def)
  with len assms(2) show ?thesis
    by (simp add: collector_len_def unat_saturating_add unat_len_usize) (simp add: incomplete_len_def)
qed

section \<open>Completing a cut character\<close>

text \<open>The incomplete buffer after a call that left \<open>k\<close> bytes of \<open>all\<close> in it.\<close>

definition filled :: "incomplete \<Rightarrow> bytes \<Rightarrow> nat \<Rightarrow> incomplete" where
  "filled s all k = s\<lparr>inc_buffer := take 4 all @ drop (length (take 4 all)) (inc_buffer s),
                      inc_buffer_len := of_nat k\<rparr>"

lemma filled_simps:
  assumes "length (inc_buffer s) = 4" "k \<le> 4" "k \<le> length all"
  shows "length (inc_buffer (filled s all k)) = 4"
    and "unat (inc_buffer_len (filled s all k)) = k"
    and "pending (filled s all k) = take k all"
  using assms by (auto simp: filled_def pending_def unat_of_nat_u8 min_def)

text \<open>The same buffer after \<open>take_buffer\<close>.\<close>

definition emptied :: "incomplete \<Rightarrow> bytes \<Rightarrow> nat \<Rightarrow> incomplete" where
  "emptied s all k = (filled s all k)\<lparr>inc_buffer_len := 0\<rparr>"

lemma take_buffer_filled:
  assumes "length (inc_buffer s) = 4" "k \<le> 4" "k \<le> length all"
  shows "take_buffer (filled s all k) = (Ok (take k all), emptied s all k)"
  using filled_simps[OF assms] assms(2)
  by (simp add: take_buffer_def Let_def emptied_def) (simp add: pending_def)

lemma emptied_wf:
  assumes "incomplete_wf s" "k \<le> 4" "k \<le> length all"
  shows "incomplete_wf (emptied s all k)" and "pending (emptied s all k) = []"
  using assms filled_simps(1)[of s k all] by (simp_all add: incomplete_wf_def emptied_def pending_def)

context utf8_validator
begin

lemma try_complete_offsets_eq:
  assumes wf: "incomplete_wf s" and all: "all = pending s @ input"
  shows "try_complete_offsets sv s input =
    (let sp = take 4 all; n0 = length (pending s) in
     case std_from_utf8 sp of
       Utf8_Valid \<Rightarrow> (Ok (length sp - n0, Some True), filled s all (length sp))
     | Utf8_Error v el \<Rightarrow>
         if v > 0 then
           if v < n0 then (Panic, s\<lparr>inc_buffer := inc_buffer (filled s all 0)\<rparr>)
           else (Ok (v - n0, Some True), filled s all v)
         else case el of
           Some n \<Rightarrow>
             if n < n0 then (Panic, s\<lparr>inc_buffer := inc_buffer (filled s all 0)\<rparr>)
             else (Ok (n - n0, Some False), filled s all n)
         | None \<Rightarrow> (Ok (length sp - n0, None), filled s all (length sp)))"
proof -
  let ?n0 = "length (pending s)" and ?copied = "min (length input) (length (inc_buffer s) - length (pending s))"
  have n0: "unat (inc_buffer_len s) = ?n0" "length (inc_buffer s) = 4" "?n0 < 4"
    using wf length_pending[OF wf] by (auto simp: incomplete_wf_def)
  have sp: "pending s @ take ?copied input = take 4 all"
    using n0 by (auto simp: all min_def)
  have len: "?n0 + ?copied = length (take 4 all)" "?copied = length (take 4 all) - ?n0"
    using n0 by (auto simp: all)
  have pb: "take ?n0 (inc_buffer s) = pending s"
    unfolding n0(1)[symmetric] by (simp add: pending_def)
  have buf: "take ?n0 (inc_buffer s) @ take ?copied input @ drop (?n0 + ?copied) (inc_buffer s)
      = take 4 all @ drop (length (take 4 all)) (inc_buffer s)"
    unfolding pb append_assoc[symmetric] sp len(1) ..
  have spliced: "take (length (take 4 all)) (take 4 all @ xs) = take 4 all" for xs
    by (rule take_append_ge) simp
  show ?thesis
    unfolding try_complete_offsets_def Let_def compat n0(1)
    unfolding buf unfolding len(1) spliced unfolding len(2)
    using n0(2,3) by (simp add: filled_def split: utf8_verdict.split option.split)
qed

text \<open>The three outcomes of \<open>try_complete\<close>, by the first character of all the bytes.\<close>

lemma try_complete_short:
  assumes "incomplete_wf s" "pending s \<noteq> []" "utf8_char (pending s @ input) = Short"
  obtains s' where "try_complete sv s input = (Ok None, s')"
    "incomplete_wf s'" "pending s' = pending s @ input"
proof
  let ?all = "pending s @ input" and ?s' = "filled s (pending s @ input) (length (pending s @ input))"
  have len: "length ?all < 4" using assms(3) by (rule utf8_char_bounds)
  have std: "std_from_utf8 ?all = Utf8_Error 0 None"
    using assms by (simp add: std_from_utf8_step)
  show "try_complete sv s input = (Ok None, ?s')"
    using len by (simp add: try_complete_def try_complete_offsets_eq[OF assms(1) refl] std Let_def)
  show "incomplete_wf ?s'" "pending ?s' = ?all"
    using assms len filled_simps[of s "length ?all" ?all] by (simp_all add: incomplete_wf_def)
qed

text \<open>\<open>try_complete\<close> once the offsets are known to be \<open>k\<close> bytes of \<open>all\<close>.\<close>

lemma try_complete_done:
  assumes wf: "incomplete_wf s" and k: "length (pending s) \<le> k" "k \<le> 4" "k \<le> length (pending s @ input)"
    and off: "(try_complete_offsets sv s input :: ('e, nat \<times> bool option) res \<times> incomplete) =
      (Ok (k - length (pending s), Some good), filled s (pending s @ input) k)"
  shows "(try_complete sv s input :: ('e, ((bytes + bytes) \<times> bytes) option) res \<times> incomplete) =
      (Ok (Some (if good then Inr (take k (pending s @ input)) else Inl (take k (pending s @ input)),
                 drop (k - length (pending s)) input)), emptied s (pending s @ input) k)"
proof -
  have len: "length (inc_buffer s) = 4" using wf by (simp add: incomplete_wf_def)
  have "k - length (pending s) \<le> length input" using k by simp
  then show ?thesis
    unfolding try_complete_def off
    by (simp add: take_buffer_filled[OF len k(2,3)] del: take_append drop_append)
qed

lemma try_complete_broken:
  assumes wf: "incomplete_wf s" and ne: "pending s \<noteq> []"
    and broken: "utf8_char (pending s @ input) = Broken k"
  obtains s' where "try_complete sv s input =
      (Ok (Some (Inl (take k (pending s @ input)), drop (k - length (pending s)) input)), s')"
    "incomplete_wf s'" "pending s' = []"
proof -
  let ?all = "pending s @ input"
  have short: "utf8_char (pending s) = Short" using wf by (simp add: incomplete_wf_def)
  have k: "length (pending s) \<le> k" "k \<le> length ?all" "k \<le> 4"
    using short_grows(2)[OF short broken] utf8_char_bounds(2)[OF broken] by auto
  have "std_from_utf8 (take 4 ?all) = Utf8_Error 0 (Some k)"
    using ne broken std_from_utf8_step[of "take 4 ?all"] utf8_char_take4[of ?all] by simp
  then have off: "try_complete_offsets sv s input = (Ok (k - length (pending s), Some False), filled s ?all k)"
    using k by (simp add: try_complete_offsets_eq[OF wf refl] Let_def)
  show thesis
    using that[OF _ emptied_wf[OF wf k(3,2)]] try_complete_done[OF wf k(1,3,2) off] by (simp del: take_append)
qed

lemma try_complete_whole:
  assumes wf: "incomplete_wf s" and ne: "pending s \<noteq> []"
    and whole: "utf8_char (pending s @ input) = Whole n"
  obtains m s' where "try_complete sv s input =
      (Ok (Some (Inr (take m (pending s @ input)), drop (m - length (pending s)) input)), s')"
    "incomplete_wf s'" "pending s' = []"
    "length (pending s) \<le> m" "valid_utf8 (take m (pending s @ input))"
proof -
  define all where "all = pending s @ input"
  define m where "m = (case std_from_utf8 (take 4 all) of
    Utf8_Valid \<Rightarrow> length (take 4 all) | Utf8_Error v e \<Rightarrow> v)"
  have short: "utf8_char (pending s) = Short" using wf by (simp add: incomplete_wf_def)
  have n: "length (pending s) < n" "n \<le> length (take 4 all)"
    using short_grows(1)[OF short whole] utf8_char_bounds(1)[OF whole] by (auto simp: all_def)
  have "std_from_utf8 (take 4 all) = shift_verdict n (std_from_utf8 (drop n (take 4 all)))"
    using n ne whole std_from_utf8_step[of "take 4 all"] utf8_char_take4[of all] by (auto simp: all_def)
  then have m: "n \<le> m \<and> m \<le> length (take 4 all) \<and> valid_utf8 (take m (take 4 all))"
    using n std_from_utf8_error[of "take 4 all"]
    by (cases "std_from_utf8 (take 4 all)"; cases "std_from_utf8 (drop n (take 4 all))")
      (auto simp: m_def simp del: length_take take_take)
  then have le: "m \<le> 4" "m \<le> length all" by auto
  with m n have ms: "length (pending s) \<le> m" "m \<le> 4" "m \<le> length all" "0 < m" "valid_utf8 (take m all)"
    by (auto simp: min_absorb1)
  then have off: "try_complete_offsets sv s input = (Ok (m - length (pending s), Some True), filled s all m)"
    unfolding try_complete_offsets_eq[OF wf all_def] Let_def
    by (cases "std_from_utf8 (take 4 all)") (simp_all add: m_def del: length_take)
  show thesis
    using that[folded all_def, OF _ emptied_wf[OF wf ms(2,3)] ms(1,5)]
      try_complete_done[OF wf ms(1,2) ms(3)[unfolded all_def] off[unfolded all_def], folded all_def]
    by simp
qed

end

section \<open>Extending refines concatenation\<close>

text \<open>
  What \<open>extend\<close> should do when the bytes received so far become \<open>all\<close>: fail exactly if
  they hold an invalid sequence, and otherwise stand for \<open>all\<close>.
\<close>

definition extend_agrees ::
  "(('r, 'x) error, unit) res \<times> string_collector \<Rightarrow> bytes \<Rightarrow> bool" where
  "extend_agrees r all = (case std_from_utf8 all of
     Utf8_Error v (Some k) \<Rightarrow> fst r = Err (Utf8 (from_utf8_lossy (take k (drop v all))))
   | _ \<Rightarrow> fst r = Ok () \<and> collector_rep (snd r) all)"

definition cut_incomplete :: "bytes \<Rightarrow> incomplete" where
  "cut_incomplete p = \<lparr>inc_buffer = p @ drop (length p) [0, 0, 0, 0], inc_buffer_len = of_nat (length p)\<rparr>"

lemma incomplete_from_bytes_short:
  assumes "utf8_char p = Short"
  shows "incomplete_from_bytes p = Ok (cut_incomplete p)"
    and "incomplete_wf (cut_incomplete p)" and "pending (cut_incomplete p) = p"
proof -
  have len: "length p < 4" using assms by (rule utf8_char_bounds)
  then show "incomplete_from_bytes p = Ok (cut_incomplete p)"
    by (simp add: incomplete_from_bytes_def cut_incomplete_def)
  show "pending (cut_incomplete p) = p"
    using len by (simp add: pending_def cut_incomplete_def unat_of_nat_u8)
  with len assms show "incomplete_wf (cut_incomplete p)"
    by (simp add: incomplete_wf_def unat_of_nat_u8) (simp add: cut_incomplete_def unat_of_nat_u8)
qed

context utf8_validator
begin

lemma collector_push_agrees:
  assumes data: "valid_utf8 (sc_data c)"
    and empty: "pending (sc_incomplete c) = []" "incomplete_wf (sc_incomplete c)"
  shows "extend_agrees (collector_push sv c input) (sc_data c @ input)"
proof (cases "input = []")
  case True
  then show ?thesis
    using assms by (simp add: collector_push_def extend_agrees_def collector_rep_def)
next
  case ne: False
  show ?thesis
  proof (cases "std_from_utf8 input")
    case Utf8_Valid
    then show ?thesis
      using assms ne by (simp add: collector_push_def extend_agrees_def collector_rep_def compat std_from_utf8_append)
  next
    case (Utf8_Error v e)
    have v: "valid_utf8 (take v input)" "e = char_error (utf8_char (drop v input))"
      and nw: "\<forall>n. utf8_char (drop v input) \<noteq> Whole n"
      using std_from_utf8_error[OF Utf8_Error] by simp_all
    show ?thesis
    proof (cases "utf8_char (drop v input)")
      case (Broken n)
      then show ?thesis
        using ne v(2) Utf8_Error
        by (simp add: collector_push_def extend_agrees_def compat std_from_utf8_append[OF data] Let_def)
    next
      case Short
      have "valid_utf8 (sc_data c @ take v input)"
        using data v(1) by (simp add: valid_utf8_append)
      then show ?thesis
        using ne v(2) Utf8_Error Short incomplete_from_bytes_short(2,3)[OF Short]
        by (simp add: collector_push_def extend_agrees_def compat std_from_utf8_append[OF data]
            collector_rep_def incomplete_from_bytes_short(1)[OF Short] Let_def)
    qed (use nw in simp)
  qed
qed

text \<open>What \<open>extend\<close> comes down to: one \<open>push\<close>, of the input or of what a completed character
  leaves of it; a character that is still short; or one that the input breaks.\<close>

lemma collector_extend_cases:
  assumes rep: "collector_rep c received"
  obtains (push) c' rest where
      "(collector_extend sv c input :: (('r, 'x) error, unit) res \<times> _) = collector_push sv c' rest"
      "valid_utf8 (sc_data c')" "pending (sc_incomplete c') = []" "incomplete_wf (sc_incomplete c')"
      "received @ input = sc_data c' @ rest"
  | (short) i where
      "(collector_extend sv c input :: (('r, 'x) error, unit) res \<times> _) = (Ok (), c\<lparr>sc_incomplete := i\<rparr>)"
      "incomplete_wf i" "pending i \<noteq> []" "utf8_char (pending i) = Short" "received @ input = sc_data c @ pending i"
  | (broken) k i rest where
      "(collector_extend sv c input :: (('r, 'x) error, unit) res \<times> _)
        = (Err (Utf8 (from_utf8_lossy (take k rest))), c\<lparr>sc_incomplete := i\<rparr>)"
      "incomplete_wf i" "pending i = []" "rest \<noteq> []" "utf8_char rest = Broken k" "received @ input = sc_data c @ rest"
proof -
  let ?i = "sc_incomplete c" and ?all = "pending (sc_incomplete c) @ input"
  have rec: "received = sc_data c @ pending ?i" and data: "valid_utf8 (sc_data c)" and wf: "incomplete_wf ?i"
    using rep by (auto simp: collector_rep_def)
  note defs = collector_extend_def rec pending_Nil[OF wf]
  show ?thesis
  proof (cases "pending ?i = []")
    case True
    then show ?thesis using data wf by (intro push[of c input]) (simp_all add: defs)
  next
    case ne: False
    show ?thesis
    proof (cases "utf8_char ?all")
      case (Whole n)
      from try_complete_whole[OF wf ne Whole] obtain m i'
        where tc: "(try_complete sv ?i input :: (('r, 'x) error, _) res \<times> _)
            = (Ok (Some (Inr (take m ?all), drop (m - length (pending ?i)) input)), i')"
          and i': "incomplete_wf i'" "pending i' = []"
          and m: "length (pending ?i) \<le> m" "valid_utf8 (take m ?all)" by metis
      show ?thesis
        using ne i' m data
        by (intro push[of "c\<lparr>sc_data := sc_data c @ take m ?all, sc_incomplete := i'\<rparr>" "drop (m - length (pending ?i)) input"])
          (simp add: defs tc del: take_append, simp_all add: rec valid_utf8_append)
    next
      case (Broken k)
      from try_complete_broken[OF wf ne Broken] obtain i'
        where tc: "(try_complete sv ?i input :: (('r, 'x) error, _) res \<times> _)
            = (Ok (Some (Inl (take k ?all), drop (k - length (pending ?i)) input)), i')" "incomplete_wf i'" "pending i' = []"
        by metis
      show ?thesis using ne tc Broken by (intro broken[of k ?all i']) (simp_all add: defs del: take_append)
    next
      case Short
      from try_complete_short[OF wf ne Short] obtain i'
        where "(try_complete sv ?i input :: (('r, 'x) error, _) res \<times> _) = (Ok None, i')" "incomplete_wf i'" "pending i' = ?all"
        by metis
      then show ?thesis using ne Short by (intro short[of i']) (simp_all add: defs)
    qed
  qed
qed

lemma collector_extend_agrees:
  assumes "collector_rep c received"
  shows "extend_agrees (collector_extend sv c input :: (('r, 'x) error, unit) res \<times> string_collector)
           (received @ input)"
proof -
  have data: "valid_utf8 (sc_data c)" using assms by (simp add: collector_rep_def)
  from assms show ?thesis
  proof (cases rule: collector_extend_cases[where input = input and ?'r = 'r and ?'x = 'x])
    case (push c' rest)
    then show ?thesis using collector_push_agrees[of c' rest] by simp
  next
    case (short i)
    then show ?thesis
      using std_from_utf8_by_char(2)[OF data short(3,4)] data by (simp add: extend_agrees_def collector_rep_def)
  next
    case (broken k i rest)
    then show ?thesis using std_from_utf8_by_char(1)[OF data broken(4,5)] by (simp add: extend_agrees_def)
  qed
qed

text \<open>Whatever the outcome, the collector still stands for some bytes, and no more of them.\<close>

lemma collector_push_rep:
  assumes "valid_utf8 (sc_data c)" "pending (sc_incomplete c) = []" "incomplete_wf (sc_incomplete c)"
  shows "\<exists>kept. collector_rep (snd (collector_push sv c input :: (('r, 'x) error, unit) res \<times> _)) kept
    \<and> length kept \<le> length (sc_data c) + length input"
proof (cases "\<exists>v k. std_from_utf8 input = Utf8_Error v (Some k)")
  case True
  then obtain v k where vk: "std_from_utf8 input = Utf8_Error v (Some k)" by blast
  then have "valid_utf8 (sc_data c @ take v input)" "input \<noteq> []"
    using std_from_utf8_error[OF vk] assms(1) by (auto simp: valid_utf8_append)
  then show ?thesis
    using vk assms(2,3)
    by (intro exI[of _ "sc_data c @ take v input"])
      (simp add: collector_push_def compat collector_rep_def Let_def)
next
  case False
  have "extend_agrees (collector_push sv c input :: (('r, 'x) error, unit) res \<times> _) (sc_data c @ input)"
    using assms by (rule collector_push_agrees)
  moreover have "\<not> (\<exists>v k. std_from_utf8 (sc_data c @ input) = Utf8_Error v (Some k))"
    using False std_from_utf8_append[OF assms(1), of input] by (cases "std_from_utf8 input") auto
  ultimately show ?thesis
    by (intro exI[of _ "sc_data c @ input"])
      (auto simp: extend_agrees_def split: utf8_verdict.splits option.splits)
qed

lemma collector_extend_rep:
  assumes "collector_rep c received"
  shows "\<exists>kept. collector_rep (snd (collector_extend sv c input :: (('r, 'x) error, unit) res \<times> _)) kept
    \<and> length kept \<le> length (received @ input)"
  using assms
proof (cases rule: collector_extend_cases[where input = input and ?'r = 'r and ?'x = 'x])
  case (push c' rest)
  then show ?thesis using collector_push_rep[of c' rest, where ?'r = 'r and ?'x = 'x] by simp
next
  case (short i)
  then show ?thesis
    using assms by (intro exI[of _ "received @ input"]) (simp add: collector_rep_def)
next
  case (broken k i rest)
  then show ?thesis
    using assms by (intro exI[of _ "sc_data c"]) (simp add: collector_rep_def)
qed

end

section \<open>A whole message\<close>

text \<open>
  A message of several fragments: \<open>extend\<close> for each, stopping at the first error, then
  \<open>into_string\<close>.
\<close>

fun collect_fragments ::
  "simdutf8 \<Rightarrow> string_collector \<Rightarrow> bytes list \<Rightarrow> (('r, 'x) error, unit) res \<times> string_collector" where
  "collect_fragments sv c [] = (Ok (), c)"
| "collect_fragments sv c (t # ts) =
     bind_st (collector_extend sv c t) (\<lambda>_ c'. collect_fragments sv c' ts)"

definition collect_text :: "simdutf8 \<Rightarrow> bytes list \<Rightarrow> (('r, 'x) error, bytes) res" where
  "collect_text sv ts = (case collect_fragments sv collector_new ts of
     (Ok u, c) \<Rightarrow> collector_into_string c
   | (Err e, c) \<Rightarrow> Err e
   | (Panic, c) \<Rightarrow> Panic)"

lemma invalid_stays_invalid:
  assumes "std_from_utf8 a = Utf8_Error v (Some k)"
  shows "std_from_utf8 (a @ b) = Utf8_Error v (Some k)"
proof -
  note e = std_from_utf8_error[OF assms]
  then have "utf8_char (drop v a) = Broken k" by (metis char_error_Some)
  then have "utf8_char (drop v a @ b) = Broken k" by (simp add: utf8_char_append)
  then have "std_from_utf8 (take v a @ drop v a @ b) = Utf8_Error (length (take v a)) (Some k)"
    using e by (intro std_from_utf8_by_char) auto
  moreover have "take v a @ drop v a @ b = a @ b" "length (take v a) = v"
    using e by (simp_all flip: append_assoc)
  ultimately show ?thesis by simp
qed

lemma into_string_rep:
  assumes "collector_rep c all"
  shows "collector_into_string c = (if valid_utf8 all then Ok all else
    Err (Utf8 (ascii (''incomplete string: '' @ debug_incomplete (sc_incomplete c)))))"
proof -
  let ?p = "pending (sc_incomplete c)"
  have all: "all = sc_data c @ ?p" "valid_utf8 (sc_data c)" "incomplete_wf (sc_incomplete c)"
    using assms by (auto simp: collector_rep_def)
  have "valid_utf8 all \<longleftrightarrow> ?p = []"
    using all std_from_utf8_by_char(2)[OF all(2), of ?p] by (cases "?p = []") (simp_all add: incomplete_wf_def)
  then show ?thesis
    using all pending_Nil[of "sc_incomplete c"] by (auto simp: collector_into_string_def)
qed

context utf8_validator
begin

lemma collect_fragments_agrees:
  assumes "collector_rep c received"
  shows "extend_agrees (collect_fragments sv c ts :: (('r, 'x) error, unit) res \<times> string_collector)
           (received @ concat ts)
    \<or> (\<exists>e. fst (collect_fragments sv c ts :: (('r, 'x) error, unit) res \<times> string_collector) = Err (Utf8 e)
         \<and> \<not> valid_utf8 (received @ concat ts))"
  using assms
proof (induction ts arbitrary: c received)
  case Nil
  have "extend_agrees (Ok (), c) received"
  proof (cases "valid_utf8 received")
    case False
    have p: "received = sc_data c @ pending (sc_incomplete c)" "valid_utf8 (sc_data c)"
      "utf8_char (pending (sc_incomplete c)) = Short"
      using Nil by (auto simp: collector_rep_def incomplete_wf_def)
    with False have "pending (sc_incomplete c) \<noteq> []" by auto
    with p Nil show ?thesis by (simp add: extend_agrees_def std_from_utf8_by_char)
  qed (simp add: extend_agrees_def Nil)
  then show ?case by simp
next
  case (Cons t ts)
  note agrees = collector_extend_agrees[OF Cons.prems, of t, where ?'r = 'r and ?'x = 'x]
  show ?case
  proof (cases "collector_extend sv c t :: (('r, 'x) error, unit) res \<times> string_collector")
    case (Pair r c')
    show ?thesis
    proof (cases "\<exists>v k. std_from_utf8 (received @ t) = Utf8_Error v (Some k)")
      case True
      then obtain v k where vk: "std_from_utf8 (received @ t) = Utf8_Error v (Some k)" by blast
      then have "\<not> valid_utf8 (received @ t @ concat ts)"
        using invalid_stays_invalid[OF vk, of "concat ts"] by simp
      with agrees vk Pair show ?thesis by (auto simp: extend_agrees_def)
    next
      case False
      then have "r = Ok ()" "collector_rep c' (received @ t)"
        using agrees Pair by (auto simp: extend_agrees_def split: utf8_verdict.splits option.splits)
      with Cons.IH[of c' "received @ t"] Pair show ?thesis by simp
    qed
  qed
qed

lemma collect_text_result:
  "\<exists>e. (collect_text sv ts :: (('r, 'x) error, bytes) res) =
     (if valid_utf8 (concat ts) then Ok (concat ts) else Err (Utf8 e))"
proof (cases "collect_fragments sv collector_new ts :: (('r, 'x) error, unit) res \<times> string_collector")
  case (Pair r c)
  then have "r = Ok () \<and> collector_rep c (concat ts) \<or> (\<exists>e. r = Err (Utf8 e)) \<and> \<not> valid_utf8 (concat ts)"
    using collect_fragments_agrees[OF collector_rep_new, of ts, where ?'r = 'r and ?'x = 'x]
    by (auto simp: extend_agrees_def split: utf8_verdict.splits option.splits)
  then show ?thesis
    using Pair into_string_rep[of c "concat ts"] by (auto simp: collect_text_def)
qed

end

section \<open>Properties\<close>

text \<open>C34. A text message is accepted exactly if its whole payload is valid UTF-8, whatever
  the fragmentation: for every split into fragments, also inside a character, the collector
  returns the concatenation if the standard library's validator accepts it, an error
  otherwise, and never panics.\<close>

theorem text_independent_of_fragmentation:
  fixes ts :: "bytes list"
  assumes "utf8_validator sv"
  shows "(\<forall>s. collect_text sv ts = (Ok s :: (('r, 'x) error, bytes) res)
           \<longleftrightarrow> valid_utf8 (concat ts) \<and> s = concat ts)
       \<and> collect_text sv ts \<noteq> (Panic :: (('r, 'x) error, bytes) res)"
  using utf8_validator.collect_text_result[OF assms, of ts, where ?'r = 'r and ?'x = 'x]
  by (auto split: if_splits)

text \<open>The euro sign E2 82 AC cut after its first and its second byte.\<close>

lemma text_independent_of_fragmentation_witness:
  "collect_text std_simdutf8 [[0x41, 0xE2], [0x82], [0xAC]]
     = (Ok [0x41, 0xE2, 0x82, 0xAC] :: ((unit, unit) error, bytes) res)"
  using text_independent_of_fragmentation[OF std_utf8.utf8_validator_axioms,
      of "[[0x41, 0xE2], [0x82], [0xAC]]", where ?'r = unit and ?'x = unit]
  by (simp add: std_from_utf8_step utf8_char_width_def second_of_3_def is_cont_def)

end
