(* ===== verification/Message.thy ===== *)
theory Message
  imports String_Collector Frame
begin

text \<open>
  Messages, \<open>src/protocol/message.rs\<close>: \<open>Message\<close> with its accessors, and
  \<open>IncompleteMessage\<close>, which puts a message together from its fragments under a size
  limit. The string collector it uses is in the theory of that name.
\<close>

section \<open>Message\<close>

datatype message =
    MText utf8_bytes
  | MBinary bytes
  | MPing bytes
  | MPong bytes
  | MClose "close_frame option"
  | MFrame frame

text \<open>\<open>Message::text\<close> and \<open>Message::binary\<close>.\<close>

definition message_text :: "bytes \<Rightarrow> message" where
  "message_text s = MText (utf8_of_string s)"

definition message_binary :: "bytes \<Rightarrow> message" where
  "message_binary b = MBinary b"

fun message_is_text :: "message \<Rightarrow> bool" where
  "message_is_text (MText t) = True"
| "message_is_text m = False"

fun message_is_binary :: "message \<Rightarrow> bool" where
  "message_is_binary (MBinary b) = True"
| "message_is_binary m = False"

fun message_is_ping :: "message \<Rightarrow> bool" where
  "message_is_ping (MPing b) = True"
| "message_is_ping m = False"

fun message_is_pong :: "message \<Rightarrow> bool" where
  "message_is_pong (MPong b) = True"
| "message_is_pong m = False"

fun message_is_close :: "message \<Rightarrow> bool" where
  "message_is_close (MClose c) = True"
| "message_is_close m = False"

fun message_len :: "message \<Rightarrow> nat" where
  "message_len (MText t) = length (utf8_raw t)"
| "message_len (MBinary data) = length data"
| "message_len (MPing data) = length data"
| "message_len (MPong data) = length data"
| "message_len (MClose c) = (case c of Some d \<Rightarrow> length (utf8_raw (close_reason d)) | None \<Rightarrow> 0)"
| "message_len (MFrame f) = frame_len f"

definition message_is_empty :: "message \<Rightarrow> bool" where
  "message_is_empty m \<longleftrightarrow> message_len m = 0"

fun message_into_data :: "message \<Rightarrow> bytes" where
  "message_into_data (MText t) = utf8_raw t"
| "message_into_data (MBinary data) = data"
| "message_into_data (MPing data) = data"
| "message_into_data (MPong data) = data"
| "message_into_data (MClose None) = []"
| "message_into_data (MClose (Some c)) = utf8_raw (close_reason c)"
| "message_into_data (MFrame f) = frame_into_payload f"

fun message_into_text :: "simdutf8 \<Rightarrow> message \<Rightarrow> (('r, 'x) error, utf8_bytes) res" where
  "message_into_text sv (MText t) = Ok t"
| "message_into_text sv (MBinary data) = utf8_question sv (utf8_try_from sv data)"
| "message_into_text sv (MPing data) = utf8_question sv (utf8_try_from sv data)"
| "message_into_text sv (MPong data) = utf8_question sv (utf8_try_from sv data)"
| "message_into_text sv (MClose None) = Ok (Utf8Bytes [])"
| "message_into_text sv (MClose (Some c)) = Ok (close_reason c)"
| "message_into_text sv (MFrame f) = utf8_question sv (frame_into_text sv f)"

text \<open>\<open>simdutf8::basic::from_utf8\<close> on a slice, with its unit error.\<close>

definition basic_from_utf8 :: "simdutf8 \<Rightarrow> bytes \<Rightarrow> (unit, bytes) res" where
  "basic_from_utf8 sv data = (if basic_ok sv data then Ok data else Err ())"

fun message_to_text :: "simdutf8 \<Rightarrow> message \<Rightarrow> (('r, 'x) error, bytes) res" where
  "message_to_text sv (MText t) = Ok (utf8_as_str t)"
| "message_to_text sv (MBinary data) = utf8_question sv (basic_from_utf8 sv data)"
| "message_to_text sv (MPing data) = utf8_question sv (basic_from_utf8 sv data)"
| "message_to_text sv (MPong data) = utf8_question sv (basic_from_utf8 sv data)"
| "message_to_text sv (MClose None) = Ok []"
| "message_to_text sv (MClose (Some c)) = Ok (utf8_as_str (close_reason c))"
| "message_to_text sv (MFrame f) = utf8_question sv (frame_to_text sv f)"

text \<open>\<open>impl fmt::Display\<close>.\<close>

definition show_message :: "simdutf8 \<Rightarrow> message \<Rightarrow> bytes" where
  "show_message sv m = (case message_to_text sv m :: ((unit, unit) error, bytes) res of
     Ok s \<Rightarrow> s
   | _ \<Rightarrow> ascii (''Binary Data<length='' @ show_nat (message_len m) @ ''>''))"

text \<open>The \<open>From\<close> conversions.\<close>

definition message_of_string :: "bytes \<Rightarrow> message" where
  "message_of_string string = message_text string"

definition message_of_str :: "bytes \<Rightarrow> message" where
  "message_of_str string = message_text string"

definition message_of_slice :: "bytes \<Rightarrow> message" where
  "message_of_slice data = message_binary data"

definition message_of_bytes :: "bytes \<Rightarrow> message" where
  "message_of_bytes data = message_binary data"

definition message_of_vec :: "bytes \<Rightarrow> message" where
  "message_of_vec data = message_binary data"

definition bytes_of_message :: "message \<Rightarrow> bytes" where
  "bytes_of_message m = message_into_data m"

section \<open>IncompleteMessage\<close>

datatype message_collector = CText string_collector | CBinary bytes

record incomplete_message =
  msg_collector :: message_collector

datatype incomplete_type = IncText | IncBinary

definition incomplete_message_new :: "incomplete_type \<Rightarrow> incomplete_message" where
  "incomplete_message_new ty = \<lparr>msg_collector =
     (case ty of IncBinary \<Rightarrow> CBinary [] | IncText \<Rightarrow> CText collector_new)\<rparr>"

definition incomplete_message_len :: "incomplete_message \<Rightarrow> usize" where
  "incomplete_message_len m = (case msg_collector m of
     CText t \<Rightarrow> collector_len t
   | CBinary b \<Rightarrow> len_usize b)"

text \<open>
  \<open>extend\<close>, in machine arithmetic: \<open>max_size - my_size\<close> is computed only when it cannot
  wrap; \<open>my_size + portion_size\<close>, the size the error reports, is the code's one addition
  without such a guard and panics here where it overflows.
\<close>

definition incomplete_message_extend ::
  "simdutf8 \<Rightarrow> incomplete_message \<Rightarrow> bytes \<Rightarrow> usize option
     \<Rightarrow> (('r, 'x) error, unit) res \<times> incomplete_message" where
  "incomplete_message_extend sv m tail size_limit =
     (let max_size = (case size_limit of Some x \<Rightarrow> x | None \<Rightarrow> - 1);
          my_size = incomplete_message_len m;
          portion_size = len_usize tail
      in if my_size > max_size \<or> portion_size > max_size - my_size then
           if unat my_size + unat portion_size < 2 ^ 64
           then (Err (Capacity (MessageTooLong (my_size + portion_size) max_size)), m)
           else (Panic, m)
         else case msg_collector m of
           CBinary v \<Rightarrow> (Ok (), m\<lparr>msg_collector := CBinary (v @ tail)\<rparr>)
         | CText t \<Rightarrow>
             (case collector_extend sv t tail of (r, t') \<Rightarrow> (r, m\<lparr>msg_collector := CText t'\<rparr>)))"

definition incomplete_message_complete :: "incomplete_message \<Rightarrow> (('r, 'x) error, message) res" where
  "incomplete_message_complete m = (case msg_collector m of
     CBinary v \<Rightarrow> Ok (MBinary v)
   | CText t \<Rightarrow> bind_res (collector_into_string t) (\<lambda>text. Ok (message_text text)))"

section \<open>What the collector holds\<close>

text \<open>The abstraction: the bytes received so far.\<close>

fun message_rep :: "incomplete_message \<Rightarrow> incomplete_type \<Rightarrow> bytes \<Rightarrow> bool" where
  "message_rep m IncText input \<longleftrightarrow> (\<exists>c. msg_collector m = CText c \<and> collector_rep c input)"
| "message_rep m IncBinary input \<longleftrightarrow> msg_collector m = CBinary input"

definition limit_of :: "usize option \<Rightarrow> nat" where
  "limit_of l = (case l of Some x \<Rightarrow> unat x | None \<Rightarrow> 2 ^ 64 - 1)"

definition content_ok :: "incomplete_type \<Rightarrow> bytes \<Rightarrow> bool" where
  "content_ok ty input \<longleftrightarrow> (ty = IncText \<longrightarrow> valid_utf8 input)"

fun message_of :: "incomplete_type \<Rightarrow> bytes \<Rightarrow> message" where
  "message_of IncText input = MText (Utf8Bytes input)"
| "message_of IncBinary input = MBinary input"

lemma message_rep_new [simp]: "message_rep (incomplete_message_new ty) ty []"
  by (cases ty) (simp_all add: incomplete_message_new_def)

lemma message_rep_len:
  assumes "message_rep m ty input" "length input < 2 ^ 64"
  shows "unat (incomplete_message_len m) = length input"
  using assms
  by (cases ty) (auto simp: incomplete_message_len_def unat_len_usize collector_len_rep)

text \<open>The test of \<open>extend\<close> is the comparison it stands for.\<close>

lemma size_test:
  fixes mx my portion :: usize
  assumes "unat my + unat portion < 2 ^ 64"
  shows "my > mx \<or> portion > mx - my \<longleftrightarrow> unat my + unat portion > unat mx"
proof (cases "my > mx")
  case False
  then have "unat (mx - my) = unat mx - unat my" by (simp add: unat_sub not_less word_le_nat_alt)
  with False show ?thesis by (auto simp: word_less_nat_alt)
qed (auto simp: word_less_nat_alt)

section \<open>Extending\<close>

definition limit_word :: "usize option \<Rightarrow> usize" where
  "limit_word l = (case l of Some x \<Rightarrow> x | None \<Rightarrow> - 1)"

lemma unat_limit_word: "unat (limit_word l) = limit_of l"
  by (cases l) (simp_all add: limit_word_def limit_of_def unsigned_minus_1_eq_mask mask_eq_exp_minus_1)

text \<open>The text an invalid sequence in the bytes is reported with, for a text message.\<close>

definition text_break :: "incomplete_type \<Rightarrow> bytes \<Rightarrow> bytes option" where
  "text_break ty all = (if ty = IncText then
     (case std_from_utf8 all of
        Utf8_Error v (Some k) \<Rightarrow> Some (from_utf8_lossy (take k (drop v all)))
      | _ \<Rightarrow> None) else None)"

lemma text_break_content: "text_break ty all \<noteq> None \<Longrightarrow> \<not> content_ok ty (all @ more')"
proof -
  assume "text_break ty all \<noteq> None"
  then obtain v k where "ty = IncText" "std_from_utf8 all = Utf8_Error v (Some k)"
    by (auto simp: text_break_def split: if_splits utf8_verdict.splits option.splits)
  then show ?thesis using invalid_stays_invalid[of all v k more'] by (simp add: content_ok_def)
qed

lemma extend_over_limit:
  assumes "message_rep m ty input" "length (input @ tail) < 2 ^ 64" "limit_of l < length (input @ tail)"
  shows "incomplete_message_extend sv m tail l
    = (Err (Capacity (MessageTooLong (len_usize (input @ tail)) (limit_word l))) :: (('r, 'x) error, unit) res, m)"
proof -
  have my: "unat (incomplete_message_len m) = length input" and portion: "unat (len_usize tail) = length tail"
    using assms(2) message_rep_len[OF assms(1)] by (simp_all add: unat_len_usize)
  then have "incomplete_message_len m + len_usize tail = len_usize (input @ tail)"
    using assms(2) by (simp add: word_unat_eq_iff unat_word_ariths unat_len_usize)
  then show ?thesis
    using assms(2,3) my portion size_test[of "incomplete_message_len m" "len_usize tail" "limit_word l"]
    by (simp add: incomplete_message_extend_def limit_word_def[symmetric] Let_def unat_limit_word)
qed

context utf8_validator
begin

lemma extend_within_limit:
  assumes rep: "message_rep m ty input" and len: "length (input @ tail) < 2 ^ 64"
    and "length (input @ tail) \<le> limit_of l"
  shows "\<exists>r m'. (incomplete_message_extend sv m tail l :: (('r, 'x) error, unit) res \<times> incomplete_message) = (r, m')
    \<and> (case text_break ty (input @ tail) of
         Some e \<Rightarrow> r = Err (Utf8 e)
       | None \<Rightarrow> r = Ok () \<and> message_rep m' ty (input @ tail))"
proof -
  have "unat (incomplete_message_len m) = length input" "unat (len_usize tail) = length tail"
    using len message_rep_len[OF rep] by (simp_all add: unat_len_usize)
  then have test: "\<not> (incomplete_message_len m > limit_word l
      \<or> len_usize tail > limit_word l - incomplete_message_len m)"
    using assms(3) len by (subst size_test) (simp_all add: unat_limit_word)
  show ?thesis
  proof (cases ty)
    case IncBinary
    then show ?thesis
      using rep test by (auto simp: incomplete_message_extend_def limit_word_def[symmetric] text_break_def Let_def)
  next
    case IncText
    then obtain c where c: "msg_collector m = CText c" "collector_rep c input" using rep by auto
    have "extend_agrees (collector_extend sv c tail :: (('r, 'x) error, unit) res \<times> string_collector) (input @ tail)"
      using c(2) by (rule collector_extend_agrees)
    then show ?thesis
      using test c IncText
      by (cases "collector_extend sv c tail :: (('r, 'x) error, unit) res \<times> string_collector")
        (auto simp: incomplete_message_extend_def limit_word_def[symmetric] text_break_def Let_def extend_agrees_def
          split: utf8_verdict.splits option.splits)
  qed
qed

text \<open>After an error, too, the message holds some bytes, within the limit.\<close>

lemma extend_keeps:
  assumes rep: "message_rep m ty input" and len: "length (input @ tail) < 2 ^ 64"
    and limit: "length input \<le> limit_of l"
    and ext: "incomplete_message_extend sv m tail l = (r :: (('r, 'x) error, unit) res, m')"
  shows "\<exists>kept. message_rep m' ty kept \<and> length kept \<le> limit_of l" and "r \<noteq> Panic"
proof -
  have all: "(\<exists>kept. message_rep m' ty kept \<and> length kept \<le> limit_of l) \<and> r \<noteq> Panic"
  proof (cases "limit_of l < length (input @ tail)")
    case True
    then show ?thesis
      using extend_over_limit[OF rep len True, of sv, where ?'r = 'r and ?'x = 'x] ext rep limit by auto
  next
    case False
    then have in_limit: "length (input @ tail) \<le> limit_of l" by simp
    note within = extend_within_limit[OF rep len in_limit, where ?'r = 'r and ?'x = 'x]
    have test: "\<not> (incomplete_message_len m > limit_word l \<or> len_usize tail > limit_word l - incomplete_message_len m)"
      using len message_rep_len[OF rep] False by (subst size_test) (simp_all add: unat_limit_word unat_len_usize)
    show ?thesis
    proof (cases ty)
      case IncBinary
      then show ?thesis
        using within ext in_limit by (auto simp: text_break_def)
    next
      case IncText
      then obtain c where c: "msg_collector m = CText c" "collector_rep c input" using rep by auto
      obtain q c' where q: "collector_extend sv c tail = (q :: (('r, 'x) error, unit) res, c')"
        by (cases "collector_extend sv c tail :: (('r, 'x) error, unit) res \<times> _") auto
      then have "r = q" "msg_collector m' = CText c'"
        using ext test c(1) by (auto simp: incomplete_message_extend_def limit_word_def[symmetric] Let_def)
      moreover obtain kept where "collector_rep c' kept" "length kept \<le> length (input @ tail)"
        using collector_extend_rep[OF c(2), of tail, where ?'r = 'r and ?'x = 'x] q by auto
      moreover have "r \<noteq> Panic"
        using within ext by (auto split: option.splits)
      ultimately show ?thesis
        using in_limit IncText by auto
    qed
  qed
  then show "\<exists>kept. message_rep m' ty kept \<and> length kept \<le> limit_of l" and "r \<noteq> Panic" by blast+
qed

end

lemma complete_rep:
  assumes "message_rep m ty input"
  shows "(incomplete_message_complete m :: (('r, 'x) error, message) res) = Ok msg
      \<longleftrightarrow> content_ok ty input \<and> msg = message_of ty input"
    and "incomplete_message_complete m \<noteq> (Panic :: (('r, 'x) error, message) res)"
    and "(incomplete_message_complete m :: (('r, 'x) error, message) res) = Err e \<Longrightarrow> \<exists>t. e = Utf8 t"
  using assms
  by (cases ty; auto simp: incomplete_message_complete_def content_ok_def into_string_rep message_text_def
      utf8_of_string_def split: if_splits)+

section \<open>A whole message\<close>

text \<open>
  A message from its fragments: \<open>new\<close>, \<open>extend\<close> for each, \<open>complete\<close>; the first
  error ends it. This is what \<open>handle_frame\<close> does over the data frames of a message.
\<close>

fun extend_all ::
  "simdutf8 \<Rightarrow> incomplete_message \<Rightarrow> usize option \<Rightarrow> bytes list \<Rightarrow> (('r, 'x) error, unit) res \<times> incomplete_message" where
  "extend_all sv m l [] = (Ok (), m)"
| "extend_all sv m l (t # ts) = bind_st (incomplete_message_extend sv m t l) (\<lambda>_ m'. extend_all sv m' l ts)"

definition assemble :: "simdutf8 \<Rightarrow> incomplete_type \<Rightarrow> usize option \<Rightarrow> bytes list \<Rightarrow> (('r, 'x) error, message) res" where
  "assemble sv ty l ts = fst (bind_st (extend_all sv (incomplete_message_new ty) l ts)
     (\<lambda>_ m. (incomplete_message_complete m, m)))"

context utf8_validator
begin

lemma extend_all_rep:
  fixes m :: incomplete_message
  assumes "message_rep m ty input" "length (input @ concat ts) < 2 ^ 64" "length input \<le> limit_of l"
  shows "(\<exists>m'. (extend_all sv m l ts :: (('r, 'x) error, unit) res \<times> _) = (Ok (), m')
            \<and> message_rep m' ty (input @ concat ts) \<and> length (input @ concat ts) \<le> limit_of l)
       \<or> (\<exists>e m'. (extend_all sv m l ts :: (('r, 'x) error, unit) res \<times> _) = (Err e, m')
            \<and> \<not> (length (input @ concat ts) \<le> limit_of l \<and> content_ok ty (input @ concat ts)))"
  using assms
proof (induction ts arbitrary: m input)
  case (Cons t ts)
  have len: "length (input @ t) < 2 ^ 64" using Cons.prems(2) by simp
  show ?case
  proof (cases "length (input @ t) \<le> limit_of l")
    case False
    then show ?thesis
      using extend_over_limit[OF Cons.prems(1) len, of l sv, where ?'r = 'r and ?'x = 'x] by simp
  next
    case True
    obtain r m' where ext: "(incomplete_message_extend sv m t l :: (('r, 'x) error, unit) res \<times> _) = (r, m')"
      and res: "case text_break ty (input @ t) of Some e \<Rightarrow> r = Err (Utf8 e)
        | None \<Rightarrow> r = Ok () \<and> message_rep m' ty (input @ t)"
      using extend_within_limit[OF Cons.prems(1) len True, where ?'r = 'r and ?'x = 'x] by blast
    show ?thesis
    proof (cases "text_break ty (input @ t)")
      case None
      then show ?thesis
        using Cons.IH[of m' "input @ t"] Cons.prems(2) True res by (simp add: ext)
    next
      case (Some e)
      then have "\<not> content_ok ty (input @ t @ concat ts)"
        using text_break_content[of ty "input @ t" "concat ts"] by simp
      with Some res show ?thesis by (simp add: ext)
    qed
  qed
qed simp

end

section \<open>Properties\<close>

text \<open>Adding a fragment under a size limit, in machine arithmetic: over the limit it fails
  with the size the message would have and keeps what it holds; within the limit a binary
  message grows by the fragment, and a text message grows by it or fails with the first
  invalid sequence, exactly when there is one. No addition or subtraction wraps or panics.\<close>

theorem extend_respects_limit:
  fixes r :: "(('r, 'x) error, unit) res"
  assumes "utf8_validator sv" "message_rep m ty input" "length (input @ tail) < 2 ^ 64"
    and "incomplete_message_extend sv m tail limit = (r, m')"
  shows "if limit_of limit < length (input @ tail)
    then r = Err (Capacity (MessageTooLong (len_usize (input @ tail)) (limit_word limit))) \<and> m' = m
    else (case text_break ty (input @ tail) of
            Some e \<Rightarrow> r = Err (Utf8 e)
          | None \<Rightarrow> r = Ok () \<and> message_rep m' ty (input @ tail))"
  using utf8_validator.extend_within_limit[OF assms(1-3), of limit, where ?'r = 'r and ?'x = 'x]
    extend_over_limit[OF assms(2,3), of limit sv, where ?'r = 'r and ?'x = 'x] assms(4)
  by (cases "limit_of limit < length (input @ tail)") (auto simp: not_less)

text \<open>The crate's own test: seven bytes and six more against a limit of ten.\<close>

lemma extend_respects_limit_witness:
  "incomplete_message_extend std_simdutf8 \<lparr>msg_collector = CBinary [0, 1, 2, 3, 4, 5, 6]\<rparr> [7, 8, 9, 10, 11, 12] (Some 10)
     = (Err (Capacity (MessageTooLong 13 10)) :: ((unit, unit) error, unit) res,
        \<lparr>msg_collector = CBinary [0, 1, 2, 3, 4, 5, 6]\<rparr>)"
  using extend_respects_limit[OF std_utf8.utf8_validator_axioms, of "\<lparr>msg_collector = CBinary [0, 1, 2, 3, 4, 5, 6]\<rparr>"
      IncBinary "[0, 1, 2, 3, 4, 5, 6]" "[7, 8, 9, 10, 11, 12]" "Some 10", where ?'r = unit and ?'x = unit]
  by (cases "incomplete_message_extend std_simdutf8 \<lparr>msg_collector = CBinary [0, 1, 2, 3, 4, 5, 6]\<rparr>
      [7, 8, 9, 10, 11, 12] (Some 10) :: ((unit, unit) error, unit) res \<times> _")
    (simp add: limit_of_def limit_word_def len_usize_def)

text \<open>C35. A message assembled from any fragmentation succeeds exactly when the whole is within
  the limit and, for a text message, valid UTF-8, and is then the message of the
  concatenated bytes; it never panics.\<close>

theorem assemble_message:
  assumes "utf8_validator sv" "length (concat ts) < 2 ^ 64"
  shows "((assemble sv ty limit ts :: (('r, 'x) error, message) res) = Ok msg)
      = (length (concat ts) \<le> limit_of limit \<and> content_ok ty (concat ts) \<and> msg = message_of ty (concat ts))
    \<and> assemble sv ty limit ts \<noteq> (Panic :: (('r, 'x) error, message) res)"
proof -
  have "(\<exists>m'. (extend_all sv (incomplete_message_new ty) limit ts :: (('r, 'x) error, unit) res \<times> _) = (Ok (), m')
            \<and> message_rep m' ty (concat ts) \<and> length (concat ts) \<le> limit_of limit)
       \<or> (\<exists>e m'. (extend_all sv (incomplete_message_new ty) limit ts :: (('r, 'x) error, unit) res \<times> _) = (Err e, m')
            \<and> \<not> (length (concat ts) \<le> limit_of limit \<and> content_ok ty (concat ts)))"
    using utf8_validator.extend_all_rep[OF assms(1) message_rep_new, of ts limit ty, where ?'r = 'r and ?'x = 'x] assms(2)
    by simp
  then show ?thesis by (auto simp: assemble_def complete_rep)
qed

lemma assemble_message_witness:
  "assemble std_simdutf8 IncText (Some 4) [[0x41, 0xE2], [0x82, 0xAC]]
     = (Ok (MText (Utf8Bytes [0x41, 0xE2, 0x82, 0xAC])) :: ((unit, unit) error, message) res)"
  using assemble_message[OF std_utf8.utf8_validator_axioms, of "[[0x41, 0xE2], [0x82, 0xAC]]" IncText "Some 4"
      "MText (Utf8Bytes [0x41, 0xE2, 0x82, 0xAC])", where ?'r = unit and ?'x = unit]
  by (simp add: std_from_utf8_step utf8_char_width_def second_of_3_def is_cont_def limit_of_def content_ok_def)

text \<open>The text of a message is its data where the data is valid UTF-8, and an error of the
  UTF-8 kind elsewhere; a message that holds text by its type always has one.\<close>

theorem message_text_of_data:
  assumes "utf8_validator sv" "\<forall>t. m = MText t \<longrightarrow> utf8_wf t"
    and "\<forall>c. m = MClose (Some c) \<longrightarrow> utf8_wf (close_reason c)"
  shows "(message_to_text sv m :: (('r, 'x) error, bytes) res)
      = (if valid_utf8 (message_into_data m) then Ok (message_into_data m) else Err (Utf8 (basic_text sv)))
    \<and> (message_into_text sv m :: (('r, 'x) error, utf8_bytes) res)
      = (if valid_utf8 (message_into_data m) then Ok (Utf8Bytes (message_into_data m)) else Err (Utf8 (basic_text sv)))"
proof (cases m)
  case (MClose c)
  then show ?thesis
    using assms(3) by (cases c) (auto simp: utf8_wf_def utf8_as_str_def intro: utf8_bytes.expand)
qed (use assms(2) in \<open>auto simp: utf8_wf_def utf8_as_str_def utf8_try_from_def basic_from_utf8_def frame_into_text_def
    frame_to_text_def frame_into_payload_def utf8_validator.basic[OF assms(1)] intro: utf8_bytes.expand\<close>)

text \<open>The bytes of the crate's own test, whose last one starts a character that never ends.\<close>

lemma message_text_of_data_witness:
  "message_to_text std_simdutf8 (MBinary [6, 7, 8, 241])
     = (Err (Utf8 (basic_text std_simdutf8)) :: ((unit, unit) error, bytes) res)"
  using message_text_of_data[OF std_utf8.utf8_validator_axioms, of "MBinary [6, 7, 8, 241]",
      where ?'r = unit and ?'x = unit]
  by (simp add: std_from_utf8_step utf8_char_width_def)

end
