(* ===== verification/Websocket.thy ===== *)
theory Websocket
  imports Frame_Codec Message
begin

text \<open>
  The connection, \<open>src/protocol/websocket.rs\<close>: its configuration and its closing state
  machine, reading and writing messages, the treatment of every received frame, and the
  \<open>Stream\<close> and \<open>Sink\<close> views. Each definition takes what it needs of the environment
  (\<open>env\<close>): the target of the masking routine, the UTF-8 validator, the transport, and the
  generator of masks, whose state is kept in the connection.
\<close>

section \<open>Configuration and state\<close>

datatype role = Server | Client

record websocket_config =
  write_buffer_size :: usize
  max_message_size :: "usize option"
  max_frame_size :: "usize option"
  accept_unmasked_frames :: bool

definition default_config :: websocket_config where
  "default_config = \<lparr>write_buffer_size = 128 * 1024, max_message_size = Some (push_bit 20 64),
     max_frame_size = Some (push_bit 20 16), accept_unmasked_frames = False\<rparr>"

definition with_write_buffer_size :: "usize \<Rightarrow> websocket_config \<Rightarrow> websocket_config" where
  "with_write_buffer_size n c = c\<lparr>write_buffer_size := n\<rparr>"

definition with_max_message_size :: "usize option \<Rightarrow> websocket_config \<Rightarrow> websocket_config" where
  "with_max_message_size n c = c\<lparr>max_message_size := n\<rparr>"

definition with_max_frame_size :: "usize option \<Rightarrow> websocket_config \<Rightarrow> websocket_config" where
  "with_max_frame_size n c = c\<lparr>max_frame_size := n\<rparr>"

definition with_accept_unmasked_frames :: "bool \<Rightarrow> websocket_config \<Rightarrow> websocket_config" where
  "with_accept_unmasked_frames b c = c\<lparr>accept_unmasked_frames := b\<rparr>"

text \<open>\<open>WebSocketState\<close>.\<close>

datatype conn_state = Active | ClosedByUs | ClosedByPeer | CloseAcknowledged | Terminated

definition is_active :: "conn_state \<Rightarrow> bool" where
  "is_active c \<longleftrightarrow> c = Active"

definition can_read :: "conn_state \<Rightarrow> bool" where
  "can_read c \<longleftrightarrow> c = Active \<or> c = ClosedByUs"

definition check_not_terminated :: "conn_state \<Rightarrow> (('r, 'x) error, unit) res" where
  "check_not_terminated c = (if c = Terminated then Err AlreadyClosed else Ok ())"

record ('s, 'q, 'g) websocket =
  ws_role :: role
  ws_codec :: "('s, 'q) frame_codec"
  ws_conn :: conn_state
  ws_incomplete :: "incomplete_message option"
  ws_config :: websocket_config
  ws_rng :: 'g

record ('s, 'q, 'g, 'r, 'x) env =
  env_platform :: platform
  env_utf8 :: simdutf8
  env_transport :: "('s, 'q, ('r, 'x) error) transport"
  env_draw_mask :: "'g \<Rightarrow> mask4 \<times> 'g"

text \<open>\<open>setup\<close> and the two constructors.\<close>

definition ws_setup ::
  "('s, 'q) frame_codec \<Rightarrow> role \<Rightarrow> websocket_config \<Rightarrow> 'g \<Rightarrow> ('s, 'q, 'g) websocket" where
  "ws_setup fc rl cfg g = \<lparr>ws_role = rl,
     ws_codec = codec_update_decoder (set_max_frame_size (max_frame_size cfg))
       (codec_update_decoder (set_accept_unmasked (accept_unmasked_frames cfg))
         (codec_update_decoder (set_unmask (rl = Server)) fc)),
     ws_conn = Active, ws_incomplete = None, ws_config = cfg, ws_rng = g\<rparr>"

definition config_or_default :: "websocket_config option \<Rightarrow> websocket_config" where
  "config_or_default c = (case c of Some cfg \<Rightarrow> cfg | None \<Rightarrow> default_config)"

definition from_raw_socket ::
  "('s, 'q, 'e) transport \<Rightarrow> 's \<Rightarrow> role \<Rightarrow> websocket_config option \<Rightarrow> 'g \<Rightarrow> ('s, 'q, 'g) websocket" where
  "from_raw_socket tr stream rl c g =
     (let cfg = config_or_default c in ws_setup (codec_new tr stream (write_buffer_size cfg)) rl cfg g)"

definition from_framed_read ::
  "('s, 'c, 'q) framed \<Rightarrow> role \<Rightarrow> websocket_config option \<Rightarrow> 'g \<Rightarrow> ('s, 'q, 'g) websocket" where
  "from_framed_read fr rl c g =
     (let cfg = config_or_default c in ws_setup (codec_from_framed_read fr (write_buffer_size cfg)) rl cfg g)"

definition ws_set_config ::
  "(websocket_config \<Rightarrow> websocket_config) \<Rightarrow> ('s, 'q, 'g) websocket \<Rightarrow> ('s, 'q, 'g) websocket" where
  "ws_set_config f s =
     (let cfg = f (ws_config s) in
      s\<lparr>ws_config := cfg,
        ws_codec := codec_set_write_limit (write_buffer_size cfg)
          (codec_update_decoder (set_max_frame_size (max_frame_size cfg))
            (codec_update_decoder (set_accept_unmasked (accept_unmasked_frames cfg)) (ws_codec s)))\<rparr>)"

text \<open>\<open>get_config\<close>, \<open>get_ref\<close>, a change of the stream through \<open>get_mut\<close>, and \<open>into_inner\<close>.\<close>

definition ws_get_config :: "('s, 'q, 'g) websocket \<Rightarrow> websocket_config" where
  "ws_get_config s = ws_config s"

definition ws_get_ref :: "('s, 'q, 'g) websocket \<Rightarrow> 's" where
  "ws_get_ref s = codec_get_io (ws_codec s)"

definition ws_set_stream :: "'s \<Rightarrow> ('s, 'q, 'g) websocket \<Rightarrow> ('s, 'q, 'g) websocket" where
  "ws_set_stream io s = s\<lparr>ws_codec := codec_set_io io (ws_codec s)\<rparr>"

definition ws_into_inner :: "('s, 'q, 'g) websocket \<Rightarrow> 's" where
  "ws_into_inner s = codec_into_inner (ws_codec s)"

definition ws_can_read :: "('s, 'q, 'g) websocket \<Rightarrow> bool" where
  "ws_can_read s \<longleftrightarrow> can_read (ws_conn s)"

definition ws_can_write :: "('s, 'q, 'g) websocket \<Rightarrow> bool" where
  "ws_can_write s \<longleftrightarrow> is_active (ws_conn s)"

section \<open>Writing\<close>

text \<open>\<open>check_connection_reset\<close>.\<close>

fun check_connection_reset :: "conn_state \<Rightarrow> (('r, 'x) error, 'a) res \<Rightarrow> (('r, 'x) error, 'a) res" where
  "check_connection_reset c (Err (Io e)) =
     Err (if \<not> can_read c \<and> io_kind e = ConnectionReset then ConnectionClosed else Io e)"
| "check_connection_reset c r = r"

text \<open>An operation of the codec, run on the connection's.\<close>

definition on_codec ::
  "(('s, 'q) frame_codec \<Rightarrow> 'a \<times> ('s, 'q) frame_codec) \<Rightarrow> ('s, 'q, 'g) websocket \<Rightarrow> 'a \<times> ('s, 'q, 'g) websocket" where
  "on_codec f s = (case f (ws_codec s) of (r, fc) \<Rightarrow> (r, s\<lparr>ws_codec := fc\<rparr>))"

definition write_frame ::
  "('s, 'q, 'g, 'r, 'x) env \<Rightarrow> frame \<Rightarrow> ('s, 'q, 'g) websocket
     \<Rightarrow> (('r, 'x) error, unit) res \<times> ('s, 'q, 'g) websocket" where
  "write_frame env f s =
     (let (f', s1) = (if ws_role s = Client
            then (case env_draw_mask env (ws_rng s) of (m, g) \<Rightarrow> (frame_set_mask m f, s\<lparr>ws_rng := g\<rparr>))
            else (f, s));
          (r, s2) = on_codec (codec_send (env_platform env) (env_transport env) f') s1
      in bind_st (check_connection_reset (ws_conn s) r, s2) (\<lambda>_ s3. (Ok (), s3)))"

definition ws_flush ::
  "('s, 'q, 'g, 'r, 'x) env \<Rightarrow> ('s, 'q, 'g) websocket \<Rightarrow> (('r, 'x) error, unit) res \<times> ('s, 'q, 'g) websocket" where
  "ws_flush env s =
     (if ws_role s = Server \<and> \<not> can_read (ws_conn s)
      then bind_st (on_codec (codec_close (env_transport env)) (s\<lparr>ws_conn := Terminated\<rparr>))
             (\<lambda>_ s1. (Err ConnectionClosed, s1))
      else bind_st (on_codec (codec_flush (env_transport env)) s) (\<lambda>_ s1. (Ok (), s1)))"

definition ws_close ::
  "('s, 'q, 'g, 'r, 'x) env \<Rightarrow> close_frame option \<Rightarrow> ('s, 'q, 'g) websocket
     \<Rightarrow> (('r, 'x) error, unit) res \<times> ('s, 'q, 'g) websocket" where
  "ws_close env code s =
     (if ws_conn s = Active
      then bind_st (write_frame env (frame_close code) (s\<lparr>ws_conn := ClosedByUs\<rparr>)) (\<lambda>_ s1. ws_flush env s1)
      else ws_flush env s)"

definition write_message_frame ::
  "('s, 'q, 'g, 'r, 'x) env \<Rightarrow> (('r, 'x) error, frame) res \<Rightarrow> ('s, 'q, 'g) websocket
     \<Rightarrow> (('r, 'x) error, unit) res \<times> ('s, 'q, 'g) websocket" where
  "write_message_frame env f s = bind_st (f, s) (\<lambda>f s1. bind_st (write_frame env f s1) (\<lambda>_ s2. (Ok (), s2)))"

definition ws_write ::
  "('s, 'q, 'g, 'r, 'x) env \<Rightarrow> message \<Rightarrow> ('s, 'q, 'g) websocket
     \<Rightarrow> (('r, 'x) error, unit) res \<times> ('s, 'q, 'g) websocket" where
  "ws_write env m s = bind_st (check_not_terminated (ws_conn s), s) (\<lambda>_ s.
     if \<not> is_active (ws_conn s) then (Err (Protocol SendAfterClosing), s)
     else case m of
       MText t \<Rightarrow> write_message_frame env (frame_message (utf8_raw t) (OpData OpText) True) s
     | MBinary d \<Rightarrow> write_message_frame env (frame_message d (OpData OpBinary) True) s
     | MPing d \<Rightarrow> write_message_frame env (Ok (frame_ping d)) s
     | MPong d \<Rightarrow> write_message_frame env (Ok (frame_pong d)) s
     | MClose code \<Rightarrow> ws_close env code s
     | MFrame f \<Rightarrow> write_message_frame env (Ok f) s)"

section \<open>Receiving frames\<close>

definition check_max_size :: "nat \<Rightarrow> usize option \<Rightarrow> (('r, 'x) error, unit) res" where
  "check_max_size n limit = (case limit of
     Some mx \<Rightarrow> if n > unat mx then Err (Capacity (MessageTooLong (of_nat n) mx)) else Ok ()
   | None \<Rightarrow> Ok ())"

text \<open>
  \<open>do_close\<close>: the close frame for the user, if any, the reply, and the new state.
  \<open>unreachable!()\<close> is the panic.
\<close>

definition do_close ::
  "close_frame option \<Rightarrow> ('s, 'q, 'g) websocket
     \<Rightarrow> (('r, 'x) error, close_frame option option \<times> frame option) res \<times> ('s, 'q, 'g) websocket" where
  "do_close close s = (case ws_conn s of
     Active \<Rightarrow>
       let close' = map_option (\<lambda>fr. if \<not> close_code_is_allowed (close_code fr)
             then \<lparr>close_code = Code_Protocol, close_reason = utf8_from_static ''Protocol violation''\<rparr>
             else fr) close
       in (Ok (Some close', Some (frame_close close')), s\<lparr>ws_conn := ClosedByPeer\<rparr>)
   | ClosedByPeer \<Rightarrow> (Ok (None, None), s)
   | CloseAcknowledged \<Rightarrow> (Ok (None, None), s)
   | ClosedByUs \<Rightarrow> (Ok (Some close, None), s\<lparr>ws_conn := CloseAcknowledged\<rparr>)
   | Terminated \<Rightarrow> (Panic, s))"

text \<open>What a received frame gives: a message for the user and a reply to send.\<close>

type_synonym received = "message option \<times> frame option"

definition handle_control ::
  "simdutf8 \<Rightarrow> op_ctl \<Rightarrow> frame \<Rightarrow> ('s, 'q, 'g) websocket
     \<Rightarrow> (('r, 'x) error, received) res \<times> ('s, 'q, 'g) websocket" where
  "handle_control sv ctl f s =
     (if \<not> is_final (header f) then (Err (Protocol FragmentedControlFrame), s)
      else if length (payload f) > 125 then (Err (Protocol ControlFrameTooBig), s)
      else case ctl of
        OpClose \<Rightarrow> bind_st (frame_into_close sv f, s) (\<lambda>c s1. bind_st (do_close c s1) (\<lambda>(msg, reply) s2.
          (Ok (map_option MClose msg, reply), s2)))
      | OpCtlReserved i \<Rightarrow> (Err (Protocol (UnknownControlFrameType i)), s)
      | OpPing \<Rightarrow>
          (Ok (Some (MPing (frame_into_payload f)),
               if is_active (ws_conn s) then Some (frame_pong (frame_into_payload f)) else None), s)
      | OpPong \<Rightarrow> (Ok (Some (MPong (frame_into_payload f)), None), s))"

definition handle_continue ::
  "simdutf8 \<Rightarrow> frame \<Rightarrow> ('s, 'q, 'g) websocket
     \<Rightarrow> (('r, 'x) error, message option) res \<times> ('s, 'q, 'g) websocket" where
  "handle_continue sv f s = (case ws_incomplete s of
     None \<Rightarrow> (Err (Protocol UnexpectedContinueFrame), s)
   | Some m \<Rightarrow>
       (case incomplete_message_extend sv m (frame_into_payload f) (max_message_size (ws_config s)) of
          (r, m') \<Rightarrow>
            bind_st (r, s\<lparr>ws_incomplete := Some m'\<rparr>) (\<lambda>_ s1.
              if is_final (header f)
              then bind_st (incomplete_message_complete m', s1\<lparr>ws_incomplete := None\<rparr>) (\<lambda>msg s2. (Ok (Some msg), s2))
              else (Ok None, s1))))"

definition handle_first_fragment ::
  "simdutf8 \<Rightarrow> op_data \<Rightarrow> frame \<Rightarrow> ('s, 'q, 'g) websocket
     \<Rightarrow> (('r, 'x) error, message option) res \<times> ('s, 'q, 'g) websocket" where
  "handle_first_fragment sv d f s =
     bind_st (case d of OpText \<Rightarrow> Ok IncText | OpBinary \<Rightarrow> Ok IncBinary | _ \<Rightarrow> Panic, s) (\<lambda>ty s1.
       case incomplete_message_extend sv (incomplete_message_new ty) (frame_into_payload f)
              (max_message_size (ws_config s1)) of
         (r, m) \<Rightarrow> bind_st (r, s1) (\<lambda>_ s2. (Ok None, s2\<lparr>ws_incomplete := Some m\<rparr>)))"

definition handle_data ::
  "simdutf8 \<Rightarrow> op_data \<Rightarrow> frame \<Rightarrow> ('s, 'q, 'g) websocket
     \<Rightarrow> (('r, 'x) error, message option) res \<times> ('s, 'q, 'g) websocket" where
  "handle_data sv d f s =
     (let fin = is_final (header f); limit = max_message_size (ws_config s) in
      case d of
        OpContinue \<Rightarrow> handle_continue sv f s
      | c \<Rightarrow>
        if ws_incomplete s \<noteq> None then (Err (Protocol (ExpectedFragment c)), s)
        else case c of
          OpText \<Rightarrow>
            if fin then bind_st (check_max_size (length (payload f)) limit, s) (\<lambda>_ s1.
                bind_st (utf8_question sv (frame_into_text sv f), s1) (\<lambda>t s2. (Ok (Some (MText t)), s2)))
            else handle_first_fragment sv c f s
        | OpBinary \<Rightarrow>
            if fin then bind_st (check_max_size (length (payload f)) limit, s) (\<lambda>_ s1.
                (Ok (Some (MBinary (frame_into_payload f))), s1))
            else handle_first_fragment sv c f s
        | OpDataReserved i \<Rightarrow> (Err (Protocol (UnknownDataFrameType i)), s)
        | OpContinue \<Rightarrow> (Panic, s))"

definition handle_frame ::
  "simdutf8 \<Rightarrow> frame \<Rightarrow> ('s, 'q, 'g) websocket
     \<Rightarrow> (('r, 'x) error, received) res \<times> ('s, 'q, 'g) websocket" where
  "handle_frame sv f s = (case opcode (header f) of
     OpControl ctl \<Rightarrow> handle_control sv ctl f s
   | OpData d \<Rightarrow> bind_st (handle_data sv d f s) (\<lambda>msg s1. (Ok (msg, None), s1)))"

text \<open>\<open>Option<Result>::transpose\<close>.\<close>

fun transpose :: "('e, 'a) res option \<Rightarrow> ('e, 'a option) res" where
  "transpose None = Ok None"
| "transpose (Some (Ok a)) = Ok (Some a)"
| "transpose (Some (Err e)) = Err e"
| "transpose (Some Panic) = Panic"

definition end_of_stream ::
  "('s, 'q, 'g) websocket \<Rightarrow> (('r, 'x) error, received) res \<times> ('s, 'q, 'g) websocket" where
  "end_of_stream s =
     (if ws_conn s = ClosedByPeer \<or> ws_conn s = CloseAcknowledged then Err ConnectionClosed
      else Err (Protocol ResetWithoutClosingHandshake), s\<lparr>ws_conn := Terminated\<rparr>)"

definition accept_frame ::
  "simdutf8 \<Rightarrow> frame \<Rightarrow> ('s, 'q, 'g) websocket
     \<Rightarrow> (('r, 'x) error, received) res \<times> ('s, 'q, 'g) websocket" where
  "accept_frame sv f s =
     (if \<not> can_read (ws_conn s) then (Err (Protocol ReceivedAfterClosing), s)
      else if rsv1 (header f) \<or> rsv2 (header f) \<or> rsv3 (header f) then (Err (Protocol NonZeroReservedBits), s)
      else if ws_role s = Client \<and> frame_is_masked f then (Err (Protocol MaskedFrameFromServer), s)
      else handle_frame sv f s)"

definition read_message_frame ::
  "('s, 'q, 'g, 'r, 'x) env \<Rightarrow> ('s, 'q, 'g) websocket
     \<Rightarrow> (('r, 'x) error, received) res \<times> ('s, 'q, 'g) websocket" where
  "read_message_frame env s =
     (let (res, s1) = on_codec (codec_next (env_platform env) (env_transport env)) s in
      bind_st (check_connection_reset (ws_conn s1) (transpose res), s1) (\<lambda>item s2.
        case item of
          Some f \<Rightarrow> accept_frame (env_utf8 env) f s2
        | None \<Rightarrow> end_of_stream s2))"

text \<open>The reply that a received frame asks for, written and flushed.\<close>

definition auto_send ::
  "('s, 'q, 'g, 'r, 'x) env \<Rightarrow> frame option \<Rightarrow> ('s, 'q, 'g) websocket
     \<Rightarrow> (('r, 'x) error, unit) res \<times> ('s, 'q, 'g) websocket" where
  "auto_send env reply s = (case reply of
     None \<Rightarrow> (Ok (), s)
   | Some f \<Rightarrow> bind_st (write_frame env f s) (\<lambda>_ s1. on_codec (codec_flush (env_transport env)) s1))"

text \<open>The loop of \<open>read\<close>; \<open>None\<close> is a loop that never ends.\<close>

partial_function (option) read_loop ::
  "('s, 'q, 'g, 'r, 'x) env \<Rightarrow> ('s, 'q, 'g) websocket
     \<Rightarrow> ((('r, 'x) error, message) res \<times> ('s, 'q, 'g) websocket) option" where
  "read_loop env s =
     (case read_message_frame env s of
        (Panic, s1) \<Rightarrow> Some (Panic, s1)
      | (Err e, s1) \<Rightarrow> Some (Err e, s1)
      | (Ok (msg, reply), s1) \<Rightarrow>
          (case auto_send env reply s1 of
             (Panic, s2) \<Rightarrow> Some (Panic, s2)
           | (Err e, s2) \<Rightarrow> Some (Err e, s2)
           | (Ok u, s2) \<Rightarrow> (case msg of Some m \<Rightarrow> Some (Ok m, s2) | None \<Rightarrow> read_loop env s2)))"

definition ws_read ::
  "('s, 'q, 'g, 'r, 'x) env \<Rightarrow> ('s, 'q, 'g) websocket
     \<Rightarrow> ((('r, 'x) error, message) res \<times> ('s, 'q, 'g) websocket) option" where
  "ws_read env s = (case check_not_terminated (ws_conn s) :: (('r, 'x) error, unit) res of
     Err e \<Rightarrow> Some (Err e, s)
   | Panic \<Rightarrow> Some (Panic, s)
   | Ok u \<Rightarrow>
       if ws_role s = Server \<and> \<not> can_read (ws_conn s)
       then Some (Err ConnectionClosed, s\<lparr>ws_conn := Terminated\<rparr>)
       else read_loop env s)"

section \<open>Stream and Sink\<close>

definition stream_next ::
  "('s, 'q, 'g, 'r, 'x) env \<Rightarrow> ('s, 'q, 'g) websocket
     \<Rightarrow> ((('r, 'x) error, message) res option \<times> ('s, 'q, 'g) websocket) option" where
  "stream_next env s = map_option (\<lambda>(r, s'). (case r of
       Ok m \<Rightarrow> Some (Ok m)
     | Err AlreadyClosed \<Rightarrow> None
     | Err ConnectionClosed \<Rightarrow> None
     | Err e \<Rightarrow> Some (Err e)
     | Panic \<Rightarrow> Some Panic, s')) (ws_read env s)"

definition sink_send ::
  "('s, 'q, 'g, 'r, 'x) env \<Rightarrow> message \<Rightarrow> ('s, 'q, 'g) websocket
     \<Rightarrow> (('r, 'x) error, unit) res \<times> ('s, 'q, 'g) websocket" where
  "sink_send env m s = ws_write env m s"

fun ignore_closed :: "(('r, 'x) error, unit) res \<Rightarrow> (('r, 'x) error, unit) res" where
  "ignore_closed (Err ConnectionClosed) = Ok ()"
| "ignore_closed r = r"

definition sink_flush ::
  "('s, 'q, 'g, 'r, 'x) env \<Rightarrow> ('s, 'q, 'g) websocket \<Rightarrow> (('r, 'x) error, unit) res \<times> ('s, 'q, 'g) websocket" where
  "sink_flush env s = (case ws_flush env s of (r, s1) \<Rightarrow> (ignore_closed r, s1))"

definition sink_close ::
  "('s, 'q, 'g, 'r, 'x) env \<Rightarrow> ('s, 'q, 'g) websocket \<Rightarrow> (('r, 'x) error, unit) res \<times> ('s, 'q, 'g) websocket" where
  "sink_close env s = (case ws_close env None s of (r, s1) \<Rightarrow> (ignore_closed r, s1))"

end
