(* ===== verification/Websocket_Invariant.thy ===== *)
theory Websocket_Invariant
  imports Websocket
begin

text \<open>
  The invariant of a connection and its closing state machine: what a received frame may do
  to the state, what \<open>read\<close>, \<open>write\<close>, \<open>close\<close> and \<open>flush\<close> preserve, and that none of
  them reaches the panics of the code.
\<close>

section \<open>The environment\<close>

locale sound_env =
  fixes env :: "('s, 'q, 'g, 'r, 'x) env" and sent :: "'s \<Rightarrow> bytes"
  assumes platform_sound: "sound_platform (env_platform env)"
    and utf8_sound: "utf8_validator (env_utf8 env)"
    and transport_sound: "frame_source (env_transport env) sent"

text \<open>The environment of the crate's tests, with masks drawn by rotating the last one.\<close>

definition mem_env :: "(mem_io, unit, mask4, 'r, 'x) env" where
  "mem_env = \<lparr>env_platform = aligned_le, env_utf8 = std_simdutf8, env_transport = mem_transport,
     env_draw_mask = (\<lambda>g. (g, rotate_mask g))\<rparr>"

interpretation mem: sound_env mem_env mem_out
  by (rule sound_env.intro)
    (simp_all add: mem_env_def le.sound_platform_axioms std_utf8.utf8_validator_axioms mem.frame_source_axioms)

section \<open>The closing state machine\<close>

inductive conn_step :: "conn_state \<Rightarrow> conn_state \<Rightarrow> bool" where
  close_sent: "conn_step Active ClosedByUs"
| close_received: "conn_step Active ClosedByPeer"
| close_acknowledged: "conn_step ClosedByUs CloseAcknowledged"
| terminated: "conn_step c Terminated"

abbreviation conn_path :: "conn_state \<Rightarrow> conn_state \<Rightarrow> bool" where
  "conn_path \<equiv> conn_step\<^sup>*\<^sup>*"

inductive_cases conn_step_from: "conn_step c c'"
inductive_simps conn_step_simps [simp]:
  "conn_step Active c" "conn_step ClosedByUs c" "conn_step ClosedByPeer c" "conn_step CloseAcknowledged c"
  "conn_step Terminated c"

text \<open>How far a state is from \<open>Terminated\<close>: no step goes back.\<close>

fun conn_rank :: "conn_state \<Rightarrow> nat" where
  "conn_rank Active = 3"
| "conn_rank ClosedByUs = 2"
| "conn_rank ClosedByPeer = 1"
| "conn_rank CloseAcknowledged = 1"
| "conn_rank Terminated = 0"

lemma conn_step_rank: "conn_step c c' \<Longrightarrow> c' = Terminated \<or> conn_rank c' < conn_rank c"
  by (cases rule: conn_step.cases) auto

lemma conn_path_terminated: "conn_path Terminated c \<longleftrightarrow> c = Terminated"
  by (auto elim: converse_rtranclpE dest: rtranclp_induct[of conn_step Terminated c "\<lambda>c. c = Terminated"])

lemma conn_path_can_read: "conn_path c c' \<Longrightarrow> can_read c' \<Longrightarrow> can_read c"
  by (induction rule: rtranclp_induct) (auto simp: can_read_def elim: conn_step.cases)

lemma conn_path_active: "conn_path c c' \<Longrightarrow> is_active c' \<Longrightarrow> c = Active"
  by (induction rule: rtranclp_induct) (auto simp: is_active_def elim: conn_step.cases)

section \<open>The invariant\<close>

definition ws_decoder :: "('s, 'q, 'g) websocket \<Rightarrow> frame_decoder" where
  "ws_decoder s = fr_decoder (fc_inner (ws_codec s))"

text \<open>
  The limits leave room for one frame above a full message, so the sizes the code adds are
  sizes that fit; the default limits are far below.
\<close>

definition limits_ok :: "websocket_config \<Rightarrow> bool" where
  "limits_ok cfg \<longleftrightarrow> limit_of (max_message_size cfg) + limit_of (max_frame_size cfg) < 2 ^ 64"

definition decoder_set_up :: "role \<Rightarrow> websocket_config \<Rightarrow> frame_decoder \<Rightarrow> bool" where
  "decoder_set_up rl cfg d \<longleftrightarrow> decoder_ok d \<and> dec_unmask d = (rl = Server)
     \<and> dec_max_frame_size d = max_frame_size cfg \<and> dec_accept_unmasked d = accept_unmasked_frames cfg"

definition incomplete_ok :: "websocket_config \<Rightarrow> incomplete_message option \<Rightarrow> bool" where
  "incomplete_ok cfg inc \<longleftrightarrow> (\<forall>m. inc = Some m \<longrightarrow>
     (\<exists>ty input. message_rep m ty input \<and> length input \<le> limit_of (max_message_size cfg)))"

definition ws_inv :: "('s, 'q, 'g) websocket \<Rightarrow> bool" where
  "ws_inv s \<longleftrightarrow> limits_ok (ws_config s) \<and> decoder_set_up (ws_role s) (ws_config s) (ws_decoder s)
     \<and> incomplete_ok (ws_config s) (ws_incomplete s)"

text \<open>What a message handed to the user satisfies, and what its frame asks to send back.\<close>

fun message_ok :: "websocket_config \<Rightarrow> message \<Rightarrow> bool" where
  "message_ok cfg (MText t) \<longleftrightarrow> utf8_wf t \<and> length (utf8_raw t) \<le> limit_of (max_message_size cfg)"
| "message_ok cfg (MBinary d) \<longleftrightarrow> length d \<le> limit_of (max_message_size cfg)"
| "message_ok cfg (MPing d) \<longleftrightarrow> length d \<le> 125"
| "message_ok cfg (MPong d) \<longleftrightarrow> length d \<le> 125"
| "message_ok cfg (MClose c) \<longleftrightarrow>
     (\<forall>fr. c = Some fr \<longrightarrow> utf8_wf (close_reason fr) \<and> length (utf8_raw (close_reason fr)) \<le> 123)"
| "message_ok cfg (MFrame f) \<longleftrightarrow> False"

fun reply_rule :: "conn_state \<Rightarrow> message option \<Rightarrow> frame option \<Rightarrow> conn_state \<Rightarrow> bool" where
  "reply_rule c (Some (MPing d)) reply c' \<longleftrightarrow> c' = c \<and> reply = (if c = Active then Some (frame_pong d) else None)"
| "reply_rule c (Some (MClose x)) reply c' \<longleftrightarrow>
     c = Active \<and> c' = ClosedByPeer \<and> reply = Some (frame_close x)
   \<or> c = ClosedByUs \<and> c' = CloseAcknowledged \<and> reply = None"
| "reply_rule c msg reply c' \<longleftrightarrow> c' = c \<and> reply = None"

lemma reply_rule_step: "reply_rule c msg reply c' \<Longrightarrow> conn_path c c'"
  by (cases "(c, msg, reply, c')" rule: reply_rule.cases)
    (auto intro: r_into_rtranclp conn_step.intros)

text \<open>The parts of a connection that handling a frame leaves alone.\<close>

definition same_socket :: "('s, 'q, 'g) websocket \<Rightarrow> ('s, 'q, 'g) websocket \<Rightarrow> bool" where
  "same_socket s s' \<longleftrightarrow> ws_role s' = ws_role s \<and> ws_codec s' = ws_codec s \<and> ws_config s' = ws_config s
     \<and> ws_rng s' = ws_rng s"

lemma same_socket_refl [simp]: "same_socket s s"
  by (simp add: same_socket_def)

lemma same_socket_inv: "same_socket s s' \<Longrightarrow> ws_inv s' \<longleftrightarrow> limits_ok (ws_config s)
    \<and> decoder_set_up (ws_role s) (ws_config s) (ws_decoder s) \<and> incomplete_ok (ws_config s) (ws_incomplete s')"
  by (simp add: ws_inv_def same_socket_def ws_decoder_def)

text \<open>What handling a frame may give, from a state in which frames are read.\<close>

definition received_ok ::
  "('s, 'q, 'g) websocket \<Rightarrow> (('r, 'x) error, received) res \<times> ('s, 'q, 'g) websocket \<Rightarrow> bool" where
  "received_ok s res \<longleftrightarrow> (case res of (r, s') \<Rightarrow>
     same_socket s s' \<and> incomplete_ok (ws_config s) (ws_incomplete s') \<and> r \<noteq> Panic
     \<and> (\<forall>e. r = Err e \<longrightarrow> ws_conn s' = ws_conn s)
     \<and> (\<forall>msg reply. r = Ok (msg, reply) \<longrightarrow> reply_rule (ws_conn s) msg reply (ws_conn s')
          \<and> (\<forall>m. msg = Some m \<longrightarrow> message_ok (ws_config s) m)))"

section \<open>Handling a frame\<close>

lemma limit_of_header_ok:
  "header_ok d h n \<Longrightarrow> n \<le> limit_of (dec_max_frame_size d)"
  by (auto simp: header_ok_def limit_of_def split: option.splits)

lemma check_max_size_Ok: "(check_max_size n limit :: (('r, 'x) error, unit) res) = Ok u \<Longrightarrow> n < 2 ^ 64 \<Longrightarrow> n \<le> limit_of limit"
  by (auto simp: check_max_size_def limit_of_def split: option.splits if_splits)

lemma check_max_size_not_panic [simp]: "check_max_size n limit \<noteq> Panic"
  by (simp add: check_max_size_def split: option.split)

context utf8_validator
begin

lemma into_close_ok:
  assumes "frame_into_close sv f = Ok (Some fr)"
  shows "utf8_wf (close_reason fr) \<and> length (utf8_raw (close_reason fr)) + 2 = length (payload f)"
  using assms
  by (auto simp: frame_into_close_def utf8_try_from_def basic utf8_wf_def
      split: list.splits if_splits)

lemma into_close_not_panic: "frame_into_close sv f \<noteq> Panic"
  by (auto simp: frame_into_close_def utf8_try_from_def split: list.splits)

lemma into_text_ok: "(utf8_question sv (frame_into_text sv f) :: (('r, 'x) error, utf8_bytes) res) = Ok t \<Longrightarrow> utf8_wf t \<and> utf8_raw t = payload f"
  by (auto simp: frame_into_text_def utf8_try_from_def basic utf8_wf_def split: if_splits)

lemma into_text_not_panic: "utf8_question sv (frame_into_text sv f) \<noteq> (Panic :: (('r, 'x) error, utf8_bytes) res)"
  by (auto simp: frame_into_text_def utf8_try_from_def)

end

lemma valid_protocol_violation: "utf8_wf (utf8_from_static ''Protocol violation'')"
  by (simp add: utf8_wf_def utf8_from_static_def ascii_def std_from_utf8_step utf8_char_width_def)

text \<open>Close codes the library would not send are answered with a protocol error.\<close>

definition close_answer :: "conn_state \<Rightarrow> close_frame option \<Rightarrow> close_frame option" where
  "close_answer c close = (if c = Active then
       map_option (\<lambda>fr. if \<not> close_code_is_allowed (close_code fr)
             then \<lparr>close_code = Code_Protocol, close_reason = utf8_from_static ''Protocol violation''\<rparr>
             else fr) close
     else close)"

lemma do_close_eq:
  assumes "can_read (ws_conn s)"
  shows "do_close close s =
    (Ok (Some (close_answer (ws_conn s) close),
         if ws_conn s = Active then Some (frame_close (close_answer (ws_conn s) close)) else None),
     s\<lparr>ws_conn := if ws_conn s = Active then ClosedByPeer else CloseAcknowledged\<rparr>)"
  using assms by (auto simp: do_close_def can_read_def close_answer_def Let_def)

lemma close_answer_ok:
  assumes "\<forall>fr. close = Some fr \<longrightarrow> utf8_wf (close_reason fr) \<and> length (utf8_raw (close_reason fr)) \<le> 123"
  shows "message_ok cfg (MClose (close_answer c close))"
proof -
  have "length (utf8_raw (utf8_from_static ''Protocol violation'')) \<le> 123"
    by (simp add: utf8_from_static_def)
  then show ?thesis
    using assms valid_protocol_violation by (auto simp: close_answer_def)
qed

context utf8_validator
begin

lemma handle_control_ok:
  assumes "can_read (ws_conn s)" "incomplete_ok (ws_config s) (ws_incomplete s)"
  shows "received_ok s (handle_control sv ctl f s :: (('r, 'x) error, received) res \<times> _)"
proof (cases "is_final (header f) \<and> length (payload f) \<le> 125 \<and> ctl = OpClose")
  case False
  then show ?thesis
    using assms(2)
    by (cases ctl) (auto simp: handle_control_def received_ok_def is_active_def frame_into_payload_def)
next
  case True
  show ?thesis
  proof (cases "frame_into_close sv f :: (('r, 'x) error, close_frame option) res")
    case (Ok c)
    have "message_ok (ws_config s) (MClose (close_answer (ws_conn s) c))"
      by (rule close_answer_ok) (use into_close_ok[of f] Ok True in fastforce)
    moreover have "ws_conn s = Active \<or> ws_conn s = ClosedByUs"
      using assms(1) by (simp add: can_read_def)
    ultimately show ?thesis
      using True Ok assms(2)
      by (simp add: handle_control_def received_ok_def do_close_eq[OF assms(1)] same_socket_def
          del: message_ok.simps) auto
  next
    case (Err e)
    then show ?thesis
      using True assms(2) by (simp add: handle_control_def received_ok_def)
  next
    case Panic
    then show ?thesis using into_close_not_panic by blast
  qed
qed

end

context utf8_validator
begin

lemma handle_first_fragment_ok:
  assumes "d = OpText \<or> d = OpBinary" "length (payload f) < 2 ^ 64"
    and "incomplete_ok (ws_config s) (ws_incomplete s)"
    and "handle_first_fragment sv d f s = (r :: (('r, 'x) error, message option) res, s')"
  shows "same_socket s s' \<and> ws_conn s' = ws_conn s \<and> incomplete_ok (ws_config s) (ws_incomplete s')
    \<and> r \<noteq> Panic \<and> (\<forall>msg. r = Ok msg \<longrightarrow> msg = None)"
proof -
  define ty where "ty = (if d = OpText then IncText else IncBinary)"
  let ?limit = "max_message_size (ws_config s)"
  obtain q m where q: "incomplete_message_extend sv (incomplete_message_new ty) (payload f) ?limit
      = (q :: (('r, 'x) error, unit) res, m)"
    by (cases "incomplete_message_extend sv (incomplete_message_new ty) (payload f) ?limit
      :: (('r, 'x) error, unit) res \<times> _") auto
  have step: "handle_first_fragment sv d f s = bind_st (q, s) (\<lambda>_ s2. (Ok None, s2\<lparr>ws_incomplete := Some m\<rparr>))"
    using assms(1) q
    by (auto simp: handle_first_fragment_def ty_def frame_into_payload_def)
  have "(\<exists>kept. message_rep m ty kept \<and> length kept \<le> limit_of ?limit) \<and> q \<noteq> Panic"
    using extend_keeps[OF message_rep_new, of "payload f" ?limit ty q m] assms(2) q by simp
  then have "incomplete_ok (ws_config s) (Some m)" "q \<noteq> Panic"
    unfolding incomplete_ok_def by blast+
  then show ?thesis
    using assms(3,4) step
    by (cases q) (auto simp: same_socket_def)
qed

lemma complete_message_ok:
  assumes "message_rep m ty input" "length input \<le> limit_of (max_message_size cfg)"
    and "incomplete_message_complete m = (Ok msg :: (('r, 'x) error, message) res)"
  shows "message_ok cfg msg \<and> msg = message_of ty input"
proof -
  have "content_ok ty input \<and> msg = message_of ty input"
    using assms(3) complete_rep(1)[OF assms(1), of msg, where ?'r = 'r and ?'x = 'x] by simp
  then show ?thesis using assms(2) by (cases ty) (auto simp: content_ok_def utf8_wf_def)
qed

text \<open>Data frames give text and binary messages, which ask for no reply.\<close>

definition data_ok ::
  "('s, 'q, 'g) websocket \<Rightarrow> (('r, 'x) error, message option) res \<times> ('s, 'q, 'g) websocket \<Rightarrow> bool" where
  "data_ok s res \<longleftrightarrow> (case res of (r, s') \<Rightarrow>
     same_socket s s' \<and> ws_conn s' = ws_conn s \<and> incomplete_ok (ws_config s) (ws_incomplete s') \<and> r \<noteq> Panic
     \<and> (\<forall>m. r = Ok (Some m) \<longrightarrow> message_ok (ws_config s) m \<and> (message_is_text m \<or> message_is_binary m)))"

lemma handle_continue_ok:
  assumes inc: "incomplete_ok (ws_config s) (ws_incomplete s)"
    and len: "limit_of (max_message_size (ws_config s)) + length (payload f) < 2 ^ 64"
  shows "data_ok s (handle_continue sv f s :: (('r, 'x) error, message option) res \<times> _)"
proof (cases "ws_incomplete s")
  case None
  then show ?thesis by (simp add: handle_continue_def data_ok_def incomplete_ok_def)
next
  case (Some m)
  let ?limit = "max_message_size (ws_config s)"
  obtain ty input where rep: "message_rep m ty input" "length input \<le> limit_of ?limit"
    using inc Some by (auto simp: incomplete_ok_def)
  have total: "length (input @ payload f) < 2 ^ 64" using rep(2) len by simp
  obtain q m' where q: "incomplete_message_extend sv m (payload f) ?limit = (q :: (('r, 'x) error, unit) res, m')"
    by (cases "incomplete_message_extend sv m (payload f) ?limit :: (('r, 'x) error, unit) res \<times> _") auto
  obtain kept where kept: "message_rep m' ty kept" "length kept \<le> limit_of ?limit" "q \<noteq> Panic"
    using extend_keeps[OF rep(1) total rep(2) q] by blast
  then have kept_ok: "incomplete_ok (ws_config s) (Some m')"
    unfolding incomplete_ok_def by blast
  note complete = complete_rep(2)[OF kept(1), where ?'r = 'r and ?'x = 'x]
    and msg = complete_message_ok[OF kept(1,2), where ?'r = 'r and ?'x = 'x]
  have step: "handle_continue sv f s = bind_st (q, s\<lparr>ws_incomplete := Some m'\<rparr>) (\<lambda>_ s1.
      if is_final (header f)
      then bind_st (incomplete_message_complete m', s1\<lparr>ws_incomplete := None\<rparr>) (\<lambda>msg s2. (Ok (Some msg), s2))
      else (Ok None, s1))"
    using Some q by (simp add: handle_continue_def frame_into_payload_def)
  show ?thesis
  proof (cases "q = Ok () \<and> is_final (header f)")
    case True
    then show ?thesis
      using complete msg kept(1)
      by (cases "incomplete_message_complete m' :: (('r, 'x) error, message) res"; cases ty)
        (auto simp: data_ok_def step same_socket_def incomplete_ok_def)
  next
    case False
    then show ?thesis
      using kept(3) kept_ok by (cases q) (auto simp: data_ok_def step same_socket_def)
  qed
qed

lemma handle_data_ok:
  assumes inc: "incomplete_ok (ws_config s) (ws_incomplete s)"
    and len: "limit_of (max_message_size (ws_config s)) + length (payload f) < 2 ^ 64"
  shows "data_ok s (handle_data sv d f s :: (('r, 'x) error, message option) res \<times> _)"
proof -
  have size: "length (payload f) < 2 ^ 64" using len by simp
  let ?limit = "max_message_size (ws_config s)"
  have whole: "data_ok s (bind_st (check_max_size (length (payload f)) ?limit, s) (\<lambda>_ s1.
      bind_st (utf8_question sv (frame_into_text sv f), s1) (\<lambda>t s2. (Ok (Some (MText t)), s2)))
        :: (('r, 'x) error, message option) res \<times> _)"
    using inc size into_text_ok[of f, where ?'r = 'r and ?'x = 'x] into_text_not_panic[of f, where ?'r = 'r and ?'x = 'x]
      check_max_size_Ok[of "length (payload f)" ?limit "()", where ?'r = 'r and ?'x = 'x]
    by (cases "check_max_size (length (payload f)) ?limit :: (('r, 'x) error, unit) res";
        cases "utf8_question sv (frame_into_text sv f) :: (('r, 'x) error, utf8_bytes) res")
      (auto simp: data_ok_def)
  have binary: "data_ok s (bind_st (check_max_size (length (payload f)) ?limit, s) (\<lambda>_ s1.
      (Ok (Some (MBinary (frame_into_payload f))), s1)) :: (('r, 'x) error, message option) res \<times> _)"
    using inc size check_max_size_Ok[of "length (payload f)" ?limit "()", where ?'r = 'r and ?'x = 'x]
    by (cases "check_max_size (length (payload f)) ?limit :: (('r, 'x) error, unit) res")
      (auto simp: data_ok_def frame_into_payload_def)
  have first: "data_ok s (handle_first_fragment sv e f s :: (('r, 'x) error, message option) res \<times> _)"
    if "e = OpText \<or> e = OpBinary" for e
    using handle_first_fragment_ok[OF that size inc, where ?'r = 'r and ?'x = 'x]
    by (cases "handle_first_fragment sv e f s :: (('r, 'x) error, message option) res \<times> _")
      (auto simp: data_ok_def)
  show ?thesis
    using handle_continue_ok[OF inc len, where ?'r = 'r and ?'x = 'x] whole binary first inc
    by (cases d) (auto simp: handle_data_def data_ok_def[of s "(Err e, s)" for e] Let_def)
qed

lemma accept_frame_ok:
  assumes inv: "ws_inv s" and f: "frame_ok (ws_decoder s) f"
  shows "received_ok s (accept_frame sv f s :: (('r, 'x) error, received) res \<times> _)"
proof -
  have inc: "incomplete_ok (ws_config s) (ws_incomplete s)" using inv by (simp add: ws_inv_def)
  have "length (payload f) \<le> limit_of (max_frame_size (ws_config s))"
    using f inv limit_of_header_ok[of "ws_decoder s" "header f"]
    by (simp add: frame_ok_def ws_inv_def decoder_set_up_def)
  then have len: "limit_of (max_message_size (ws_config s)) + length (payload f) < 2 ^ 64"
    using inv by (simp add: ws_inv_def limits_ok_def)
  have err: "received_ok s (Err e, s)" for e :: "('r, 'x) error"
    using inc by (simp add: received_ok_def)
  have "received_ok s (handle_frame sv f s :: (('r, 'x) error, received) res \<times> _)" if "can_read (ws_conn s)"
  proof (cases "opcode (header f)")
    case (OpControl ctl)
    then show ?thesis using handle_control_ok[OF that inc] by (simp add: handle_frame_def)
  next
    case (OpData d)
    obtain r s' where h: "handle_data sv d f s = (r :: (('r, 'x) error, message option) res, s')"
      by (cases "handle_data sv d f s :: (('r, 'x) error, message option) res \<times> _") auto
    have ok: "data_ok s (r, s')" using handle_data_ok[OF inc len, of d, where ?'r = 'r and ?'x = 'x] h by simp
    show ?thesis
    proof (cases "\<exists>m. r = Ok (Some m)")
      case True
      then obtain m where "r = Ok (Some m)" by blast
      then show ?thesis
        using ok h OpData by (cases m) (auto simp: handle_frame_def received_ok_def data_ok_def)
    next
      case False
      then show ?thesis
        using ok h OpData by (cases r) (auto simp: handle_frame_def received_ok_def data_ok_def)
    qed
  qed
  then show ?thesis using err by (simp add: accept_frame_def)
qed

end

section \<open>The operations\<close>

text \<open>What writing leaves alone.\<close>

definition same_reading :: "('s, 'q, 'g) websocket \<Rightarrow> ('s, 'q, 'g) websocket \<Rightarrow> bool" where
  "same_reading s s' \<longleftrightarrow> ws_role s' = ws_role s \<and> ws_config s' = ws_config s
     \<and> ws_incomplete s' = ws_incomplete s \<and> same_reader (ws_codec s) (ws_codec s')"

lemma same_reading_refl [simp]: "same_reading s s"
  by (simp add: same_reading_def)

lemma same_reading_trans: "same_reading a b \<Longrightarrow> same_reading b c \<Longrightarrow> same_reading a c"
  by (auto simp: same_reading_def intro: same_reader_trans)

lemma same_reading_inv: "same_reading s s' \<Longrightarrow> ws_inv s' \<longleftrightarrow> ws_inv s"
  by (simp add: ws_inv_def same_reading_def ws_decoder_def same_reader_def)

text \<open>A frame as it goes on the wire: a client's is masked.\<close>

definition sent_as :: "role \<Rightarrow> frame \<Rightarrow> frame \<Rightarrow> bool" where
  "sent_as rl f f' \<longleftrightarrow> (if rl = Client then \<exists>m. f' = frame_set_mask m f else f' = f)"

definition ws_outgoing :: "('s \<Rightarrow> bytes) \<Rightarrow> ('s, 'q, 'g) websocket \<Rightarrow> bytes" where
  "ws_outgoing sent s = outgoing sent (ws_codec s)"

definition transport_error :: "('r, 'x) error \<Rightarrow> bool" where
  "transport_error e \<longleftrightarrow> e = ConnectionClosed \<or> (\<exists>k. e = Io k)"

lemma check_reset_simps [simp]:
  "check_connection_reset c (Ok a) = Ok a"
  "check_connection_reset c r = Panic \<longleftrightarrow> r = Panic"
  "check_connection_reset c r = Ok a \<longleftrightarrow> r = Ok a"
  by (cases "(c, r)" rule: check_connection_reset.cases; simp)+

lemma check_reset_Err:
  "check_connection_reset c r = Err e \<Longrightarrow> \<exists>e'. r = Err e' \<and> (e = e' \<or> e = ConnectionClosed \<and> (\<exists>k. e' = Io k))"
  by (cases "(c, r)" rule: check_connection_reset.cases) (auto split: if_splits)

sublocale sound_env \<subseteq> io: frame_source "env_transport env" sent
  by (rule transport_sound)

context sound_env
begin

lemma write_frame_ok:
  assumes "write_frame env f s = (r, s')"
  shows "same_reading s s' \<and> ws_conn s' = ws_conn s \<and> r \<noteq> Panic \<and> (\<forall>e. r = Err e \<longrightarrow> transport_error e)
    \<and> (r = Ok () \<longrightarrow> (\<exists>f'. sent_as (ws_role s) f f'
          \<and> ws_outgoing sent s' = ws_outgoing sent s @ frame_bytes (env_platform env) f'))"
proof -
  define f' s1 where "f' = (if ws_role s = Client then frame_set_mask (fst (env_draw_mask env (ws_rng s))) f else f)"
    and "s1 = (if ws_role s = Client then s\<lparr>ws_rng := snd (env_draw_mask env (ws_rng s))\<rparr> else s)"
  have s1: "same_reading s s1" "ws_conn s1 = ws_conn s" "ws_codec s1 = ws_codec s" "ws_role s1 = ws_role s"
    by (auto simp: s1_def same_reading_def)
  have "sent_as (ws_role s) f f'" by (auto simp: sent_as_def f'_def simp del: split_paired_Ex)
  obtain q fc where q: "codec_send (env_platform env) (env_transport env) f' (ws_codec s) = (q :: (('r, 'x) error, unit) res, fc)"
    by (cases "codec_send (env_platform env) (env_transport env) f' (ws_codec s) :: (('r, 'x) error, unit) res \<times> _") auto
  have w: "write_frame env f s = bind_st (check_connection_reset (ws_conn s) q, s1\<lparr>ws_codec := fc\<rparr>) (\<lambda>_ s3. (Ok (), s3))"
    using q s1 by (auto simp: write_frame_def on_codec_def f'_def s1_def split: prod.splits)
  note send = io.send_ok[OF q]
  have same: "same_reading s (s1\<lparr>ws_codec := fc\<rparr>)"
    using s1 send(1) by (simp add: same_reading_def)
  show ?thesis
  proof (cases q)
    case (Ok u)
    then show ?thesis
      using assms w same s1 send(3) \<open>sent_as (ws_role s) f f'\<close> by (auto simp: ws_outgoing_def)
  next
    case (Err e)
    then obtain k where "q = Err (Io k)" using send(4) by auto
    then show ?thesis
      using assms w same s1 by (auto simp: transport_error_def split: if_splits)
  next
    case Panic
    then show ?thesis using send(2) by simp
  qed
qed

lemma on_codec_flush_ok:
  assumes "on_codec (codec_flush (env_transport env)) s = (r :: (('r, 'x) error, unit) res, s')"
  shows "same_reading s s' \<and> ws_conn s' = ws_conn s \<and> r \<noteq> Panic \<and> (\<forall>e. r = Err e \<longrightarrow> transport_error e)
    \<and> (r = Ok () \<longrightarrow> fc_write_buf (ws_codec s') = [] \<and> ws_outgoing sent s' = ws_outgoing sent s)"
proof -
  obtain fc where fc: "codec_flush (env_transport env) (ws_codec s) = (r, fc)" "s' = s\<lparr>ws_codec := fc\<rparr>"
    using assms by (auto simp: on_codec_def split: prod.splits)
  note fl = io.flush_ok[OF fc(1)]
  show ?thesis
    using fl fc(2) by (auto simp: same_reading_def ws_outgoing_def outgoing_def transport_error_def)
qed

lemma on_codec_close_ok:
  assumes "on_codec (codec_close (env_transport env)) s = (r :: (('r, 'x) error, unit) res, s')"
  shows "same_reading s s' \<and> ws_conn s' = ws_conn s \<and> r \<noteq> Panic \<and> (\<forall>e. r = Err e \<longrightarrow> transport_error e)
    \<and> (r = Ok () \<longrightarrow> fc_write_buf (ws_codec s') = [] \<and> ws_outgoing sent s' = ws_outgoing sent s)"
proof -
  obtain fc where fc: "codec_close (env_transport env) (ws_codec s) = (r, fc)" "s' = s\<lparr>ws_codec := fc\<rparr>"
    using assms by (auto simp: on_codec_def split: prod.splits)
  note cl = io.close_ok[OF fc(1)]
  show ?thesis
    using cl fc(2) by (auto simp: same_reading_def ws_outgoing_def outgoing_def transport_error_def)
qed

lemma ws_flush_ok:
  assumes "ws_flush env s = (r, s')"
  shows "same_reading s s' \<and> r \<noteq> Panic \<and> (\<forall>e. r = Err e \<longrightarrow> transport_error e)
    \<and> ws_conn s' = (if ws_role s = Server \<and> \<not> can_read (ws_conn s) then Terminated else ws_conn s)
    \<and> (r = Ok () \<longrightarrow> fc_write_buf (ws_codec s') = [] \<and> ws_outgoing sent s' = ws_outgoing sent s
         \<and> ws_conn s' = ws_conn s)"
proof (cases "ws_role s = Server \<and> \<not> can_read (ws_conn s)")
  case True
  let ?s = "s\<lparr>ws_conn := Terminated\<rparr>"
  obtain q s1 where q: "on_codec (codec_close (env_transport env)) ?s = (q :: (('r, 'x) error, unit) res, s1)"
    by (cases "on_codec (codec_close (env_transport env)) ?s :: (('r, 'x) error, unit) res \<times> _") auto
  have "same_reading s ?s" by (simp add: same_reading_def)
  then show ?thesis
    using on_codec_close_ok[OF q] assms True q same_reading_trans[of s ?s s1]
    by (cases q) (auto simp: ws_flush_def transport_error_def)
next
  case False
  obtain q s1 where q: "on_codec (codec_flush (env_transport env)) s = (q :: (('r, 'x) error, unit) res, s1)"
    by (cases "on_codec (codec_flush (env_transport env)) s :: (('r, 'x) error, unit) res \<times> _") auto
  then show ?thesis
    using on_codec_flush_ok[OF q] assms False by (cases q) (auto simp: ws_flush_def)
qed

lemma ws_close_ok:
  assumes "ws_close env code s = (r, s')"
  shows "same_reading s s' \<and> r \<noteq> Panic \<and> (\<forall>e. r = Err e \<longrightarrow> transport_error e)
    \<and> conn_path (ws_conn s) (ws_conn s') \<and> ws_conn s' \<noteq> Active \<and> (ws_conn s = Active \<longrightarrow> ws_conn s' = ClosedByUs)
    \<and> (r = Ok () \<longrightarrow> fc_write_buf (ws_codec s') = []
         \<and> (if ws_conn s = Active
            then ws_conn s' = ClosedByUs \<and> (\<exists>f'. sent_as (ws_role s) (frame_close code) f'
              \<and> ws_outgoing sent s' = ws_outgoing sent s @ frame_bytes (env_platform env) f')
            else ws_conn s' = ws_conn s \<and> ws_outgoing sent s' = ws_outgoing sent s))"
proof (cases "ws_conn s = Active")
  case False
  have "conn_path (ws_conn s) Terminated" by (intro r_into_rtranclp conn_step.intros)
  then show ?thesis
    using False assms ws_flush_ok[of s r s'] by (auto simp: ws_close_def)
next
  case True
  let ?s = "s\<lparr>ws_conn := ClosedByUs\<rparr>"
  obtain q s1 where q: "write_frame env (frame_close code) ?s = (q, s1)"
    by (cases "write_frame env (frame_close code) ?s") auto
  have s: "same_reading s ?s" "ws_outgoing sent ?s = ws_outgoing sent s"
    by (simp_all add: same_reading_def ws_outgoing_def)
  have path: "conn_path Active ClosedByUs" by (intro r_into_rtranclp conn_step.intros)
  note w = write_frame_ok[OF q]
  show ?thesis
  proof (cases q)
    case (Ok u)
    then have fl: "ws_flush env s1 = (r, s')" using assms True q by (simp add: ws_close_def)
    have "can_read (ws_conn s1)" using w by (simp add: can_read_def)
    then show ?thesis
      using ws_flush_ok[OF fl] w Ok s path True same_reading_trans by (auto; blast)
  next
    case (Err e)
    then show ?thesis
      using assms True q w path same_reading_trans[OF s(1)] by (auto simp: ws_close_def)
  next
    case Panic
    then show ?thesis using w by simp
  qed
qed

lemma next_frame_ok:
  assumes inv: "ws_inv s" and next': "codec_next (env_platform env) (env_transport env) (ws_codec s) = (res, fc)"
  shows "ws_inv (s\<lparr>ws_codec := fc\<rparr>)" and "res \<noteq> Some Panic"
    and "res = Some (Ok f) \<Longrightarrow> frame_ok (ws_decoder (s\<lparr>ws_codec := fc\<rparr>)) f"
    and "ws_outgoing sent (s\<lparr>ws_codec := fc\<rparr>) = ws_outgoing sent s"
    and "fc_write_buf fc = fc_write_buf (ws_codec s)"
proof -
  let ?s = "s\<lparr>ws_codec := fc\<rparr>"
  have d: "decoder_ok (ws_decoder s)" using inv by (simp add: ws_inv_def decoder_set_up_def)
  note nx = codec_next_ok[OF transport_sound platform_sound next' ws_decoder_def d]
  show "ws_inv ?s"
    using inv nx(4)[of "ws_decoder ?s"] by (simp add: ws_inv_def decoder_set_up_def ws_decoder_def)
  show "frame_ok (ws_decoder ?s) f" if "res = Some (Ok f)"
    using nx(3)[OF that] nx(4)[of "ws_decoder ?s"] by (simp add: frame_ok_def header_ok_def ws_decoder_def)
  show "ws_outgoing sent ?s = ws_outgoing sent s" using nx(1) by (simp add: ws_outgoing_def)
  show "fc_write_buf fc = fc_write_buf (ws_codec s)"
    using next' by (auto simp: codec_next_def split: prod.splits)
qed (rule codec_next_ok(2)[OF transport_sound platform_sound next' ws_decoder_def],
  use inv in \<open>simp add: ws_inv_def decoder_set_up_def\<close>)

lemma read_message_frame_ok:
  assumes inv: "ws_inv s" and read: "read_message_frame env s = (r, s')"
  shows "ws_inv s' \<and> ws_role s' = ws_role s \<and> ws_config s' = ws_config s \<and> r \<noteq> Panic
    \<and> ws_outgoing sent s' = ws_outgoing sent s \<and> fc_write_buf (ws_codec s') = fc_write_buf (ws_codec s)
    \<and> (\<forall>e. r = Err e \<longrightarrow> ws_conn s' = ws_conn s \<or> ws_conn s' = Terminated)
    \<and> (\<forall>msg reply. r = Ok (msg, reply) \<longrightarrow> can_read (ws_conn s) \<and> reply_rule (ws_conn s) msg reply (ws_conn s')
         \<and> (\<forall>m. msg = Some m \<longrightarrow> message_ok (ws_config s) m))"
proof -
  obtain res fc where next': "codec_next (env_platform env) (env_transport env) (ws_codec s) = (res, fc)"
    by (cases "codec_next (env_platform env) (env_transport env) (ws_codec s)") auto
  let ?s = "s\<lparr>ws_codec := fc\<rparr>"
  note nx = next_frame_ok[OF inv next']
  have same: "ws_role ?s = ws_role s" "ws_config ?s = ws_config s" "ws_conn ?s = ws_conn s"
    "ws_outgoing sent ?s = ws_outgoing sent s"
    using nx(4) by simp_all
  have step: "read_message_frame env s = bind_st (check_connection_reset (ws_conn s) (transpose res), ?s) (\<lambda>item s2.
        case item of Some f \<Rightarrow> accept_frame (env_utf8 env) f s2 | None \<Rightarrow> end_of_stream s2)"
    using next' by (simp add: read_message_frame_def on_codec_def)
  show ?thesis
  proof (cases "\<exists>f. res = Some (Ok f)")
    case True
    then obtain f where f: "res = Some (Ok f)" by blast
    obtain q t where q: "accept_frame (env_utf8 env) f ?s = (q :: (('r, 'x) error, received) res, t)"
      by (cases "accept_frame (env_utf8 env) f ?s :: (('r, 'x) error, received) res \<times> _") auto
    have "received_ok ?s (accept_frame (env_utf8 env) f ?s :: (('r, 'x) error, received) res \<times> _)"
      using utf8_validator.accept_frame_ok[OF utf8_sound nx(1) nx(3)[OF f]] .
    moreover have "can_read (ws_conn s)" if "q = Ok (msg, reply)" for msg reply
      using q that by (auto simp: accept_frame_def split: if_splits)
    ultimately show ?thesis
      using read step f q same nx(1,5)
      by (auto simp: received_ok_def same_socket_inv ws_inv_def ws_outgoing_def same_socket_def ws_decoder_def)
  next
    case False
    then consider "res = None" | e where "res = Some (Err e)"
      using nx(2) by (metis option.exhaust res.exhaust)
    then show ?thesis
    proof cases
      case 1
      then show ?thesis
        using read step same nx(1,5)
        by (auto simp: end_of_stream_def ws_inv_def ws_decoder_def ws_outgoing_def split: if_splits)
    next
      case (2 e)
      obtain e' where "check_connection_reset (ws_conn s) (Err e :: (('r, 'x) error, frame option) res) = Err e'"
        by (cases e) auto
      then show ?thesis
        using 2 read step same nx(1,5) by (auto simp: ws_outgoing_def)
    qed
  qed
qed

end

section \<open>Reading\<close>

text \<open>
  \<open>read\<close> goes through turns of its loop that give no message, and ends in one that gives a
  message or fails.
\<close>

declare read_loop.simps [simp del]

inductive quiet :: "('s, 'q, 'g, 'r, 'x) env \<Rightarrow> ('s, 'q, 'g) websocket \<Rightarrow> ('s, 'q, 'g) websocket \<Rightarrow> bool" for env where
  quiet_refl: "quiet env s s"
| quiet_step: "read_message_frame env s = (Ok (None, reply), s1) \<Longrightarrow> auto_send env reply s1 = (Ok u, s2)
    \<Longrightarrow> quiet env s2 s3 \<Longrightarrow> quiet env s s3"

inductive last_turn ::
  "('s, 'q, 'g, 'r, 'x) env \<Rightarrow> ('s, 'q, 'g) websocket \<Rightarrow> (('r, 'x) error, message) res \<Rightarrow> ('s, 'q, 'g) websocket \<Rightarrow> bool"
  for env where
  read_panic: "read_message_frame env s = (Panic, s1) \<Longrightarrow> last_turn env s Panic s1"
| read_fails: "read_message_frame env s = (Err e, s1) \<Longrightarrow> last_turn env s (Err e) s1"
| send_panic: "read_message_frame env s = (Ok (msg, reply), s1) \<Longrightarrow> auto_send env reply s1 = (Panic, s2)
    \<Longrightarrow> last_turn env s Panic s2"
| send_fails: "read_message_frame env s = (Ok (msg, reply), s1) \<Longrightarrow> auto_send env reply s1 = (Err e, s2)
    \<Longrightarrow> last_turn env s (Err e) s2"
| got_message: "read_message_frame env s = (Ok (Some m, reply), s1) \<Longrightarrow> auto_send env reply s1 = (Ok u, s2)
    \<Longrightarrow> last_turn env s (Ok m) s2"

text \<open>The reply to a message, if any, is on the wire.\<close>

definition replied :: "('s, 'q, 'g, 'r, 'x) env \<Rightarrow> ('s \<Rightarrow> bytes) \<Rightarrow> ('s, 'q, 'g) websocket \<Rightarrow> frame option
    \<Rightarrow> ('s, 'q, 'g) websocket \<Rightarrow> bool" where
  "replied env sent s reply s' \<longleftrightarrow> (case reply of None \<Rightarrow> ws_outgoing sent s' = ws_outgoing sent s
     | Some f \<Rightarrow> fc_write_buf (ws_codec s') = [] \<and> (\<exists>f'. sent_as (ws_role s) f f'
         \<and> ws_outgoing sent s' = ws_outgoing sent s @ frame_bytes (env_platform env) f'))"

lemma read_loop_turns:
  assumes "read_loop env s = Some (r, s')"
  shows "\<exists>s1. quiet env s s1 \<and> last_turn env s1 r s'"
proof -
  have "\<forall>r s'. res = (r, s') \<longrightarrow> (\<exists>s1. quiet env s s1 \<and> last_turn env s1 r s')"
    if "read_loop env s = Some res" for res
  proof (rule read_loop.raw_induct[OF _ that], goal_cases)
    case (1 loop env s res)
    obtain q s1 where q: "read_message_frame env s = (q, s1)" by (cases "read_message_frame env s")
    show ?case
    proof (cases "\<exists>msg reply. q = Ok (msg, reply)")
      case False
      then show ?thesis
        using 1(2) q quiet_refl[of env s] read_panic[of env s s1] read_fails[of env s _ s1] by (cases q) auto
    next
      case True
      then obtain msg reply where m: "q = Ok (msg, reply)" by blast
      obtain a s2 where a: "auto_send env reply s1 = (a, s2)" by (cases "auto_send env reply s1")
      show ?thesis
      proof (cases "a = Ok () \<and> msg = None")
        case True
        then have "loop env s2 = Some res" using 1(2) q m a by simp
        then have "\<forall>r s'. res = (r, s') \<longrightarrow> (\<exists>s3. quiet env s2 s3 \<and> last_turn env s3 r s')"
          by (rule 1(1))
        moreover have "quiet env s2 s3 \<Longrightarrow> quiet env s s3" for s3
          using quiet_step[of env s reply s1 "()" s2 s3] q m a True by simp
        ultimately show ?thesis by blast
      next
        case False
        then show ?thesis
          using 1(2) q m a quiet_refl[of env s] got_message[of env s _ reply s1 "()" s2]
            send_panic[of env s msg reply s1 s2] send_fails[of env s msg reply s1 _ s2]
          by (cases a; cases msg) auto
      qed
    qed
  qed
  with assms show ?thesis by blast
qed

context sound_env
begin

lemma auto_send_ok:
  assumes "auto_send env reply s = (r, s')"
  shows "same_reading s s' \<and> ws_conn s' = ws_conn s \<and> r \<noteq> Panic \<and> (\<forall>e. r = Err e \<longrightarrow> transport_error e)
    \<and> (r = Ok () \<longrightarrow> (case reply of None \<Rightarrow> s' = s
        | Some f \<Rightarrow> fc_write_buf (ws_codec s') = [] \<and> (\<exists>f'. sent_as (ws_role s) f f'
            \<and> ws_outgoing sent s' = ws_outgoing sent s @ frame_bytes (env_platform env) f')))"
proof (cases reply)
  case None
  then show ?thesis using assms by (auto simp: auto_send_def)
next
  case (Some f)
  obtain q s1 where q: "write_frame env f s = (q, s1)" by (cases "write_frame env f s")
  note w = write_frame_ok[OF q]
  show ?thesis
  proof (cases q)
    case (Ok u)
    then have "on_codec (codec_flush (env_transport env)) s1 = (r, s')"
      using assms Some q by (simp add: auto_send_def)
    then show ?thesis
      using on_codec_flush_ok[of s1 r s'] w Ok Some same_reading_trans[of s s1 s'] by auto
  next
    case (Err e)
    then show ?thesis using assms Some q w by (auto simp: auto_send_def)
  next
    case Panic
    then show ?thesis using w by simp
  qed
qed

text \<open>A quiet turn changes nothing but what has been received.\<close>

lemma quiet_ok:
  assumes "quiet env s s'" "ws_inv s"
  shows "ws_inv s' \<and> ws_role s' = ws_role s \<and> ws_config s' = ws_config s \<and> ws_conn s' = ws_conn s
    \<and> ws_outgoing sent s' = ws_outgoing sent s \<and> fc_write_buf (ws_codec s') = fc_write_buf (ws_codec s)"
  using assms
proof (induction rule: quiet.induct)
  case (quiet_step s reply s1 u s2 s3)
  note rd = read_message_frame_ok[OF quiet_step.prems quiet_step.hyps(1)]
  then have "reply = None" by simp
  then have "s2 = s1" using quiet_step.hyps(2) by (simp add: auto_send_def)
  then show ?case using quiet_step.IH rd \<open>reply = None\<close> by simp
qed simp

lemma last_turn_ok:
  assumes "last_turn env s r s'" "ws_inv s"
  shows "ws_inv s' \<and> ws_role s' = ws_role s \<and> ws_config s' = ws_config s \<and> r \<noteq> Panic
    \<and> conn_path (ws_conn s) (ws_conn s')
    \<and> (\<forall>m. r = Ok m \<longrightarrow> can_read (ws_conn s) \<and> message_ok (ws_config s) m
         \<and> (\<exists>reply. reply_rule (ws_conn s) (Some m) reply (ws_conn s') \<and> replied env sent s reply s'))
    \<and> (\<forall>e. r = Err e \<longrightarrow> transport_error e
         \<or> ws_outgoing sent s' = ws_outgoing sent s \<and> (ws_conn s' = ws_conn s \<or> ws_conn s' = Terminated))"
  using assms
proof (cases rule: last_turn.cases)
  case read_panic
  then show ?thesis using read_message_frame_ok[OF assms(2)] by blast
next
  case (read_fails e)
  have "conn_path (ws_conn s) Terminated" by (intro r_into_rtranclp conn_step.intros)
  then show ?thesis using read_message_frame_ok[OF assms(2) read_fails(2)] read_fails(1) by auto
next
  case (send_panic msg reply s1)
  then show ?thesis using auto_send_ok by blast
next
  case (send_fails msg reply s1 e)
  note rd = read_message_frame_ok[OF assms(2) send_fails(2)] and au = auto_send_ok[OF send_fails(3)]
  have "conn_path (ws_conn s) (ws_conn s1)" using rd reply_rule_step by blast
  then show ?thesis
    using rd au send_fails(1) same_reading_inv[of s1 s'] by (auto simp: same_reading_def)
next
  case (got_message m reply s1 u)
  note rd = read_message_frame_ok[OF assms(2) got_message(2)] and au = auto_send_ok[OF got_message(3)]
  have rule: "reply_rule (ws_conn s) (Some m) reply (ws_conn s1)" using rd by blast
  moreover have "replied env sent s reply s'"
    using au rd by (auto simp: replied_def split: option.splits)
  ultimately show ?thesis
    using rd au got_message(1) same_reading_inv[of s1 s'] reply_rule_step[OF rule] by (auto simp: same_reading_def)
qed

lemma ws_read_ok:
  assumes inv: "ws_inv s" and read: "ws_read env s = Some (r, s')"
  shows "ws_inv s' \<and> ws_role s' = ws_role s \<and> ws_config s' = ws_config s \<and> r \<noteq> Panic
    \<and> conn_path (ws_conn s) (ws_conn s')
    \<and> (\<forall>m. r = Ok m \<longrightarrow> can_read (ws_conn s) \<and> message_ok (ws_config s) m
         \<and> (\<exists>reply. reply_rule (ws_conn s) (Some m) reply (ws_conn s') \<and> replied env sent s reply s'))
    \<and> (\<forall>e. r = Err e \<longrightarrow> transport_error e
         \<or> ws_outgoing sent s' = ws_outgoing sent s \<and> (ws_conn s' = ws_conn s \<or> ws_conn s' = Terminated))"
proof -
  have path: "conn_path (ws_conn s) Terminated" by (intro r_into_rtranclp conn_step.intros)
  have setT: "ws_inv (s\<lparr>ws_conn := Terminated\<rparr>)"
    using inv by (simp add: ws_inv_def ws_decoder_def)
  consider "ws_conn s = Terminated" | "ws_conn s \<noteq> Terminated" "ws_role s = Server \<and> \<not> can_read (ws_conn s)"
    | "read_loop env s = Some (r, s')"
    using read by (fastforce simp: ws_read_def check_not_terminated_def split: if_splits)
  then show ?thesis
  proof cases
    case 3
    then obtain s1 where turns: "quiet env s s1" "last_turn env s1 r s'" using read_loop_turns by blast
    note q = quiet_ok[OF turns(1) inv]
    have s1: "ws_role s1 = ws_role s" "ws_outgoing sent s1 = ws_outgoing sent s" using q by simp_all
    have same: "replied env sent s1 reply s' \<longleftrightarrow> replied env sent s reply s'" for reply
      unfolding replied_def s1 ..
    have "ws_inv s1" using q by simp
    note last = last_turn_ok[OF turns(2) this]
    show ?thesis using last q unfolding same by simp
  qed (use read inv path setT in \<open>auto simp: ws_read_def check_not_terminated_def transport_error_def\<close>)
qed

end

end
