(* ===== verification/Connection.thy ===== *)
theory Connection
  imports Websocket_Invariant
begin

text \<open>
  Connections over time: the public operations of a connection as one step function, the
  states that are reached through them, and what holds of every such state: the invariant,
  the absence of panics, and the discipline of what a connection puts on the wire.
\<close>

section \<open>Operations\<close>

datatype ws_op = ORead | OWrite message | OClose "close_frame option" | OFlush

definition no_message :: "(('r, 'x) error, unit) res \<times> 's \<Rightarrow> (('r, 'x) error, message option) res \<times> 's" where
  "no_message r = (case r of (a, s) \<Rightarrow> (map_res id (\<lambda>_. None) a, s))"

text \<open>\<open>None\<close> is a \<open>read\<close> that never returns.\<close>

fun perform ::
  "('s, 'q, 'g, 'r, 'x) env \<Rightarrow> ws_op \<Rightarrow> ('s, 'q, 'g) websocket
     \<Rightarrow> ((('r, 'x) error, message option) res \<times> ('s, 'q, 'g) websocket) option" where
  "perform env ORead s = map_option (\<lambda>(r, s'). (map_res id Some r, s')) (ws_read env s)"
| "perform env (OWrite m) s = Some (no_message (ws_write env m s))"
| "perform env (OClose code) s = Some (no_message (ws_close env code s))"
| "perform env OFlush s = Some (no_message (ws_flush env s))"

text \<open>The states a connection reaches from \<open>s0\<close>.\<close>

inductive reaches ::
  "('s, 'q, 'g, 'r, 'x) env \<Rightarrow> ('s, 'q, 'g) websocket \<Rightarrow> ('s, 'q, 'g) websocket \<Rightarrow> bool" for env s0 where
  reaches_start: "reaches env s0 s0"
| reaches_op: "reaches env s0 s \<Longrightarrow> perform env op s = Some (r, s') \<Longrightarrow> reaches env s0 s'"

lemma no_message_simps [simp]:
  "no_message (Ok u, s) = (Ok None, s)" "no_message (Err e, s) = (Err e, s)" "no_message (Panic, s) = (Panic, s)"
  by (simp_all add: no_message_def)

lemma no_message_eq:
  "no_message p = (r, s') \<longleftrightarrow> (\<exists>q. p = (q, s') \<and> r = map_res id (\<lambda>_. None) q)"
  by (cases p) (auto simp: no_message_def)

section \<open>A new connection\<close>

lemma from_raw_socket_simps:
  "ws_role (from_raw_socket tr io rl c g) = rl"
  "ws_config (from_raw_socket tr io rl c g) = config_or_default c"
  "ws_conn (from_raw_socket tr io rl c g) = Active"
  "ws_incomplete (from_raw_socket tr io rl c g) = None"
  "ws_outgoing sent (from_raw_socket tr io rl c g) = sent io"
  "fc_write_buf (ws_codec (from_raw_socket tr io rl c g)) = []"
  "ws_decoder (from_raw_socket tr io rl c g) = \<lparr>dec_header = None,
     dec_max_frame_size = max_frame_size (config_or_default c), dec_unmask = (rl = Server),
     dec_accept_unmasked = accept_unmasked_frames (config_or_default c)\<rparr>"
  "fr_buffer (fc_inner (ws_codec (from_raw_socket tr io rl c g))) = []"
  "fr_io (fc_inner (ws_codec (from_raw_socket tr io rl c g))) = io"
  by (simp_all add: from_raw_socket_def ws_setup_def codec_new_def framed_new_def Let_def ws_outgoing_def
      outgoing_def codec_get_io_def codec_update_decoder_def ws_decoder_def set_unmask_def set_max_frame_size_def
      set_accept_unmasked_def default_decoder_def)

lemma from_framed_read_simps:
  "ws_role (from_framed_read fr rl c g) = rl"
  "ws_config (from_framed_read fr rl c g) = config_or_default c"
  "ws_conn (from_framed_read fr rl c g) = Active"
  "ws_incomplete (from_framed_read fr rl c g) = None"
  "ws_outgoing sent (from_framed_read fr rl c g) = sent (fr_io fr)"
  "fc_write_buf (ws_codec (from_framed_read fr rl c g)) = []"
  "ws_decoder (from_framed_read fr rl c g) = \<lparr>dec_header = None,
     dec_max_frame_size = max_frame_size (config_or_default c), dec_unmask = (rl = Server),
     dec_accept_unmasked = accept_unmasked_frames (config_or_default c)\<rparr>"
  "fr_buffer (fc_inner (ws_codec (from_framed_read fr rl c g))) = fr_buffer fr"
  "fr_io (fc_inner (ws_codec (from_framed_read fr rl c g))) = fr_io fr"
  by (simp_all add: from_framed_read_def ws_setup_def codec_from_framed_read_def framed_map_decoder_def Let_def
      ws_outgoing_def outgoing_def codec_get_io_def codec_update_decoder_def ws_decoder_def set_unmask_def
      set_max_frame_size_def set_accept_unmasked_def default_decoder_def)

lemma new_connection_inv:
  "limits_ok (config_or_default c) \<Longrightarrow> ws_inv (from_raw_socket tr io rl c g)"
  "limits_ok (config_or_default c) \<Longrightarrow> ws_inv (from_framed_read fr rl c g)"
  by (simp_all add: ws_inv_def from_raw_socket_simps from_framed_read_simps decoder_set_up_def decoder_ok_def
      incomplete_ok_def)

lemma default_limits_ok: "limits_ok default_config"
  by (simp add: limits_ok_def default_config_def limit_of_def)

section \<open>One operation\<close>

text \<open>\<open>write\<close>, by the state it starts in; the frame it puts on the wire.\<close>

fun frame_of_message :: "message \<Rightarrow> frame" where
  "frame_of_message (MText t) = \<lparr>header = default_header\<lparr>opcode := OpData OpText\<rparr>, payload = utf8_raw t\<rparr>"
| "frame_of_message (MBinary d) = \<lparr>header = default_header\<lparr>opcode := OpData OpBinary\<rparr>, payload = d\<rparr>"
| "frame_of_message (MPing d) = frame_ping d"
| "frame_of_message (MPong d) = frame_pong d"
| "frame_of_message (MClose c) = frame_close c"
| "frame_of_message (MFrame f) = f"

lemma ws_write_eq:
  "ws_write env m s =
    (if ws_conn s = Terminated then (Err AlreadyClosed, s)
     else if ws_conn s \<noteq> Active then (Err (Protocol SendAfterClosing), s)
     else case m of
       MClose c \<Rightarrow> ws_close env c s
     | _ \<Rightarrow> bind_st (write_frame env (frame_of_message m) s) (\<lambda>_ s1. (Ok (), s1)))"
proof -
  have "default_header\<lparr>is_final := True, opcode := op\<rparr> = default_header\<lparr>opcode := op\<rparr>" for op
    by (simp add: default_header_def)
  then show ?thesis
    by (auto simp: ws_write_def check_not_terminated_def is_active_def write_message_frame_def frame_message_def
        split: message.split)
qed

context sound_env
begin

lemma ws_write_ok:
  assumes "ws_write env m s = (r, s')"
  shows "same_reading s s' \<and> r \<noteq> Panic \<and> conn_path (ws_conn s) (ws_conn s')
    \<and> (ws_conn s \<noteq> Active \<longrightarrow> s' = s \<and>
         r = Err (if ws_conn s = Terminated then AlreadyClosed else Protocol SendAfterClosing))
    \<and> (ws_conn s = Active \<longrightarrow> (\<forall>e. r = Err e \<longrightarrow> transport_error e)
         \<and> ws_conn s' \<noteq> Terminated \<and> (ws_conn s' = Active) = (\<not> message_is_close m)
         \<and> (r = Ok () \<longrightarrow> (\<exists>f'. sent_as (ws_role s) (frame_of_message m) f'
              \<and> ws_outgoing sent s' = ws_outgoing sent s @ frame_bytes (env_platform env) f')))"
proof (cases "ws_conn s = Active")
  case False
  then show ?thesis using assms by (auto simp: ws_write_eq)
next
  case True
  show ?thesis
  proof (cases "message_is_close m")
    case True
    then obtain c where m: "m = MClose c" by (cases m) auto
    then have "ws_close env c s = (r, s')" using assms \<open>ws_conn s = Active\<close> by (simp add: ws_write_eq)
    then show ?thesis
      using ws_close_ok[of c s r s'] \<open>ws_conn s = Active\<close> m by auto
  next
    case False
    obtain q s1 where q: "write_frame env (frame_of_message m) s = (q, s1)"
      by (cases "write_frame env (frame_of_message m) s")
    have "bind_st (q, s1) (\<lambda>_ s1. (Ok (), s1)) = (r, s')"
      using assms True False q by (cases m) (simp_all add: ws_write_eq)
    then show ?thesis
      using write_frame_ok[OF q] True False by (cases q) auto
  qed
qed

lemma perform_ok:
  assumes inv: "ws_inv s" and step: "perform env op s = Some (r, s')"
  shows "ws_inv s' \<and> ws_role s' = ws_role s \<and> ws_config s' = ws_config s \<and> r \<noteq> Panic
    \<and> conn_path (ws_conn s) (ws_conn s')"
proof -
  have writes: ?thesis if "same_reading s s'" "q \<noteq> Panic" "r = map_res id (\<lambda>_. None) q"
    "conn_path (ws_conn s) (ws_conn s')" for q :: "(('r, 'x) error, unit) res"
    using that inv same_reading_inv[OF that(1)] by (cases q) (auto simp: same_reading_def)
  show ?thesis
  proof (cases op)
    case ORead
    then obtain q where "ws_read env s = Some (q, s')" "r = map_res id Some q" using step by auto
    then show ?thesis using ws_read_ok[OF inv] by (cases q) auto
  next
    case (OWrite m)
    then obtain q where "ws_write env m s = (q, s')" "r = map_res id (\<lambda>_. None) q"
      using step by (auto simp: no_message_eq)
    then show ?thesis using ws_write_ok[of m s q s'] by (intro writes[of q]) auto
  next
    case (OClose c)
    then obtain q where "ws_close env c s = (q, s')" "r = map_res id (\<lambda>_. None) q"
      using step by (auto simp: no_message_eq)
    then show ?thesis using ws_close_ok[of c s q s'] by (intro writes[of q]) auto
  next
    case OFlush
    then obtain q where q: "ws_flush env s = (q, s')" "r = map_res id (\<lambda>_. None) q"
      using step by (auto simp: no_message_eq)
    have "conn_path (ws_conn s) Terminated" by (intro r_into_rtranclp conn_step.intros)
    then show ?thesis using ws_flush_ok[OF q(1)] q(2) by (intro writes[of q]) auto
  qed
qed

lemma reaches_ok:
  assumes "reaches env s0 s" "ws_inv s0"
  shows "ws_inv s \<and> ws_role s = ws_role s0 \<and> ws_config s = ws_config s0 \<and> conn_path (ws_conn s0) (ws_conn s)"
  using assms
proof (induction rule: reaches.induct)
  case (reaches_op s op r s')
  then show ?case
    using perform_ok[of s op r s'] by (auto intro: rtranclp_trans)
qed simp

end

section \<open>What goes on the wire\<close>

definition is_close_frame :: "frame \<Rightarrow> bool" where
  "is_close_frame f \<longleftrightarrow> opcode (header f) = OpControl OpClose"

text \<open>
  The discipline of the frames a connection has put on the wire, by its state: a client's are
  masked and a server's are not; a close frame is the last one; in a closing state it is there.
\<close>

definition wire_ok :: "role \<Rightarrow> conn_state \<Rightarrow> frame list \<Rightarrow> bool" where
  "wire_ok rl c fs \<longleftrightarrow> (\<forall>f \<in> set fs. frame_is_masked f = (rl = Client))
     \<and> (\<forall>f \<in> set (butlast fs). \<not> is_close_frame f)
     \<and> (c = Active \<longrightarrow> (\<forall>f \<in> set fs. \<not> is_close_frame f))
     \<and> (c = ClosedByUs \<or> c = ClosedByPeer \<or> c = CloseAcknowledged \<longrightarrow> fs \<noteq> [] \<and> is_close_frame (last fs))"

lemma wire_ok_quiet:
  assumes "wire_ok rl c fs" "c' = c \<or> c' = Terminated \<or> c = ClosedByUs \<and> c' = CloseAcknowledged"
  shows "wire_ok rl c' fs"
  using assms by (auto simp: wire_ok_def)

lemma wire_ok_append:
  assumes "wire_ok rl Active fs" "frame_is_masked f = (rl = Client)"
    and "if is_close_frame f then c' = ClosedByUs \<or> c' = ClosedByPeer else c' = Active"
  shows "wire_ok rl c' (fs @ [f])"
  using assms by (auto simp: wire_ok_def split: if_splits)

lemma sent_as_facts:
  assumes "sent_as rl f f'" "frame_mask (header f) = None"
  shows "frame_is_masked f' = (rl = Client)" "is_close_frame f' = is_close_frame f"
  using assms
  by (auto simp: sent_as_def frame_is_masked_def frame_set_mask_def header_set_mask_def is_close_frame_def split: if_splits)

lemma frame_of_message_facts:
  assumes "\<forall>f. m \<noteq> MFrame f"
  shows "frame_mask (header (frame_of_message m)) = None"
    "is_close_frame (frame_of_message m) = message_is_close m"
  using assms
  by (cases m; simp add: default_header_def frame_ping_def frame_pong_def frame_close_def is_close_frame_def)+

text \<open>An operation that is not a raw frame of the user.\<close>

definition op_plain :: "ws_op \<Rightarrow> bool" where
  "op_plain op \<longleftrightarrow> (\<forall>f. op \<noteq> OWrite (MFrame f))"

definition no_transport_error :: "(('r, 'x) error, 'a) res \<Rightarrow> bool" where
  "no_transport_error r \<longleftrightarrow> (\<forall>e. r = Err e \<longrightarrow> \<not> transport_error e)"

text \<open>One operation adds at most one frame, and keeps the discipline.\<close>

definition adds_frame :: "('s, 'q, 'g, 'r, 'x) env \<Rightarrow> ('s \<Rightarrow> bytes) \<Rightarrow> ('s, 'q, 'g) websocket \<Rightarrow> ('s, 'q, 'g) websocket \<Rightarrow> bool" where
  "adds_frame env sent s s' \<longleftrightarrow> (\<exists>gs. ws_outgoing sent s' = ws_outgoing sent s @ concat (map (frame_bytes (env_platform env)) gs)
     \<and> (\<forall>fs. wire_ok (ws_role s) (ws_conn s) fs \<longrightarrow> wire_ok (ws_role s) (ws_conn s') (fs @ gs)))"

context sound_env
begin

lemma adds_none:
  assumes "ws_outgoing sent s' = ws_outgoing sent s"
    and "ws_conn s' = ws_conn s \<or> ws_conn s' = Terminated \<or> ws_conn s = ClosedByUs \<and> ws_conn s' = CloseAcknowledged"
  shows "adds_frame env sent s s'"
  unfolding adds_frame_def using assms wire_ok_quiet by (intro exI[of _ "[]"]) auto

lemma adds_one:
  assumes "ws_conn s = Active" "sent_as (ws_role s) f f'" "frame_mask (header f) = None"
    and "ws_outgoing sent s' = ws_outgoing sent s @ frame_bytes (env_platform env) f'"
    and "if is_close_frame f then ws_conn s' = ClosedByUs \<or> ws_conn s' = ClosedByPeer else ws_conn s' = Active"
  shows "adds_frame env sent s s'"
  unfolding adds_frame_def
  using assms sent_as_facts[OF assms(2,3)]
  by (intro exI[of _ "[f']"]) (auto intro: wire_ok_append)

lemma close_frame_facts: "frame_mask (header (frame_close c)) = None" "is_close_frame (frame_close c)"
  by (simp_all add: frame_close_def default_header_def is_close_frame_def)

lemma pong_frame_facts: "frame_mask (header (frame_pong d)) = None" "\<not> is_close_frame (frame_pong d)"
  by (simp_all add: frame_pong_def default_header_def is_close_frame_def)

lemma read_adds_frame:
  assumes inv: "ws_inv s" and read: "ws_read env s = Some (r, s')" and ok: "no_transport_error r"
  shows "adds_frame env sent s s'"
proof (cases r)
  case (Ok m)
  then obtain reply where rule: "reply_rule (ws_conn s) (Some m) reply (ws_conn s')" and rep: "replied env sent s reply s'"
    using ws_read_ok[OF inv read] by blast
  show ?thesis
  proof (cases reply)
    case None
    then have "ws_outgoing sent s' = ws_outgoing sent s" using rep by (simp add: replied_def)
    then show ?thesis
      using rule None by (intro adds_none) (cases m; auto split: if_splits)+
  next
    case (Some f)
    then obtain f' where f': "sent_as (ws_role s) f f'"
      "ws_outgoing sent s' = ws_outgoing sent s @ frame_bytes (env_platform env) f'"
      using rep by (auto simp: replied_def)
    have "ws_conn s = Active \<and> ((\<exists>d. f = frame_pong d \<and> ws_conn s' = Active) \<or> (\<exists>c. f = frame_close c \<and> ws_conn s' = ClosedByPeer))"
      using rule Some by (cases m) (auto split: if_splits)
    then show ?thesis
      using f' close_frame_facts pong_frame_facts by (intro adds_one[OF _ f'(1) _ f'(2)]) auto
  qed
next
  case (Err e)
  then show ?thesis
    using ws_read_ok[OF inv read] ok by (intro adds_none) (auto simp: no_transport_error_def)
next
  case Panic
  then show ?thesis using ws_read_ok[OF inv read] by simp
qed

lemma write_adds_frame:
  assumes w: "ws_write env m s = (Ok (), s') \<or> (ws_write env m s = (q, s') \<and> ws_conn s \<noteq> Active)"
    and plain: "\<forall>f. m \<noteq> MFrame f"
  shows "adds_frame env sent s s'"
proof (cases "ws_conn s = Active")
  case False
  obtain q where "ws_write env m s = (q, s')" using w by blast
  from ws_write_ok[OF this] show ?thesis using False by (intro adds_none) auto
next
  case True
  then have ok: "ws_write env m s = (Ok (), s')" using w by blast
  note fin = ws_write_ok[OF this]
  then obtain f' where f': "sent_as (ws_role s) (frame_of_message m) f'"
    "ws_outgoing sent s' = ws_outgoing sent s @ frame_bytes (env_platform env) f'"
    using True by auto
  have "ws_conn s' = ClosedByUs" if "message_is_close m"
  proof -
    from that obtain c where "m = MClose c" by (cases m) auto
    then have "ws_close env c s = (Ok (), s')" using ok True by (simp add: ws_write_eq)
    then show ?thesis using ws_close_ok True by blast
  qed
  then show ?thesis
    using fin True frame_of_message_facts[OF plain] by (intro adds_one[OF True f'(1) _ f'(2)]) auto
qed

lemma close_adds_frame:
  assumes "ws_close env c s = (Ok (), s')"
  shows "adds_frame env sent s s'"
proof (cases "ws_conn s = Active")
  case True
  note cl = ws_close_ok[OF assms]
  obtain f' where f': "sent_as (ws_role s) (frame_close c) f'"
    "ws_outgoing sent s' = ws_outgoing sent s @ frame_bytes (env_platform env) f'"
    using cl True by auto
  show ?thesis using cl True close_frame_facts by (intro adds_one[OF True f'(1) _ f'(2)]) auto
next
  case False
  then show ?thesis using ws_close_ok[OF assms] by (intro adds_none) auto
qed

lemma perform_adds_frame:
  assumes inv: "ws_inv s" and plain: "op_plain op" and step: "perform env op s = Some (r, s')"
    and ok: "no_transport_error r"
  shows "adds_frame env sent s s'"
proof (cases op)
  case ORead
  then obtain q where q: "ws_read env s = Some (q, s')" "r = map_res id Some q" using step by auto
  then have "no_transport_error q" using ok by (cases q) (auto simp: no_transport_error_def)
  then show ?thesis using read_adds_frame[OF inv q(1)] by simp
next
  case (OWrite m)
  then obtain q where q: "ws_write env m s = (q, s')" "r = map_res id (\<lambda>_. None) q"
    using step by (auto simp: no_message_eq)
  have "q = Ok ()" if "ws_conn s = Active"
    using ws_write_ok[OF q(1)] that q(2) ok by (cases q) (auto simp: no_transport_error_def)
  then show ?thesis
    using q(1) plain OWrite by (intro write_adds_frame) (auto simp: op_plain_def)
next
  case (OClose c)
  then obtain q where q: "ws_close env c s = (q, s')" "r = map_res id (\<lambda>_. None) q"
    using step by (auto simp: no_message_eq)
  have "q = Ok ()" using ws_close_ok[OF q(1)] q(2) ok by (cases q) (auto simp: no_transport_error_def)
  then show ?thesis using q(1) by (simp add: close_adds_frame)
next
  case OFlush
  then obtain q where q: "ws_flush env s = (q, s')" "r = map_res id (\<lambda>_. None) q"
    using step by (auto simp: no_message_eq)
  note fl = ws_flush_ok[OF q(1)]
  then have "q = Ok ()" using q(2) ok by (cases q) (auto simp: no_transport_error_def)
  then show ?thesis using fl by (intro adds_none) auto
qed

end

text \<open>Runs without raw frames in which the transport does not fail.\<close>

inductive clean_run ::
  "('s, 'q, 'g, 'r, 'x) env \<Rightarrow> ('s, 'q, 'g) websocket \<Rightarrow> ('s, 'q, 'g) websocket \<Rightarrow> bool" for env s0 where
  clean_start: "clean_run env s0 s0"
| clean_op: "clean_run env s0 s \<Longrightarrow> op_plain op \<Longrightarrow> perform env op s = Some (r, s') \<Longrightarrow> no_transport_error r
    \<Longrightarrow> clean_run env s0 s'"

context sound_env
begin

lemma clean_run_wire:
  assumes "clean_run env s0 s" "ws_inv s0" "wire_ok (ws_role s0) (ws_conn s0) []"
  shows "ws_inv s \<and> ws_role s = ws_role s0
    \<and> (\<exists>fs. ws_outgoing sent s = ws_outgoing sent s0 @ concat (map (frame_bytes (env_platform env)) fs)
          \<and> wire_ok (ws_role s0) (ws_conn s) fs)"
  using assms
proof (induction rule: clean_run.induct)
  case clean_start
  then show ?case by (intro conjI exI[of _ "[]"]) auto
next
  case (clean_op s op r s')
  then obtain fs where fs: "ws_outgoing sent s = ws_outgoing sent s0 @ concat (map (frame_bytes (env_platform env)) fs)"
    "wire_ok (ws_role s0) (ws_conn s) fs" and inv: "ws_inv s" "ws_role s = ws_role s0" by auto
  obtain gs where "ws_outgoing sent s' = ws_outgoing sent s @ concat (map (frame_bytes (env_platform env)) gs)"
    "wire_ok (ws_role s) (ws_conn s') (fs @ gs)"
    using perform_adds_frame[OF inv(1) clean_op.hyps(2-4)] fs(2) inv(2) by (auto simp: adds_frame_def)
  then show ?case
    using perform_ok[OF inv(1) clean_op.hyps(3)] fs inv(2) by (intro conjI exI[of _ "fs @ gs"]) auto
qed

end

end
