(* ===== verification/Mem_Session.thy ===== *)
theory Mem_Session
  imports Connection
begin

text \<open>
  Connections over the in-memory transport of the crate's tests: on a finite input every
  \<open>read\<close> returns, writing never fails, and what one end writes the other end reads,
  whatever the pieces in which the transport delivers it.
\<close>

section \<open>Reading consumes input\<close>

lemma decode_weight_le:
  fixes r :: "(('r, 'x) error, frame decoded) res"
  assumes "decode pl d src = (r, d', src')" "r = Ok x"
  shows "decode_weight d' src' \<le> decode_weight d src"
  using assms(1)
proof (cases rule: decode_cases)
  case (payload h)
  show ?thesis
  proof (cases "\<exists>f. x = Decoded f")
    case True
    then show ?thesis using frame_decoder.progress[of pl d src _ d' src'] assms by force
  next
    case False
    then show ?thesis using decode_payload_short[OF payload(2)[unfolded assms(2)]] payload(1) by simp
  qed
next
  case (both d1 s1 h)
  show ?thesis
  proof (cases "\<exists>f. x = Decoded f")
    case True
    then show ?thesis using frame_decoder.progress[of pl d src _ d' src'] assms by force
  next
    case False
    then have "d' = d1 \<and> src' = s1"
      using decode_payload_short[OF both(4)[unfolded assms(2)]] both(3) by simp
    moreover have "length s1 + 2 \<le> length src"
      using decode_header_True[OF both(2)] by (auto simp: wire_header_size_def)
    ultimately show ?thesis using both(1) by (simp add: decode_weight_def)
  qed
qed (use assms(2) in simp_all)

text \<open>What is left to read: buffered and undelivered bytes.\<close>

definition input_left :: "frame_decoder \<Rightarrow> bytes \<Rightarrow> bytes list \<Rightarrow> nat" where
  "input_left d b cs = decode_weight d b + 2 * length (concat cs)"

lemma mem_drive_progress:
  assumes "mem_drive (decode pl :: _ \<Rightarrow> _ \<Rightarrow> (('r, 'x) error, _) res \<times> _) d b cs = (Some (Ok f), d', b', cs')"
  shows "input_left d' b' cs' < input_left d b cs"
  using assms
proof (induction cs arbitrary: d b)
  case Nil
  obtain r d1 b1 where step: "(decode pl d b :: (('r, 'x) error, _) res \<times> _) = (r, d1, b1)"
    by (cases "decode pl d b :: (('r, 'x) error, _) res \<times> _") auto
  then have "r = Ok (Decoded f)" "d' = d1" "b' = b1" "cs' = []"
    using Nil by (auto simp: mem_drive.simps[of _ d b] split: res.splits decoded.splits if_splits)
  then show ?case
    using frame_decoder.progress[of pl d b f d' b'] step by (simp add: input_left_def)
next
  case (Cons c cs)
  obtain r d1 b1 where step: "(decode pl d b :: (('r, 'x) error, _) res \<times> _) = (r, d1, b1)"
    by (cases "decode pl d b :: (('r, 'x) error, _) res \<times> _") auto
  show ?case
  proof (cases "\<exists>g. r = Ok (Decoded g)")
    case True
    then have "r = Ok (Decoded f)" "d' = d1" "b' = b1" "cs' = c # cs"
      using Cons.prems step by (auto simp: mem_drive.simps[of _ d b])
    then show ?thesis
      using frame_decoder.progress[of pl d b f d' b'] step by (simp add: input_left_def)
  next
    case False
    then obtain x where x: "r = Ok x" and "mem_drive (decode pl :: _ \<Rightarrow> _ \<Rightarrow> (('r, 'x) error, _) res \<times> _) d1 (b1 @ c) cs
        = (Some (Ok f), d', b', cs')"
      using Cons.prems step by (auto simp: mem_drive.simps[of _ d b] split: res.splits decoded.splits)
    moreover have "input_left d1 (b1 @ c) cs \<le> input_left d b (c # cs)"
      using decode_weight_le[OF step x] by (simp add: input_left_def decode_weight_def)
    ultimately show ?thesis using Cons.IH[of d1 "b1 @ c"] by simp
  qed
qed

type_synonym mem_socket = "(mem_io, unit, mask4) websocket"

definition socket_input :: "mem_socket \<Rightarrow> nat" where
  "socket_input s = (let fr = fc_inner (ws_codec s) in input_left (fr_decoder fr) (fr_buffer fr) (mem_in (fr_io fr)))"

lemma codec_next_mem:
  "codec_next pl (mem_transport :: (mem_io, unit, ('r, 'x) error) transport) fc =
    (case mem_drive (decode pl) (fr_decoder (fc_inner fc)) (fr_buffer (fc_inner fc)) (mem_in (fr_io (fc_inner fc))) of
       (res, d, b, cs) \<Rightarrow> (res, fc\<lparr>fc_inner := (fc_inner fc)\<lparr>fr_io := (fr_io (fc_inner fc))\<lparr>mem_in := cs\<rparr>,
          fr_decoder := d, fr_buffer := b\<rparr>\<rparr>))"
  by (simp add: codec_next_def mem_transport_def mem_next_def split: prod.split)

lemma accept_frame_codec:
  assumes "accept_frame sv f s = (r :: (('r, 'x) error, received) res, s')" "utf8_validator sv" "ws_inv s"
    "frame_ok (ws_decoder s) f"
  shows "ws_codec s' = ws_codec s"
  using utf8_validator.accept_frame_ok[OF assms(2-4), where ?'r = 'r and ?'x = 'x] assms(1)
  by (simp add: received_ok_def same_socket_def)

lemma read_message_frame_progress:
  fixes s :: mem_socket
  assumes inv: "ws_inv s"
    and read: "read_message_frame (mem_env :: (mem_io, unit, mask4, 'r, 'x) env) s = (Ok (msg, reply), s')"
  shows "socket_input s' < socket_input s"
proof -
  let ?env = "mem_env :: (mem_io, unit, mask4, 'r, 'x) env"
  have env: "env_platform ?env = aligned_le" "env_utf8 ?env = std_simdutf8" "env_transport ?env = mem_transport"
    by (simp_all add: mem_env_def)
  obtain res d b cs where drive: "mem_drive (decode aligned_le) (fr_decoder (fc_inner (ws_codec s)))
      (fr_buffer (fc_inner (ws_codec s))) (mem_in (fr_io (fc_inner (ws_codec s)))) = (res :: (('r, 'x) error, frame) res option, d, b, cs)"
    by (metis prod_cases4)
  define fc where "fc = (ws_codec s)\<lparr>fc_inner := (fc_inner (ws_codec s))\<lparr>fr_io := (fr_io (fc_inner (ws_codec s)))\<lparr>mem_in := cs\<rparr>,
          fr_decoder := d, fr_buffer := b\<rparr>\<rparr>"
  have nx: "codec_next aligned_le (mem_transport :: (mem_io, unit, ('r, 'x) error) transport) (ws_codec s) = (res, fc)"
    by (simp add: codec_next_mem drive fc_def)
  have step: "read_message_frame ?env s = bind_st (check_connection_reset (ws_conn s) (transpose res), s\<lparr>ws_codec := fc\<rparr>) (\<lambda>item s2.
        case item of Some f \<Rightarrow> accept_frame std_simdutf8 f s2 | None \<Rightarrow> end_of_stream s2)"
    unfolding read_message_frame_def env on_codec_def nx by simp
  show ?thesis
  proof (cases "\<exists>f. res = Some (Ok f)")
    case True
    then obtain f where f: "res = Some (Ok f)" by blast
    have d: "decoder_ok (ws_decoder s)" using inv by (simp add: ws_inv_def decoder_set_up_def)
    note ok = codec_next_ok[OF mem.frame_source_axioms le.sound_platform_axioms nx ws_decoder_def d]
    have "ws_inv (s\<lparr>ws_codec := fc\<rparr>)"
      using inv ok(4)[of "ws_decoder (s\<lparr>ws_codec := fc\<rparr>)"] by (simp add: ws_inv_def decoder_set_up_def ws_decoder_def)
    moreover have "frame_ok (ws_decoder (s\<lparr>ws_codec := fc\<rparr>)) f"
      using ok(3)[OF f] ok(4)[of "ws_decoder (s\<lparr>ws_codec := fc\<rparr>)"] by (simp add: frame_ok_def header_ok_def ws_decoder_def)
    moreover have "accept_frame std_simdutf8 f (s\<lparr>ws_codec := fc\<rparr>) = (Ok (msg, reply) :: (('r, 'x) error, received) res, s')"
      using read step f by simp
    ultimately have "ws_codec s' = fc"
      using accept_frame_codec[OF _ std_utf8.utf8_validator_axioms] by fastforce
    then show ?thesis
      using mem_drive_progress[OF drive[unfolded f]] by (simp add: socket_input_def fc_def Let_def)
  next
    case False
    then have "read_message_frame ?env s \<noteq> (Ok (msg, reply), s')"
      unfolding step by (cases res; cases "the res") (auto simp: end_of_stream_def bind_st_def split: prod.splits res.splits option.splits)
    then show ?thesis using read by simp
  qed
qed

lemma read_loop_returns:
  fixes s :: mem_socket
  assumes "ws_inv s"
  shows "\<exists>r s'. read_loop (mem_env :: (mem_io, unit, mask4, 'r, 'x) env) s = Some (r, s')"
  using assms
proof (induction "socket_input s" arbitrary: s rule: less_induct)
  case less
  let ?env = "mem_env :: (mem_io, unit, mask4, 'r, 'x) env"
  obtain q s1 where q: "read_message_frame ?env s = (q, s1)" by (cases "read_message_frame ?env s")
  note ok = mem.read_message_frame_ok[OF less.prems q]
  show ?case
  proof (cases "\<exists>reply. q = Ok (None, reply)")
    case True
    then have "q = Ok (None, None)" using ok by auto
    moreover from this have "read_loop ?env s = read_loop ?env s1"
      by (subst read_loop.simps) (simp add: q auto_send_def)
    ultimately show ?thesis
      using less.hyps[of s1] ok read_message_frame_progress[OF less.prems, where ?'r = 'r and ?'x = 'x] q by fastforce
  next
    case False
    then show ?thesis
      by (subst read_loop.simps) (auto simp: q split: res.split prod.split option.split)
  qed
qed

section \<open>Writing never fails\<close>

lemma mem_flush_io:
  "\<exists>fc'. codec_flush_io (mem_transport :: (mem_io, unit, ('r, 'x) error) transport) fc = (Ok (), fc')
     \<and> mem_in (codec_get_io fc') = mem_in (codec_get_io fc)"
  by (simp add: codec_flush_io_def mem_transport_def Let_def)

lemma mem_codec_ok:
  "\<exists>fc'. (codec_send pl (mem_transport :: (mem_io, unit, ('r, 'x) error) transport) f fc
        :: (('r, 'x) error, unit) res \<times> _) = (Ok (), fc')
     \<and> mem_in (codec_get_io fc') = mem_in (codec_get_io fc)"
  "\<exists>fc'. (codec_flush (mem_transport :: (mem_io, unit, ('r, 'x) error) transport) fc
        :: (('r, 'x) error, unit) res \<times> _) = (Ok (), fc')
     \<and> mem_in (codec_get_io fc') = mem_in (codec_get_io fc)"
  using mem_flush_io[of fc, where ?'r = 'r and ?'x = 'x]
  by (auto simp: codec_send_def codec_flush_def)

text \<open>What is still to be read.\<close>

definition pending_input :: "mem_socket \<Rightarrow> bytes" where
  "pending_input s = fr_buffer (fc_inner (ws_codec s)) @ concat (mem_in (codec_get_io (ws_codec s)))"

lemma mem_write_frame:
  fixes s :: mem_socket
  shows "\<exists>s' f'. write_frame (mem_env :: (mem_io, unit, mask4, 'r, 'x) env) f s = (Ok (), s')
    \<and> same_reading s s' \<and> ws_conn s' = ws_conn s \<and> pending_input s' = pending_input s
    \<and> sent_as (ws_role s) f f' \<and> ws_outgoing mem_out s' = ws_outgoing mem_out s @ frame_bytes aligned_le f'"
proof -
  let ?env = "mem_env :: (mem_io, unit, mask4, 'r, 'x) env"
  obtain r s' where w: "write_frame ?env f s = (r, s')" by (cases "write_frame ?env f s")
  have env: "env_transport ?env = mem_transport" "env_platform ?env = aligned_le" by (simp_all add: mem_env_def)
  note ok = mem.write_frame_ok[OF w]
  have "r = Ok () \<and> mem_in (codec_get_io (ws_codec s')) = mem_in (codec_get_io (ws_codec s))"
  proof -
    define g where "g = (if ws_role s = Client then frame_set_mask (fst (env_draw_mask ?env (ws_rng s))) f else f)"
    obtain fc where fc: "(codec_send aligned_le (mem_transport :: (mem_io, unit, ('r, 'x) error) transport) g (ws_codec s)
        :: (('r, 'x) error, unit) res \<times> _) = (Ok (), fc)"
      "mem_in (codec_get_io fc) = mem_in (codec_get_io (ws_codec s))"
      using mem_codec_ok(1)[of aligned_le g "ws_codec s", where ?'r = 'r and ?'x = 'x] by blast
    then have "r = Ok () \<and> ws_codec s' = fc"
      using w by (cases "ws_role s") (auto simp: write_frame_def on_codec_def env g_def split: prod.splits)
    with fc show ?thesis by simp
  qed
  then show ?thesis
    using ok w by (auto simp: env(2) pending_input_def same_reading_def same_reader_def)
qed

lemma mem_flush:
  fixes s :: mem_socket
  shows "\<exists>s'. (on_codec (codec_flush (mem_transport :: (mem_io, unit, ('r, 'x) error) transport)) s
        :: (('r, 'x) error, unit) res \<times> _) = (Ok (), s')
    \<and> same_reading s s' \<and> ws_conn s' = ws_conn s \<and> pending_input s' = pending_input s
    \<and> fc_write_buf (ws_codec s') = [] \<and> ws_outgoing mem_out s' = ws_outgoing mem_out s"
proof -
  have env: "env_transport (mem_env :: (mem_io, unit, mask4, 'r, 'x) env) = mem_transport" by (simp add: mem_env_def)
  obtain fc where fc: "(codec_flush (mem_transport :: (mem_io, unit, ('r, 'x) error) transport) (ws_codec s)
        :: (('r, 'x) error, unit) res \<times> _) = (Ok (), fc)"
    "mem_in (codec_get_io fc) = mem_in (codec_get_io (ws_codec s))"
    using mem_codec_ok(2)[of "ws_codec s", where ?'r = 'r and ?'x = 'x] by blast
  then have w: "on_codec (codec_flush (env_transport (mem_env :: (mem_io, unit, mask4, 'r, 'x) env))) s
      = (Ok () :: (('r, 'x) error, unit) res, s\<lparr>ws_codec := fc\<rparr>)"
    by (simp add: on_codec_def env)
  show ?thesis
    using mem.on_codec_flush_ok[OF w] w fc(2)
    by (auto simp: env pending_input_def same_reading_def same_reader_def)
qed

lemma mem_auto_send:
  fixes s :: mem_socket
  shows "\<exists>s'. auto_send (mem_env :: (mem_io, unit, mask4, 'r, 'x) env) reply s = (Ok (), s')
    \<and> same_reading s s' \<and> ws_conn s' = ws_conn s \<and> pending_input s' = pending_input s"
proof (cases reply)
  case None
  then show ?thesis by (simp add: auto_send_def)
next
  case (Some f)
  have env: "env_transport (mem_env :: (mem_io, unit, mask4, 'r, 'x) env) = mem_transport" by (simp add: mem_env_def)
  obtain s1 where s1: "write_frame (mem_env :: (mem_io, unit, mask4, 'r, 'x) env) f s = (Ok (), s1)"
    "same_reading s s1" "ws_conn s1 = ws_conn s" "pending_input s1 = pending_input s"
    using mem_write_frame[of f s] by blast
  obtain s2 where "on_codec (codec_flush (mem_transport :: (mem_io, unit, ('r, 'x) error) transport)) s1 = (Ok () :: (('r, 'x) error, unit) res, s2)"
    "same_reading s1 s2" "ws_conn s2 = ws_conn s1" "pending_input s2 = pending_input s1"
    using mem_flush[of s1, where ?'r = 'r and ?'x = 'x] by blast
  then show ?thesis
    using s1 Some same_reading_trans[of s s1 s2] by (simp add: auto_send_def env)
qed

section \<open>Delivery\<close>

lemma mem_drive_delivers:
  assumes "resumable_decoder dec weight" "dec d (b @ concat cs) = (Ok (Decoded f), d', rest)"
  shows "\<exists>b' cs'. mem_drive dec d b cs = (Some (Ok f), d', b', cs') \<and> b' @ concat cs' = rest"
  using assms(2)
proof (induction cs arbitrary: d b)
  case Nil
  then show ?case by (subst mem_drive.simps) simp
next
  case (Cons c cs)
  let ?all = "b @ concat (c # cs)"
  obtain r d1 b1 where step: "dec d b = (r, d1, b1)" by (cases "dec d b") auto
  show ?case
  proof (cases r)
    case (Ok x)
    show ?thesis
    proof (cases "\<exists>g. x = Decoded g")
      case True
      then obtain g where "dec d ?all = (Ok (Decoded g), d1, b1 @ concat (c # cs))" "dec d b = (Ok (Decoded g), d1, b1)"
        using resumable_decoder.frame_stays[OF assms(1), of d b _ d1 b1 "concat (c # cs)"] step Ok by auto
      then show ?thesis
        using Cons.prems by (subst mem_drive.simps) auto
    next
      case False
      then have "dec d1 ((b1 @ c) @ concat cs) = (Ok (Decoded f), d', rest)"
        using resumable_decoder.resumes[OF assms(1), of d b x d1 b1 "concat (c # cs)"] step Ok Cons.prems by simp
      then have "\<exists>b' cs'. mem_drive dec d1 (b1 @ c) cs = (Some (Ok f), d', b', cs') \<and> b' @ concat cs' = rest"
        by (rule Cons.IH)
      moreover have "mem_drive dec d b (c # cs) = mem_drive dec d1 (b1 @ c) cs"
        using False step Ok by (subst mem_drive.simps) (auto split: decoded.splits)
      ultimately show ?thesis by simp
    qed
  next
    case (Err e)
    then show ?thesis
      using resumable_decoder.error_stays[OF assms(1), of d b e d1 b1 "concat (c # cs)"] step Cons.prems by simp
  next
    case Panic
    then show ?thesis using resumable_decoder.no_panic[OF assms(1), of d b] step by simp
  qed
qed

fun peer :: "role \<Rightarrow> role" where
  "peer Server = Client"
| "peer Client = Server"

text \<open>Messages that fit the receiver's limits.\<close>

fun transferable :: "websocket_config \<Rightarrow> message \<Rightarrow> bool" where
  "transferable cfg (MText t) \<longleftrightarrow> utf8_wf t \<and> length (utf8_raw t) \<le> limit_of (max_message_size cfg)
     \<and> length (utf8_raw t) \<le> limit_of (max_frame_size cfg)"
| "transferable cfg (MBinary d) \<longleftrightarrow> length d \<le> limit_of (max_message_size cfg)
     \<and> length d \<le> limit_of (max_frame_size cfg)"
| "transferable cfg (MPing d) \<longleftrightarrow> length d \<le> 125 \<and> length d \<le> limit_of (max_frame_size cfg)"
| "transferable cfg (MPong d) \<longleftrightarrow> length d \<le> 125 \<and> length d \<le> limit_of (max_frame_size cfg)"
| "transferable cfg m \<longleftrightarrow> False"

lemma limit_of_less: "limit_of l < 2 ^ 64"
  using unsigned_less[of "limit_word l", where ?'a = nat] by (simp add: unat_limit_word)

lemma limit_of_Some: "n \<le> limit_of l \<Longrightarrow> case l of Some mx \<Rightarrow> n \<le> unat mx | None \<Rightarrow> True"
  by (cases l) (simp_all add: limit_of_def)

lemma transferable_frame:
  assumes "transferable cfg m"
  shows "opcode_wf (opcode (header (frame_of_message m)))" "\<not> is_reserved (opcode (header (frame_of_message m)))"
    "is_final (header (frame_of_message m))" "\<not> rsv1 (header (frame_of_message m))"
    "\<not> rsv2 (header (frame_of_message m))" "\<not> rsv3 (header (frame_of_message m))"
    "frame_mask (header (frame_of_message m)) = None"
    "length (payload (frame_of_message m)) \<le> limit_of (max_frame_size cfg)"
  using assms by (cases m; simp add: default_header_def frame_ping_def frame_pong_def)+

lemma plain_receivable:
  assumes f: "opcode_wf (opcode (header f))" "\<not> is_reserved (opcode (header f))" "frame_mask (header f) = None"
    and fits: "length (payload f) \<le> limit_of (max_frame_size cfg)"
    and "sent_as (peer rl) f f'" "decoder_set_up rl cfg d"
  shows "receivable d f' \<and> delivered aligned_le d f' = f"
proof -
  have len: "length (payload f) < 2 ^ 64" using fits limit_of_less by (rule le_less_trans)
  have max: "case dec_max_frame_size d of Some mx \<Rightarrow> length (payload f) \<le> unat mx | None \<Rightarrow> True"
    using limit_of_Some[OF fits] assms(6) by (simp add: decoder_set_up_def)
  have unmask: "dec_unmask d \<longleftrightarrow> rl = Server" using assms(6) by (simp add: decoder_set_up_def)
  show ?thesis
  proof (cases rl)
    case Client
    then have "f' = f" using assms(5) by (simp add: sent_as_def)
    then show ?thesis
      using f len max unmask Client by (simp add: receivable_def sendable_def delivered_def)
  next
    case Server
    then obtain k where k: "f' = frame_set_mask k f" using assms(5) unfolding sent_as_def by auto
    have "(header f)\<lparr>frame_mask := None\<rparr> = header f" using f(3) by (cases "header f") simp
    then have "f\<lparr>header := (header f)\<lparr>frame_mask := None\<rparr>\<rparr> = f" by (cases f) simp
    then show ?thesis
      using f(1,2) len max unmask Server k
      by (cases "dec_max_frame_size d") (simp_all add: receivable_def sendable_def delivered_def frame_set_mask_def header_set_mask_def)
  qed
qed

lemma transferable_receivable:
  assumes "transferable cfg m" "sent_as (peer rl) (frame_of_message m) f'" "decoder_set_up rl cfg d"
  shows "receivable d f'" "delivered aligned_le d f' = frame_of_message m"
  using plain_receivable[OF transferable_frame(1,2,7,8)[OF assms(1)] assms(2,3)] by blast+

text \<open>
  The frame of a message, handed to the state machine, is the message: of any message when no
  other is being assembled, of a control message always.
\<close>

definition interleavable :: "message \<Rightarrow> bool" where
  "interleavable m \<longleftrightarrow> message_is_ping m \<or> message_is_pong m"

text \<open>What \<open>read\<close> answers by itself: a ping with a pong of the same payload.\<close>

fun answers :: "message list \<Rightarrow> message list" where
  "answers [] = []"
| "answers (MPing d # ms) = MPong d # answers ms"
| "answers (_ # ms) = answers ms"

lemma answers_append: "answers (ms @ ns) = answers ms @ answers ns"
  by (induction ms rule: answers.induct) simp_all

definition answer_frame :: "message \<Rightarrow> frame option" where
  "answer_frame m = (case answers [m] of [] \<Rightarrow> None | a # _ \<Rightarrow> Some (frame_of_message a))"

lemma accept_message_frame:
  fixes s :: "('s, 'q, 'g) websocket"
  assumes "transferable (ws_config s) m" "ws_conn s = Active" "ws_incomplete s = None \<or> interleavable m"
  shows "accept_frame std_simdutf8 (frame_of_message m) s = (Ok (Some m, answer_frame m) :: (('r, 'x) error, received) res, s)"
proof -
  note f = transferable_frame[OF assms(1)]
  have size: "check_max_size n l = (Ok () :: (('r, 'x) error, unit) res)" if "n \<le> limit_of l" for n l
    using limit_of_Some[OF that] by (auto simp: check_max_size_def split: option.splits)
  have "handle_frame std_simdutf8 (frame_of_message m) s = (Ok (Some m, answer_frame m) :: (('r, 'x) error, received) res, s)"
    using assms size
    by (cases m) (simp_all add: interleavable_def handle_frame_def handle_data_def handle_control_def default_header_def
      frame_ping_def frame_pong_def frame_into_text_def frame_into_payload_def utf8_try_from_def std_utf8.basic utf8_wf_def
      is_active_def answer_frame_def)
  then show ?thesis
    using assms(2) f by (auto simp: accept_frame_def can_read_def frame_is_masked_def)
qed

text \<open>
  A frame of the peer, at the head of what is to be read, comes out of the transport and of
  the decoder as it was before masking, and nothing else has changed.
\<close>

definition only_read :: "mem_socket \<Rightarrow> mem_socket \<Rightarrow> bool" where
  "only_read s s1 \<longleftrightarrow> ws_role s1 = ws_role s \<and> ws_config s1 = ws_config s \<and> ws_conn s1 = ws_conn s
     \<and> ws_incomplete s1 = ws_incomplete s \<and> ws_decoder s1 = ws_decoder s
     \<and> ws_outgoing mem_out s1 = ws_outgoing mem_out s \<and> fc_write_buf (ws_codec s1) = fc_write_buf (ws_codec s)"

lemma mem_next_frame:
  fixes s :: mem_socket
  assumes "receivable (ws_decoder s) f'" "dec_header (ws_decoder s) = None"
    and input: "pending_input s = frame_bytes aligned_le f' @ rest"
  shows "\<exists>s1. only_read s s1 \<and> pending_input s1 = rest
    \<and> read_message_frame (mem_env :: (mem_io, unit, mask4, 'r, 'x) env) s
        = accept_frame std_simdutf8 (delivered aligned_le (ws_decoder s) f') s1"
proof -
  let ?env = "mem_env :: (mem_io, unit, mask4, 'r, 'x) env"
  let ?d = "fr_decoder (fc_inner (ws_codec s))"
  let ?f = "delivered aligned_le ?d f'"
  have env: "env_platform ?env = aligned_le" "env_utf8 ?env = std_simdutf8" "env_transport ?env = mem_transport"
    by (simp_all add: mem_env_def)
  have "decode aligned_le ?d (fr_buffer (fc_inner (ws_codec s)) @ concat (mem_in (fr_io (fc_inner (ws_codec s)))))
      = (Ok (Decoded ?f) :: (('r, 'x) error, frame decoded) res, ?d, rest)"
    using input decode_frame_bytes[OF le.sound_platform_axioms assms(1,2)]
    by (simp add: pending_input_def codec_get_io_def ws_decoder_def)
  then obtain b cs where drive: "mem_drive (decode aligned_le) ?d (fr_buffer (fc_inner (ws_codec s))) (mem_in (fr_io (fc_inner (ws_codec s))))
      = (Some (Ok ?f) :: (('r, 'x) error, frame) res option, ?d, b, cs)" and left: "b @ concat cs = rest"
    using mem_drive_delivers[OF frame_decoder.resumable_decoder_axioms] by blast
  define s1 where "s1 = s\<lparr>ws_codec := (ws_codec s)\<lparr>fc_inner := (fc_inner (ws_codec s))\<lparr>
      fr_io := (fr_io (fc_inner (ws_codec s)))\<lparr>mem_in := cs\<rparr>, fr_decoder := ?d, fr_buffer := b\<rparr>\<rparr>\<rparr>"
  have s1: "only_read s s1" "pending_input s1 = rest"
    using left by (simp_all add: s1_def only_read_def ws_decoder_def pending_input_def codec_get_io_def
        ws_outgoing_def outgoing_def)
  have "codec_next aligned_le (mem_transport :: (mem_io, unit, ('r, 'x) error) transport) (ws_codec s)
      = (Some (Ok ?f), ws_codec s1)"
    by (simp add: codec_next_mem drive s1_def)
  moreover have "s\<lparr>ws_codec := ws_codec s1\<rparr> = s1" by (simp add: s1_def)
  ultimately have "read_message_frame ?env s = accept_frame std_simdutf8 ?f s1"
    unfolding read_message_frame_def env on_codec_def by simp
  then show ?thesis using s1 by (auto simp: ws_decoder_def)
qed

text \<open>One \<open>read\<close>, when the next turn of its loop gives a message.\<close>

lemma mem_read_message:
  fixes s :: mem_socket
  assumes "can_read (ws_conn s)"
    and "read_message_frame (mem_env :: (mem_io, unit, mask4, 'r, 'x) env) s = (Ok (Some m, reply), s1)"
  shows "\<exists>s2. ws_read (mem_env :: (mem_io, unit, mask4, 'r, 'x) env) s = Some (Ok m, s2)
    \<and> auto_send (mem_env :: (mem_io, unit, mask4, 'r, 'x) env) reply s1 = (Ok (), s2)
    \<and> same_reading s1 s2 \<and> ws_conn s2 = ws_conn s1 \<and> pending_input s2 = pending_input s1"
proof -
  let ?env = "mem_env :: (mem_io, unit, mask4, 'r, 'x) env"
  obtain s2 where s2: "auto_send ?env reply s1 = (Ok (), s2)" "same_reading s1 s2" "ws_conn s2 = ws_conn s1"
    "pending_input s2 = pending_input s1"
    using mem_auto_send by blast
  have "read_loop ?env s = Some (Ok m, s2)"
    by (subst read_loop.simps) (simp add: assms(2) s2(1))
  moreover have "ws_conn s \<noteq> Terminated" using assms(1) by (auto simp: can_read_def)
  ultimately show ?thesis
    using assms(1) s2 by (simp add: ws_read_def check_not_terminated_def)
qed

definition reading_at :: "incomplete_message option \<Rightarrow> mem_socket \<Rightarrow> frame list \<Rightarrow> bool" where
  "reading_at inc s fs \<longleftrightarrow> ws_inv s \<and> ws_conn s = Active \<and> ws_incomplete s = inc \<and> dec_header (ws_decoder s) = None
     \<and> pending_input s = concat (map (frame_bytes aligned_le) fs)"

text \<open>The next frame reaches the state machine as the peer meant it, and the rest is still to be read.\<close>

lemma read_turn:
  fixes s :: mem_socket
  assumes at: "reading_at inc s (f' # fs)"
    and recv: "receivable (ws_decoder s) f'" "delivered aligned_le (ws_decoder s) f' = f"
  shows "\<exists>s1. reading_at inc s1 fs \<and> ws_role s1 = ws_role s \<and> ws_config s1 = ws_config s
    \<and> read_message_frame (mem_env :: (mem_io, unit, mask4, 'r, 'x) env) s = accept_frame std_simdutf8 f s1"
proof -
  have "pending_input s = frame_bytes aligned_le f' @ concat (map (frame_bytes aligned_le) fs)"
    "dec_header (ws_decoder s) = None"
    using at by (simp_all add: reading_at_def)
  from mem_next_frame[OF recv(1) this(2,1), where ?'r = 'r and ?'x = 'x] obtain s1
    where s1: "only_read s s1" "pending_input s1 = concat (map (frame_bytes aligned_le) fs)"
      "read_message_frame (mem_env :: (mem_io, unit, mask4, 'r, 'x) env) s = accept_frame std_simdutf8 f s1"
    using recv(2) by auto
  then show ?thesis
    using at by (intro exI[of _ s1]) (auto simp: reading_at_def only_read_def ws_inv_def)
qed

lemma reading_can_read: "reading_at inc s fs \<Longrightarrow> can_read (ws_conn s)"
  by (simp add: reading_at_def can_read_def)

text \<open>A turn that gives a message ends the \<open>read\<close>.\<close>

lemma read_gives:
  fixes s :: mem_socket
  assumes at: "reading_at inc s fs'"
    and turn: "read_message_frame (mem_env :: (mem_io, unit, mask4, 'r, 'x) env) s = (Ok (Some m, reply), s1)"
    and s1: "reading_at inc' s1 fs"
  shows "\<exists>s'. ws_read (mem_env :: (mem_io, unit, mask4, 'r, 'x) env) s = Some (Ok m, s') \<and> reading_at inc' s' fs
    \<and> ws_role s' = ws_role s1 \<and> ws_config s' = ws_config s1"
proof -
  obtain s2 where s2: "ws_read (mem_env :: (mem_io, unit, mask4, 'r, 'x) env) s = Some (Ok m, s2)"
    "same_reading s1 s2" "ws_conn s2 = ws_conn s1" "pending_input s2 = pending_input s1"
    using mem_read_message[OF reading_can_read[OF at] turn] by blast
  have "reading_at inc' s2 fs"
    using s1 s2 same_reading_inv[OF s2(2)]
    by (simp add: reading_at_def same_reading_def same_reader_def ws_decoder_def)
  then show ?thesis using s2 by (auto simp: same_reading_def)
qed

text \<open>The answers that went out between two states.\<close>

definition answered :: "mem_socket \<Rightarrow> message list \<Rightarrow> mem_socket \<Rightarrow> bool" where
  "answered s ms s' \<longleftrightarrow> (fc_write_buf (ws_codec s) = [] \<longrightarrow> fc_write_buf (ws_codec s') = [])
     \<and> (\<exists>gs. list_all2 (\<lambda>m. sent_as (ws_role s) (frame_of_message m)) (answers ms) gs
          \<and> ws_outgoing mem_out s' = ws_outgoing mem_out s @ concat (map (frame_bytes aligned_le) gs))"

lemma answered_refl: "answered s [] s"
  by (simp add: answered_def)

lemma answered_trans:
  assumes "answered s ms t" "answered t ns u" "ws_role t = ws_role s"
  shows "answered s (ms @ ns) u"
proof -
  obtain gs hs where "list_all2 (\<lambda>m. sent_as (ws_role s) (frame_of_message m)) (answers ms) gs"
    "list_all2 (\<lambda>m. sent_as (ws_role s) (frame_of_message m)) (answers ns) hs"
    "ws_outgoing mem_out u = ws_outgoing mem_out s @ concat (map (frame_bytes aligned_le) (gs @ hs))"
    using assms by (auto simp: answered_def)
  then show ?thesis
    using assms by (auto simp: answered_def answers_append intro!: exI[of _ "gs @ hs"] list_all2_appendI)
qed

text \<open>The next message is read, and answered if it asks for it.\<close>

lemma read_answers:
  fixes s :: mem_socket
  assumes at: "reading_at inc s (f' # fs)" and m: "transferable (ws_config s) m" "inc = None \<or> interleavable m"
    and sent: "sent_as (peer (ws_role s)) (frame_of_message m) f'"
  shows "\<exists>s'. ws_read (mem_env :: (mem_io, unit, mask4, 'r, 'x) env) s = Some (Ok m, s') \<and> reading_at inc s' fs
    \<and> ws_role s' = ws_role s \<and> ws_config s' = ws_config s \<and> answered s [m] s'"
proof -
  let ?env = "mem_env :: (mem_io, unit, mask4, 'r, 'x) env"
  have env: "env_platform ?env = aligned_le" by (simp add: mem_env_def)
  have set_up: "decoder_set_up (ws_role s) (ws_config s) (ws_decoder s)" using at by (simp add: reading_at_def ws_inv_def)
  note recv = transferable_receivable[OF m(1) sent set_up]
  have input: "pending_input s = frame_bytes aligned_le f' @ concat (map (frame_bytes aligned_le) fs)"
    "dec_header (ws_decoder s) = None"
    using at by (simp_all add: reading_at_def)
  obtain s1 where s1: "only_read s s1" "pending_input s1 = concat (map (frame_bytes aligned_le) fs)"
    and turn: "read_message_frame ?env s = accept_frame std_simdutf8 (frame_of_message m) s1"
    using mem_next_frame[OF recv(1) input(2,1), where ?'r = 'r and ?'x = 'x] recv(2) by auto
  have at1: "reading_at inc s1 fs" "ws_role s1 = ws_role s" "ws_config s1 = ws_config s"
    using at s1 by (auto simp: reading_at_def only_read_def ws_inv_def)
  have "read_message_frame ?env s = (Ok (Some m, answer_frame m), s1)"
    unfolding turn using at1 m by (intro accept_message_frame) (auto simp: reading_at_def)
  then obtain s2 where s2: "ws_read ?env s = Some (Ok m, s2)" "auto_send ?env (answer_frame m) s1 = (Ok (), s2)"
    "same_reading s1 s2" "ws_conn s2 = ws_conn s1" "pending_input s2 = pending_input s1"
    using mem_read_message[OF reading_can_read[OF at]] by blast
  have "reading_at inc s2 fs"
    using at1 s2 same_reading_inv[OF s2(3)]
    by (simp add: reading_at_def same_reading_def same_reader_def ws_decoder_def)
  moreover have "answered s [m] s2"
  proof (cases "answers [m]")
    case Nil
    then have "s2 = s1" using s2(2) by (simp add: answer_frame_def auto_send_def)
    then show ?thesis using s1(1) Nil by (simp add: answered_def only_read_def)
  next
    case (Cons a as)
    then have as: "as = []" by (cases m) auto
    then obtain g where "fc_write_buf (ws_codec s2) = []" "sent_as (ws_role s) (frame_of_message a) g"
      "ws_outgoing mem_out s2 = ws_outgoing mem_out s @ frame_bytes aligned_le g"
      using mem.auto_send_ok[OF s2(2)] Cons s1(1) at1(2) by (auto simp: answer_frame_def env only_read_def)
    then show ?thesis using Cons as by (auto simp: answered_def intro!: exI[of _ "[g]"])
  qed
  ultimately show ?thesis using s2(1,3) at1 by (auto simp: same_reading_def)
qed

section \<open>From end to end\<close>

fun write_all :: "('s, 'q, 'g, 'r, 'x) env \<Rightarrow> message list \<Rightarrow> ('s, 'q, 'g) websocket
    \<Rightarrow> (('r, 'x) error, unit) res \<times> ('s, 'q, 'g) websocket" where
  "write_all env [] s = (Ok (), s)"
| "write_all env (m # ms) s = bind_st (ws_write env m s) (\<lambda>_ s1. write_all env ms s1)"

text \<open>\<open>None\<close> when some \<open>read\<close> does not give a message.\<close>

fun read_n :: "('s, 'q, 'g, 'r, 'x) env \<Rightarrow> nat \<Rightarrow> ('s, 'q, 'g) websocket
    \<Rightarrow> (message list \<times> ('s, 'q, 'g) websocket) option" where
  "read_n env 0 s = Some ([], s)"
| "read_n env (Suc n) s = (case ws_read env s of
     Some (Ok m, s1) \<Rightarrow> map_option (\<lambda>(ms, t). (m # ms, t)) (read_n env n s1)
   | _ \<Rightarrow> None)"

lemma mem_ws_write:
  fixes s :: mem_socket
  assumes "ws_conn s = Active" "\<not> message_is_close m"
  shows "\<exists>s' f'. ws_write (mem_env :: (mem_io, unit, mask4, 'r, 'x) env) m s = (Ok (), s')
    \<and> ws_conn s' = Active \<and> same_reading s s' \<and> pending_input s' = pending_input s
    \<and> sent_as (ws_role s) (frame_of_message m) f' \<and> ws_outgoing mem_out s' = ws_outgoing mem_out s @ frame_bytes aligned_le f'"
proof -
  obtain s' f' where w: "write_frame (mem_env :: (mem_io, unit, mask4, 'r, 'x) env) (frame_of_message m) s = (Ok (), s')"
    "same_reading s s'" "ws_conn s' = ws_conn s" "pending_input s' = pending_input s" "sent_as (ws_role s) (frame_of_message m) f'"
    "ws_outgoing mem_out s' = ws_outgoing mem_out s @ frame_bytes aligned_le f'"
    using mem_write_frame by blast
  moreover have "ws_write (mem_env :: (mem_io, unit, mask4, 'r, 'x) env) m s = (Ok (), s')"
    using assms w(1) by (cases m) (simp_all add: ws_write_eq)
  ultimately show ?thesis using assms(1) by auto
qed

lemma mem_write_all:
  fixes s :: mem_socket
  assumes "ws_conn s = Active" "\<forall>m \<in> set ms. \<not> message_is_close m"
  shows "\<exists>s' fs. write_all (mem_env :: (mem_io, unit, mask4, 'r, 'x) env) ms s = (Ok (), s')
    \<and> ws_conn s' = Active \<and> same_reading s s' \<and> pending_input s' = pending_input s
    \<and> list_all2 (\<lambda>m. sent_as (ws_role s) (frame_of_message m)) ms fs
    \<and> ws_outgoing mem_out s' = ws_outgoing mem_out s @ concat (map (frame_bytes aligned_le) fs)"
  using assms
proof (induction ms arbitrary: s)
  case (Cons m ms)
  obtain s1 f1 where s1: "ws_write (mem_env :: (mem_io, unit, mask4, 'r, 'x) env) m s = (Ok (), s1)" "ws_conn s1 = Active"
    "same_reading s s1" "pending_input s1 = pending_input s"
    "sent_as (ws_role s) (frame_of_message m) f1" "ws_outgoing mem_out s1 = ws_outgoing mem_out s @ frame_bytes aligned_le f1"
    using mem_ws_write[of s m] Cons.prems by auto
  obtain s' fs where "write_all (mem_env :: (mem_io, unit, mask4, 'r, 'x) env) ms s1 = (Ok (), s')" "ws_conn s' = Active"
    "same_reading s1 s'" "pending_input s' = pending_input s1"
    "list_all2 (\<lambda>m. sent_as (ws_role s1) (frame_of_message m)) ms fs"
    "ws_outgoing mem_out s' = ws_outgoing mem_out s1 @ concat (map (frame_bytes aligned_le) fs)"
    using Cons.IH[of s1] s1(2) Cons.prems(2) by auto
  moreover have "ws_role s1 = ws_role s" using s1(3) by (simp add: same_reading_def)
  ultimately show ?case
    using s1 same_reading_trans[OF s1(3)] by (intro exI[of _ s'] exI[of _ "f1 # fs"]) simp
qed simp

text \<open>The messages arrive, and the pongs for the pings among them go out.\<close>

lemma read_n_answers:
  fixes s :: mem_socket
  assumes "reading_at inc s (fs @ gs)" "list_all2 (\<lambda>m. sent_as (peer (ws_role s)) (frame_of_message m)) ms fs"
    and "\<forall>m \<in> set ms. transferable (ws_config s) m \<and> (inc = None \<or> interleavable m)"
  shows "\<exists>t. read_n (mem_env :: (mem_io, unit, mask4, 'r, 'x) env) (length ms) s = Some (ms, t) \<and> reading_at inc t gs
    \<and> ws_role t = ws_role s \<and> ws_config t = ws_config s \<and> answered s ms t"
  using assms
proof (induction ms arbitrary: s fs)
  case Nil
  then show ?case by (simp add: answered_refl)
next
  case (Cons m ms)
  then obtain f' fs' where fs: "fs = f' # fs'" "sent_as (peer (ws_role s)) (frame_of_message m) f'"
    "list_all2 (\<lambda>m. sent_as (peer (ws_role s)) (frame_of_message m)) ms fs'"
    by (auto simp: list_all2_Cons1)
  obtain s' where s': "ws_read (mem_env :: (mem_io, unit, mask4, 'r, 'x) env) s = Some (Ok m, s')" "reading_at inc s' (fs' @ gs)"
    "ws_role s' = ws_role s" "ws_config s' = ws_config s" "answered s [m] s'"
    using read_answers[of inc s f' "fs' @ gs" m] Cons.prems fs by auto
  obtain t where "read_n (mem_env :: (mem_io, unit, mask4, 'r, 'x) env) (length ms) s' = Some (ms, t)" "reading_at inc t gs"
    "ws_role t = ws_role s'" "ws_config t = ws_config s'" "answered s' ms t"
    using Cons.IH[of s' fs'] Cons.prems(3) fs(3) s' by auto
  then show ?case using s' answered_trans[OF s'(5), of ms t] by auto
qed

lemma read_n_append:
  "read_n env n s = Some (ms, t) \<Longrightarrow> read_n env (n + k) s = map_option (\<lambda>(ns, u). (ms @ ns, u)) (read_n env k t)"
proof (induction n arbitrary: s ms)
  case 0
  then show ?case by (cases "read_n env k s") auto
next
  case (Suc n)
  obtain r s1 where "ws_read env s = Some (r, s1)" using Suc.prems by (cases "ws_read env s") auto
  moreover obtain m where "r = Ok m" using Suc.prems calculation by (cases r) auto
  ultimately show ?case
    using Suc by (auto simp: option.map_comp comp_def split_def)
qed

section \<open>The closing handshake\<close>

text \<open>Close frames that come back as they were, within the limits of the receiver.\<close>

definition closing_ok :: "websocket_config \<Rightarrow> close_frame option \<Rightarrow> bool" where
  "closing_ok cfg code \<longleftrightarrow> (\<forall>fr. code = Some fr \<longrightarrow>
     utf8_wf (close_reason fr) \<and> length (utf8_raw (close_reason fr)) \<le> 123
     \<and> close_code_of_u16 (u16_of_close_code (close_code fr)) = close_code fr
     \<and> close_code_is_allowed (close_code fr)
     \<and> length (utf8_raw (close_reason fr)) + 2 \<le> limit_of (max_frame_size cfg))"

lemma closing_frame:
  assumes "closing_ok cfg code"
  shows "length (payload (frame_close code)) \<le> 125"
    "length (payload (frame_close code)) \<le> limit_of (max_frame_size cfg)"
    "frame_into_close std_simdutf8 (frame_close code) = Ok code"
    "close_answer c code = code"
  using assms close_roundtrip[OF std_utf8.utf8_validator_axioms]
  by (cases code; auto simp: closing_ok_def frame_close_def frame_into_close_def close_answer_def)+

lemma closing_receivable:
  assumes "closing_ok cfg code" "sent_as (peer rl) (frame_close code) f'" "decoder_set_up rl cfg d"
  shows "receivable d f'" "delivered aligned_le d f' = frame_close code"
proof -
  let ?f = "frame_close code"
  have f: "opcode_wf (opcode (header ?f))" "\<not> is_reserved (opcode (header ?f))" "frame_mask (header ?f) = None"
    by (simp_all add: frame_close_def default_header_def)
  show "receivable d f'" "delivered aligned_le d f' = ?f"
    using plain_receivable[OF f closing_frame(2)[OF assms(1)] assms(2,3)] by blast+
qed

lemma accept_close_frame:
  fixes s :: "('s, 'q, 'g) websocket"
  assumes "closing_ok cfg code" "can_read (ws_conn s)"
  shows "accept_frame std_simdutf8 (frame_close code) s
    = (Ok (Some (MClose code), if ws_conn s = Active then Some (frame_close code) else None) :: (('r, 'x) error, received) res,
       s\<lparr>ws_conn := if ws_conn s = Active then ClosedByPeer else CloseAcknowledged\<rparr>)"
proof -
  note f = closing_frame[OF assms(1)]
  have "accept_frame std_simdutf8 (frame_close code) s
      = (handle_control std_simdutf8 OpClose (frame_close code) s :: (('r, 'x) error, received) res \<times> _)"
    using assms(2)
    by (simp add: accept_frame_def handle_frame_def frame_is_masked_def frame_close_def default_header_def)
  moreover have "is_final (header (frame_close code))" by (simp add: frame_close_def default_header_def)
  ultimately show ?thesis
    using f(1) by (simp add: handle_control_def f(3,4) do_close_eq[OF assms(2)])
qed

lemma mem_ws_close:
  fixes s :: mem_socket
  assumes "ws_conn s = Active"
  shows "\<exists>s' f'. ws_close (mem_env :: (mem_io, unit, mask4, 'r, 'x) env) code s = (Ok (), s')
    \<and> same_reading s s' \<and> ws_conn s' = ClosedByUs \<and> pending_input s' = pending_input s \<and> fc_write_buf (ws_codec s') = []
    \<and> sent_as (ws_role s) (frame_close code) f' \<and> ws_outgoing mem_out s' = ws_outgoing mem_out s @ frame_bytes aligned_le f'"
proof -
  let ?env = "mem_env :: (mem_io, unit, mask4, 'r, 'x) env"
  let ?s = "s\<lparr>ws_conn := ClosedByUs\<rparr>"
  have env: "env_transport ?env = mem_transport" "env_platform ?env = aligned_le" by (simp_all add: mem_env_def)
  obtain s1 where s1: "write_frame ?env (frame_close code) ?s = (Ok (), s1)" "ws_conn s1 = ClosedByUs"
    "pending_input s1 = pending_input s"
    using mem_write_frame[of "frame_close code" ?s] by (auto simp: pending_input_def)
  obtain s2 where s2: "on_codec (codec_flush (env_transport ?env)) s1 = (Ok () :: (('r, 'x) error, unit) res, s2)"
    "pending_input s2 = pending_input s1"
    using mem_flush[of s1, where ?'r = 'r and ?'x = 'x] unfolding env by blast
  have cl: "ws_close ?env code s = (Ok (), s2)"
    using assms s1 s2 by (simp add: ws_close_def ws_flush_def can_read_def)
  show ?thesis
    using mem.ws_close_ok[OF cl] cl assms s1 s2 by (auto simp: env)
qed

text \<open>More input for a connection, in pieces or in one.\<close>

definition arrive :: "bytes list \<Rightarrow> mem_socket \<Rightarrow> mem_socket" where
  "arrive cs s = s\<lparr>ws_codec := codec_set_io ((codec_get_io (ws_codec s))\<lparr>mem_in := mem_in (codec_get_io (ws_codec s)) @ cs\<rparr>) (ws_codec s)\<rparr>"

definition deliver :: "bytes \<Rightarrow> mem_socket \<Rightarrow> mem_socket" where
  "deliver bs s = arrive [bs] s"

lemma arrive_only_read: "only_read s (arrive cs s)" "pending_input (arrive cs s) = pending_input s @ concat cs"
  by (simp_all add: arrive_def only_read_def ws_decoder_def ws_outgoing_def outgoing_def pending_input_def)

lemma deliver_only_read: "only_read s (deliver bs s)" "pending_input (deliver bs s) = pending_input s @ bs"
  using arrive_only_read[where s = s and cs = "[bs]"] by (simp_all add: deliver_def)

lemma only_read_inv: "only_read s s1 \<Longrightarrow> ws_inv s1 \<longleftrightarrow> ws_inv s"
  by (simp add: only_read_def ws_inv_def)

lemma only_read_trans: "only_read a b \<Longrightarrow> only_read b c \<Longrightarrow> only_read a c"
  by (simp add: only_read_def)

text \<open>A close frame arrives.\<close>

lemma read_close:
  fixes s :: mem_socket
  assumes inv: "ws_inv s" "dec_header (ws_decoder s) = None" "can_read (ws_conn s)" and buf: "fc_write_buf (ws_codec s) = []"
    and code: "closing_ok (ws_config s) code" "sent_as (peer (ws_role s)) (frame_close code) f'"
    and input: "pending_input s = frame_bytes aligned_le f'"
  shows "\<exists>s'. ws_read (mem_env :: (mem_io, unit, mask4, 'r, 'x) env) s = Some (Ok (MClose code), s')
    \<and> ws_inv s' \<and> ws_role s' = ws_role s \<and> pending_input s' = [] \<and> dec_header (ws_decoder s') = None \<and> fc_write_buf (ws_codec s') = []
    \<and> (if ws_conn s = Active
       then ws_conn s' = ClosedByPeer \<and> (\<exists>g. sent_as (ws_role s) (frame_close code) g
         \<and> ws_outgoing mem_out s' = ws_outgoing mem_out s @ frame_bytes aligned_le g)
       else ws_conn s' = CloseAcknowledged \<and> ws_outgoing mem_out s' = ws_outgoing mem_out s)"
proof -
  let ?env = "mem_env :: (mem_io, unit, mask4, 'r, 'x) env"
  have env: "env_platform ?env = aligned_le" by (simp add: mem_env_def)
  have set_up: "decoder_set_up (ws_role s) (ws_config s) (ws_decoder s)" using inv(1) by (simp add: ws_inv_def)
  note recv = closing_receivable[OF code set_up]
  obtain s1 where s1: "only_read s s1" "pending_input s1 = []"
    and turn: "read_message_frame ?env s = accept_frame std_simdutf8 (frame_close code) s1"
    using mem_next_frame[OF recv(1) inv(2), of "[]", where ?'r = 'r and ?'x = 'x] input recv(2) by auto
  have "can_read (ws_conn s1)" using inv(3) s1(1) by (simp add: only_read_def)
  define t where "t = s1\<lparr>ws_conn := if ws_conn s1 = Active then ClosedByPeer else CloseAcknowledged\<rparr>"
  have t: "read_message_frame ?env s
      = (Ok (Some (MClose code), if ws_conn s = Active then Some (frame_close code) else None), t)"
    using accept_close_frame[OF code(1) \<open>can_read (ws_conn s1)\<close>, where ?'r = 'r and ?'x = 'x] turn s1(1)
    by (simp add: t_def only_read_def)
  obtain s2 where s2: "ws_read ?env s = Some (Ok (MClose code), s2)"
    "auto_send ?env (if ws_conn s = Active then Some (frame_close code) else None) t = (Ok (), s2)"
    "same_reading t s2" "ws_conn s2 = ws_conn t" "pending_input s2 = pending_input t"
    using mem_read_message[OF inv(3) t] by blast
  have tt: "ws_role t = ws_role s" "ws_outgoing mem_out t = ws_outgoing mem_out s" "fc_write_buf (ws_codec t) = []"
    "ws_conn t = (if ws_conn s = Active then ClosedByPeer else CloseAcknowledged)" "pending_input t = []"
    "ws_decoder t = ws_decoder s"
    using s1 buf by (simp_all add: t_def only_read_def ws_outgoing_def pending_input_def ws_decoder_def)
  have "ws_inv s2" using mem.ws_read_ok[OF inv(1) s2(1)] by simp
  have basics: "ws_role s2 = ws_role s" "pending_input s2 = []" "dec_header (ws_decoder s2) = None" "ws_conn s2 = ws_conn t"
    using s2(3-5) tt inv(2) by (simp_all add: same_reading_def same_reader_def ws_decoder_def)
  note sent = mem.auto_send_ok[OF s2(2)]
  show ?thesis
  proof (cases "ws_conn s = Active")
    case True
    then have "fc_write_buf (ws_codec s2) = [] \<and> (\<exists>g. sent_as (ws_role s) (frame_close code) g
        \<and> ws_outgoing mem_out s2 = ws_outgoing mem_out s @ frame_bytes aligned_le g)"
      using sent tt by (simp add: env)
    then show ?thesis using s2(1) basics tt(4) True \<open>ws_inv s2\<close> by (intro exI[of _ s2]) simp
  next
    case False
    then have "s2 = t" using s2(2) by (simp add: auto_send_def)
    then show ?thesis using s2(1) basics tt False \<open>ws_inv s2\<close> by (intro exI[of _ s2]) simp
  qed
qed

text \<open>The end of the stream after the handshake.\<close>

lemma read_after_close:
  fixes s :: mem_socket
  assumes "ws_conn s = ClosedByPeer \<or> ws_conn s = CloseAcknowledged" "pending_input s = []" "dec_header (ws_decoder s) = None"
  shows "\<exists>s'. ws_read (mem_env :: (mem_io, unit, mask4, 'r, 'x) env) s = Some (Err ConnectionClosed, s') \<and> ws_conn s' = Terminated"
proof -
  let ?env = "mem_env :: (mem_io, unit, mask4, 'r, 'x) env"
  have env: "env_platform ?env = aligned_le" "env_utf8 ?env = std_simdutf8" "env_transport ?env = mem_transport"
    by (simp_all add: mem_env_def)
  have eof: "mem_drive (decode aligned_le) d [] cs = (None :: (('r, 'x) error, frame) res option, d, [], [])"
    if "dec_header d = None" "concat cs = []" for d cs
    using that(2)
  proof (induction cs)
    case (Cons c cs)
    then show ?case by (subst mem_drive.simps) (simp add: decode_empty[OF that(1)])
  qed (subst mem_drive.simps; simp add: decode_empty[OF that(1)])
  have "codec_next aligned_le (mem_transport :: (mem_io, unit, ('r, 'x) error) transport) (ws_codec s)
      = (None, (ws_codec s)\<lparr>fc_inner := (fc_inner (ws_codec s))\<lparr>fr_io := (fr_io (fc_inner (ws_codec s)))\<lparr>mem_in := []\<rparr>,
          fr_decoder := fr_decoder (fc_inner (ws_codec s)), fr_buffer := []\<rparr>\<rparr>)"
    using assms(2,3) by (simp add: codec_next_mem pending_input_def codec_get_io_def ws_decoder_def eof)
  then obtain s1 where "read_message_frame ?env s = (Err ConnectionClosed, s1)" "ws_conn s1 = Terminated"
    using assms(1) unfolding read_message_frame_def env on_codec_def by (auto simp: end_of_stream_def)
  then show ?thesis
    using assms(1) by (auto simp: ws_read_def check_not_terminated_def read_loop.simps[of _ s] can_read_def)
qed

end
