(* ===== verification/Fragmentation.thy ===== *)
theory Fragmentation
  imports Mem_Session
begin

text \<open>
  Received frames as a protocol: the violations a frame can be refused for, as a
  specification in one place, and the assembly of a fragmented message from its data frames,
  with control frames in between.
\<close>

section \<open>Violations\<close>

text \<open>
  The reason to refuse a frame, by the role, the closing state, and whether a message is
  being assembled; the first that applies.
\<close>

definition control_violation :: "op_ctl \<Rightarrow> frame \<Rightarrow> protocol_error option" where
  "control_violation ctl f =
     (if \<not> is_final (header f) then Some FragmentedControlFrame
      else if length (payload f) > 125 then Some ControlFrameTooBig
      else case ctl of
        OpClose \<Rightarrow> (if length (payload f) = 1 then Some InvalidCloseSequence else None)
      | OpCtlReserved i \<Rightarrow> Some (UnknownControlFrameType i)
      | _ \<Rightarrow> None)"

definition data_violation :: "bool \<Rightarrow> op_data \<Rightarrow> protocol_error option" where
  "data_violation assembling d = (case d of
     OpContinue \<Rightarrow> (if assembling then None else Some UnexpectedContinueFrame)
   | _ \<Rightarrow> if assembling then Some (ExpectedFragment d)
       else (case d of OpDataReserved i \<Rightarrow> Some (UnknownDataFrameType i) | _ \<Rightarrow> None))"

definition frame_violation :: "role \<Rightarrow> conn_state \<Rightarrow> bool \<Rightarrow> frame \<Rightarrow> protocol_error option" where
  "frame_violation rl c assembling f =
     (if c \<noteq> Active \<and> c \<noteq> ClosedByUs then Some ReceivedAfterClosing
      else if rsv1 (header f) \<or> rsv2 (header f) \<or> rsv3 (header f) then Some NonZeroReservedBits
      else if rl = Client \<and> frame_is_masked f then Some MaskedFrameFromServer
      else case opcode (header f) of
        OpControl ctl \<Rightarrow> control_violation ctl f
      | OpData d \<Rightarrow> data_violation assembling d)"

text \<open>The errors that are no violations of the protocol.\<close>

definition content_error :: "('r, 'x) error \<Rightarrow> bool" where
  "content_error e \<longleftrightarrow> (\<exists>t. e = Utf8 t) \<or> (\<exists>c. e = Capacity c)"

lemma content_not_protocol: "content_error (Protocol e) \<longleftrightarrow> False"
  by (simp add: content_error_def)

lemma collector_push_error:
  "collector_push sv c input = (Err e, c') \<Longrightarrow> content_error e"
  by (auto simp: collector_push_def incomplete_from_bytes_def content_error_def Let_def
      split: if_splits utf8_verdict.splits option.splits prod.splits res.splits)

lemma try_complete_no_error: "fst (try_complete sv i input) \<noteq> Err e"
  by (auto simp: try_complete_def try_complete_offsets_def take_buffer_def bind_st_def Let_def
      split: if_splits utf8_verdict.splits option.splits prod.splits res.splits sum.splits)

lemma collector_extend_error:
  "collector_extend sv c input = (Err e, c') \<Longrightarrow> content_error e"
  using try_complete_no_error[of sv "sc_incomplete c" input e]
  by (auto simp: collector_extend_def content_error_def Let_def
      split: if_splits option.splits prod.splits res.splits sum.splits dest: collector_push_error)

lemma extend_error:
  "incomplete_message_extend sv m tail l = (Err e, m') \<Longrightarrow> content_error e"
  by (auto simp: incomplete_message_extend_def content_error_def Let_def
      split: if_splits message_collector.splits prod.splits dest!: collector_extend_error)

lemma complete_error: "incomplete_message_complete m = Err e \<Longrightarrow> content_error e"
  by (auto simp: incomplete_message_complete_def collector_into_string_def content_error_def
      split: message_collector.splits if_splits)

lemma question_error: "utf8_question sv r = Err e \<Longrightarrow> content_error e"
  by (cases r) (auto simp: content_error_def)

lemma check_max_size_error: "check_max_size n l = Err e \<Longrightarrow> content_error e"
  by (auto simp: check_max_size_def content_error_def split: option.splits if_splits)

text \<open>Binding keeps a class of errors.\<close>

lemma bind_st_error:
  assumes "bind_st r k = (Err e, t)" "\<And>d s. r = (Err d, s) \<Longrightarrow> P d" "\<And>a s d u. k a s = (Err d, u) \<Longrightarrow> P d"
  shows "P e"
  using assms by (auto simp: bind_st_def split: prod.splits res.splits)

lemma handle_control_violation:
  fixes s :: "('s, 'q, 'g) websocket"
  assumes "can_read (ws_conn s)"
  shows "case control_violation ctl f of
      Some e \<Rightarrow> handle_control sv ctl f s = (Err (Protocol e) :: (('r, 'x) error, received) res, s)
    | None \<Rightarrow> (\<forall>e s'. handle_control sv ctl f s = (Err e :: (('r, 'x) error, received) res, s') \<longrightarrow> content_error e)"
proof (cases "is_final (header f) \<and> length (payload f) \<le> 125 \<and> ctl = OpClose")
  case False
  then show ?thesis by (cases ctl) (auto simp: control_violation_def handle_control_def)
next
  case True
  show ?thesis
  proof (cases "length (payload f) = 1")
    case one: True
    then have "frame_into_close sv f = (Err (Protocol InvalidCloseSequence) :: (('r, 'x) error, close_frame option) res)"
      by (auto simp: frame_into_close_def length_Suc_conv)
    then show ?thesis using True one by (simp add: control_violation_def handle_control_def)
  next
    case False
    have "content_error e" if "frame_into_close sv f = (Err e :: (('r, 'x) error, close_frame option) res)" for e
      using that False
      by (cases "utf8_question sv (utf8_try_from sv (drop 2 (payload f))) :: (('r, 'x) error, utf8_bytes) res")
        (auto simp: frame_into_close_def split: list.splits dest: question_error)
    then have "content_error e" if "handle_control sv ctl f s = (Err e :: (('r, 'x) error, received) res, s')" for e s'
      using that True
      by (cases "frame_into_close sv f :: (('r, 'x) error, close_frame option) res")
        (auto simp: handle_control_def do_close_eq[OF assms])
    then show ?thesis using True False by (simp add: control_violation_def)
  qed
qed

lemma handle_data_violation:
  fixes s :: "('s, 'q, 'g) websocket"
  shows "case data_violation (ws_incomplete s \<noteq> None) d of
      Some e \<Rightarrow> handle_data sv d f s = (Err (Protocol e) :: (('r, 'x) error, message option) res, s)
    | None \<Rightarrow> (\<forall>e s'. handle_data sv d f s = (Err e :: (('r, 'x) error, message option) res, s') \<longrightarrow> content_error e)"
proof (cases "ws_incomplete s")
  case None
  then show ?thesis
    by (cases d)
      (auto simp: data_violation_def handle_data_def handle_continue_def handle_first_fragment_def
        split: if_splits prod.splits elim!: bind_st_error[where P = content_error]
        dest: extend_error complete_error question_error check_max_size_error)
next
  case (Some m)
  then show ?thesis
    by (cases d)
      (auto simp: data_violation_def handle_data_def handle_continue_def
        split: if_splits prod.splits elim!: bind_st_error[where P = content_error]
        dest: extend_error complete_error)
qed

lemma accept_frame_violation:
  fixes s :: "('s, 'q, 'g) websocket"
  shows "case frame_violation (ws_role s) (ws_conn s) (ws_incomplete s \<noteq> None) f of
      Some e \<Rightarrow> accept_frame sv f s = (Err (Protocol e) :: (('r, 'x) error, received) res, s)
    | None \<Rightarrow> (\<forall>e s'. accept_frame sv f s = (Err e :: (('r, 'x) error, received) res, s') \<longrightarrow> content_error e)"
proof (cases "\<not> can_read (ws_conn s) \<or> rsv1 (header f) \<or> rsv2 (header f) \<or> rsv3 (header f)
    \<or> (ws_role s = Client \<and> frame_is_masked f)")
  case True
  then show ?thesis by (auto simp: frame_violation_def accept_frame_def can_read_def)
next
  case False
  then have accept: "accept_frame sv f s = (handle_frame sv f s :: (('r, 'x) error, received) res \<times> _)"
      "can_read (ws_conn s)" "ws_conn s = Active \<or> ws_conn s = ClosedByUs"
    by (auto simp: accept_frame_def can_read_def)
  have violation: "frame_violation (ws_role s) (ws_conn s) (ws_incomplete s \<noteq> None) f = (case opcode (header f) of
      OpControl ctl \<Rightarrow> control_violation ctl f | OpData d \<Rightarrow> data_violation (ws_incomplete s \<noteq> None) d)"
    using False accept(3) by (auto simp: frame_violation_def simp del: not_None_eq)
  show ?thesis
  proof (cases "opcode (header f)")
    case (OpControl ctl)
    with accept violation handle_control_violation[OF accept(2), where ctl = ctl and f = f and sv = sv and ?'r = 'r and ?'x = 'x]
    show ?thesis by (auto simp: handle_frame_def simp del: not_None_eq split: option.splits)
  next
    case (OpData d)
    have "content_error e"
      if "bind_st (handle_data sv d f s) (\<lambda>msg s1. (Ok (msg, None), s1)) = (Err e :: (('r, 'x) error, received) res, s')"
        and "data_violation (ws_incomplete s \<noteq> None) d = None" for e s'
      using that handle_data_violation[where s = s and d = d and sv = sv and f = f and ?'r = 'r and ?'x = 'x]
      by (auto elim!: bind_st_error[where P = content_error])
    with accept violation OpData handle_data_violation[where s = s and d = d and sv = sv and f = f and ?'r = 'r and ?'x = 'x]
    show ?thesis by (auto simp: handle_frame_def simp del: not_None_eq split: option.splits)
  qed
qed

section \<open>A fragmented message\<close>

fun fragment_op :: "incomplete_type \<Rightarrow> op_data" where
  "fragment_op IncText = OpText"
| "fragment_op IncBinary = OpBinary"

definition data_frame :: "op_data \<Rightarrow> bool \<Rightarrow> bytes \<Rightarrow> frame" where
  "data_frame d fin data = \<lparr>header = default_header\<lparr>is_final := fin, opcode := OpData d\<rparr>, payload = data\<rparr>"

text \<open>The frames that continue a message: before each piece, control messages; the last piece is final.\<close>

fun continuation :: "(message list \<times> bytes) list \<Rightarrow> frame list" where
  "continuation [] = []"
| "continuation ((cs, p) # parts) = map frame_of_message cs @ data_frame OpContinue (parts = []) p # continuation parts"

definition fragmented :: "incomplete_type \<Rightarrow> bytes \<Rightarrow> (message list \<times> bytes) list \<Rightarrow> frame list" where
  "fragmented ty p parts = data_frame (fragment_op ty) False p # continuation parts"

definition pieces :: "(message list \<times> bytes) list \<Rightarrow> bytes" where
  "pieces parts = concat (map snd parts)"

definition controls :: "(message list \<times> bytes) list \<Rightarrow> message list" where
  "controls parts = concat (map fst parts)"

lemma parts_simps [simp]:
  "pieces [] = []" "pieces ((cs, p) # parts) = p @ pieces parts"
  "controls [] = []" "controls ((cs, p) # parts) = cs @ controls parts"
  by (simp_all add: pieces_def controls_def)

text \<open>What the receiver's limits allow.\<close>

definition parts_fit :: "websocket_config \<Rightarrow> (message list \<times> bytes) list \<Rightarrow> bool" where
  "parts_fit cfg parts \<longleftrightarrow> (\<forall>(cs, p) \<in> set parts. length p \<le> limit_of (max_frame_size cfg)
     \<and> (\<forall>m \<in> set cs. interleavable m \<and> transferable cfg m))"

lemma data_frame_receivable:
  assumes "sent_as (peer rl) (data_frame d fin p) f'" "decoder_set_up rl cfg dec" "length p \<le> limit_of (max_frame_size cfg)"
    and "d = OpText \<or> d = OpBinary \<or> d = OpContinue"
  shows "receivable dec f'" "delivered aligned_le dec f' = data_frame d fin p"
proof -
  have "opcode_wf (opcode (header (data_frame d fin p)))" "\<not> is_reserved (opcode (header (data_frame d fin p)))"
    "frame_mask (header (data_frame d fin p)) = None"
    using assms(4) by (auto simp: data_frame_def default_header_def)
  from plain_receivable[OF this _ assms(1,2)] show "receivable dec f'" "delivered aligned_le dec f' = data_frame d fin p"
    using assms(3) by (simp_all add: data_frame_def)
qed

text \<open>One piece: the message grows, and is complete with a final one.\<close>

lemma extend_ok:
  assumes "message_rep m ty input" "length (input @ p @ rest) \<le> limit_of l" "content_ok ty (input @ p @ rest)"
  shows "\<exists>m'. (incomplete_message_extend std_simdutf8 m p l :: (('r, 'x) error, unit) res \<times> _) = (Ok (), m')
    \<and> message_rep m' ty (input @ p)"
proof -
  have "text_break ty (input @ p) = None"
    using text_break_content[of ty "input @ p" rest] assms(3) by (metis append_assoc)
  moreover have "length (input @ p) < 2 ^ 64" "length (input @ p) \<le> limit_of l"
    using assms(2) limit_of_less[of l] by simp_all
  ultimately show ?thesis
    using std_utf8.extend_within_limit[OF assms(1), of p l, where ?'r = 'r and ?'x = 'x] by auto
qed

lemma accept_first:
  fixes s :: "('s, 'q, 'g) websocket"
  assumes "ws_conn s = Active" "ws_incomplete s = None"
    and "length (p @ rest) \<le> limit_of (max_message_size (ws_config s))" "content_ok ty (p @ rest)"
  shows "\<exists>m. accept_frame std_simdutf8 (data_frame (fragment_op ty) False p) s
      = (Ok (None, None) :: (('r, 'x) error, received) res, s\<lparr>ws_incomplete := Some m\<rparr>) \<and> message_rep m ty p"
proof -
  obtain m where m: "(incomplete_message_extend std_simdutf8 (incomplete_message_new ty) p (max_message_size (ws_config s))
      :: (('r, 'x) error, unit) res \<times> _) = (Ok (), m)" "message_rep m ty p"
    using extend_ok[OF message_rep_new, of p rest "max_message_size (ws_config s)" ty, where ?'r = 'r and ?'x = 'x] assms(3,4)
    by auto
  have "accept_frame std_simdutf8 (data_frame (fragment_op ty) False p) s
      = (Ok (None, None) :: (('r, 'x) error, received) res, s\<lparr>ws_incomplete := Some m\<rparr>)"
    using assms(1,2) m(1)
    by (cases ty) (simp_all add: accept_frame_def can_read_def data_frame_def default_header_def frame_is_masked_def
        handle_frame_def handle_data_def handle_first_fragment_def frame_into_payload_def)
  then show ?thesis using m(2) by blast
qed

lemma accept_piece:
  fixes s :: "('s, 'q, 'g) websocket"
  assumes "ws_conn s = Active" "ws_incomplete s = Some m" "message_rep m ty input"
    and "length (input @ p @ rest) \<le> limit_of (max_message_size (ws_config s))" "content_ok ty (input @ p @ rest)"
    and "fin \<Longrightarrow> rest = []"
  shows "\<exists>m'. accept_frame std_simdutf8 (data_frame OpContinue fin p) s
      = (if fin then (Ok (Some (message_of ty (input @ p)), None), s\<lparr>ws_incomplete := None\<rparr>)
         else (Ok (None, None), s\<lparr>ws_incomplete := Some m'\<rparr>) :: (('r, 'x) error, received) res \<times> _)
      \<and> message_rep m' ty (input @ p)"
proof -
  obtain m' where m': "(incomplete_message_extend std_simdutf8 m p (max_message_size (ws_config s))
      :: (('r, 'x) error, unit) res \<times> _) = (Ok (), m')" "message_rep m' ty (input @ p)"
    using extend_ok[OF assms(3-5), where ?'r = 'r and ?'x = 'x] by blast
  have accept: "accept_frame std_simdutf8 (data_frame OpContinue fin p) s
      = (bind_st (handle_continue std_simdutf8 (data_frame OpContinue fin p) s) (\<lambda>msg s1. (Ok (msg, None), s1))
         :: (('r, 'x) error, received) res \<times> _)"
    using assms(1) by (simp add: accept_frame_def can_read_def data_frame_def default_header_def frame_is_masked_def
        handle_frame_def handle_data_def)
  have "(incomplete_message_complete m' :: (('r, 'x) error, message) res) = Ok (message_of ty (input @ p))" if fin
    using assms(5,6) that by (simp add: complete_rep[OF m'(2)])
  then show ?thesis
    using m' assms(2) unfolding accept
    by (intro exI[of _ m']) (simp add: handle_continue_def data_frame_def frame_into_payload_def)
qed

text \<open>A turn without a message is a turn of the same \<open>read\<close>.\<close>

lemma read_quiet:
  fixes s :: mem_socket
  assumes "read_message_frame (mem_env :: (mem_io, unit, mask4, 'r, 'x) env) s = (Ok (None, None), s1)"
    and "can_read (ws_conn s)" "can_read (ws_conn s1)"
  shows "ws_read (mem_env :: (mem_io, unit, mask4, 'r, 'x) env) s = ws_read mem_env s1"
proof -
  have "read_loop (mem_env :: (mem_io, unit, mask4, 'r, 'x) env) s = read_loop mem_env s1"
    by (subst read_loop.simps) (simp add: assms(1) auto_send_def)
  moreover have "ws_conn s \<noteq> Terminated" "ws_conn s1 \<noteq> Terminated" using assms(2,3) by (auto simp: can_read_def)
  ultimately show ?thesis using assms(2,3) by (simp add: ws_read_def check_not_terminated_def)
qed

lemma read_n_quiet: "ws_read env s = ws_read env s1 \<Longrightarrow> read_n env (Suc n) s = read_n env (Suc n) s1"
  by simp

text \<open>A piece that does not end its message.\<close>

lemma read_unfinished:
  fixes s :: mem_socket
  assumes at: "reading_at inc s (f' # fs)" and recv: "receivable (ws_decoder s) f'" "delivered aligned_le (ws_decoder s) f' = f"
    and accept: "\<And>s1 :: mem_socket. ws_conn s1 = Active \<Longrightarrow> ws_incomplete s1 = inc \<Longrightarrow> ws_config s1 = ws_config s \<Longrightarrow>
      \<exists>m. accept_frame std_simdutf8 f s1 = (Ok (None, None) :: (('r, 'x) error, received) res, s1\<lparr>ws_incomplete := Some m\<rparr>)
        \<and> message_rep m ty input"
    and fits: "length input \<le> limit_of (max_message_size (ws_config s))"
  shows "\<exists>s1 m. ws_read (mem_env :: (mem_io, unit, mask4, 'r, 'x) env) s = ws_read mem_env s1
    \<and> reading_at (Some m) s1 fs \<and> message_rep m ty input \<and> ws_role s1 = ws_role s \<and> ws_config s1 = ws_config s"
proof -
  obtain s1 where s1: "reading_at inc s1 fs" "ws_role s1 = ws_role s" "ws_config s1 = ws_config s"
    "read_message_frame (mem_env :: (mem_io, unit, mask4, 'r, 'x) env) s = accept_frame std_simdutf8 f s1"
    using read_turn[OF at recv] by blast
  obtain m where m: "accept_frame std_simdutf8 f s1 = (Ok (None, None) :: (('r, 'x) error, received) res, s1\<lparr>ws_incomplete := Some m\<rparr>)"
    "message_rep m ty input"
    using accept[of s1] s1 by (auto simp: reading_at_def)
  have next_at: "reading_at (Some m) (s1\<lparr>ws_incomplete := Some m\<rparr>) fs"
    using s1(1,3) m(2) fits
    by (auto simp: reading_at_def ws_inv_def ws_decoder_def pending_input_def incomplete_ok_def)
  have "read_message_frame (mem_env :: (mem_io, unit, mask4, 'r, 'x) env) s = (Ok (None, None), s1\<lparr>ws_incomplete := Some m\<rparr>)"
    using s1(4) m(1) by simp
  from read_quiet[OF this reading_can_read[OF at] reading_can_read[OF next_at]]
  show ?thesis using next_at m(2) s1(2,3) by (intro exI[of _ "s1\<lparr>ws_incomplete := Some m\<rparr>"] exI[of _ m]) simp
qed

lemma read_first:
  fixes s :: mem_socket
  assumes at: "reading_at None s (f' # fs)"
    and sent: "sent_as (peer (ws_role s)) (data_frame (fragment_op ty) False p) f'"
    and fits: "length p \<le> limit_of (max_frame_size (ws_config s))"
    and ok: "length (p @ rest) \<le> limit_of (max_message_size (ws_config s))" "content_ok ty (p @ rest)"
  shows "\<exists>s1 m. ws_read (mem_env :: (mem_io, unit, mask4, 'r, 'x) env) s = ws_read mem_env s1
    \<and> reading_at (Some m) s1 fs \<and> message_rep m ty p \<and> ws_role s1 = ws_role s \<and> ws_config s1 = ws_config s"
proof -
  have "decoder_set_up (ws_role s) (ws_config s) (ws_decoder s)" using at by (simp add: reading_at_def ws_inv_def)
  then have recv: "receivable (ws_decoder s) f'" "delivered aligned_le (ws_decoder s) f' = data_frame (fragment_op ty) False p"
    using data_frame_receivable[OF sent _ fits] by (cases ty; simp)+
  show ?thesis
  proof (rule read_unfinished[OF at recv], goal_cases)
    case (1 s1)
    then show ?case using accept_first[of s1 p rest ty, where ?'r = 'r and ?'x = 'x] ok by simp
  qed (use ok in simp)
qed

lemma read_piece:
  fixes s :: mem_socket
  assumes at: "reading_at (Some m) s (f' # fs)" and rep: "message_rep m ty input"
    and sent: "sent_as (peer (ws_role s)) (data_frame OpContinue False p) f'"
    and fits: "length p \<le> limit_of (max_frame_size (ws_config s))"
    and ok: "length (input @ p @ rest) \<le> limit_of (max_message_size (ws_config s))" "content_ok ty (input @ p @ rest)"
  shows "\<exists>s1 m'. ws_read (mem_env :: (mem_io, unit, mask4, 'r, 'x) env) s = ws_read mem_env s1
    \<and> reading_at (Some m') s1 fs \<and> message_rep m' ty (input @ p) \<and> ws_role s1 = ws_role s \<and> ws_config s1 = ws_config s"
proof -
  have "decoder_set_up (ws_role s) (ws_config s) (ws_decoder s)" using at by (simp add: reading_at_def ws_inv_def)
  then have recv: "receivable (ws_decoder s) f'" "delivered aligned_le (ws_decoder s) f' = data_frame OpContinue False p"
    using data_frame_receivable[OF sent _ fits] by simp_all
  show ?thesis
  proof (rule read_unfinished[OF at recv], goal_cases)
    case (1 s1)
    then show ?case using accept_piece[OF 1(1,2) rep, of p rest False, where ?'r = 'r and ?'x = 'x] ok by simp
  qed (use ok in simp)
qed

lemma read_finished:
  fixes s :: mem_socket
  assumes at: "reading_at (Some m) s (f' # fs)" and rep: "message_rep m ty input"
    and sent: "sent_as (peer (ws_role s)) (data_frame OpContinue True p) f'" and "length p \<le> limit_of (max_frame_size (ws_config s))"
    and "length (input @ p) \<le> limit_of (max_message_size (ws_config s))" "content_ok ty (input @ p)"
  shows "\<exists>s'. ws_read (mem_env :: (mem_io, unit, mask4, 'r, 'x) env) s = Some (Ok (message_of ty (input @ p)), s')
    \<and> reading_at None s' fs \<and> ws_role s' = ws_role s \<and> ws_config s' = ws_config s"
proof -
  have "decoder_set_up (ws_role s) (ws_config s) (ws_decoder s)" using at by (simp add: reading_at_def ws_inv_def)
  note recv = data_frame_receivable[OF sent this assms(4)]
  obtain s1 where s1: "reading_at (Some m) s1 fs" "ws_role s1 = ws_role s" "ws_config s1 = ws_config s"
    "read_message_frame (mem_env :: (mem_io, unit, mask4, 'r, 'x) env) s = accept_frame std_simdutf8 (data_frame OpContinue True p) s1"
    using read_turn[OF at recv] by blast
  have "accept_frame std_simdutf8 (data_frame OpContinue True p) s1
      = (Ok (Some (message_of ty (input @ p)), None) :: (('r, 'x) error, received) res, s1\<lparr>ws_incomplete := None\<rparr>)"
    using accept_piece[of s1 m ty input p "[]" True, where ?'r = 'r and ?'x = 'x] s1(1,3) rep assms(5,6)
    by (simp add: reading_at_def)
  moreover have "reading_at None (s1\<lparr>ws_incomplete := None\<rparr>) fs"
    using s1(1) by (simp add: reading_at_def ws_inv_def ws_decoder_def pending_input_def incomplete_ok_def)
  ultimately show ?thesis
    using read_gives[OF at, of "message_of ty (input @ p)" None "s1\<lparr>ws_incomplete := None\<rparr>" None fs] s1 by simp
qed

lemma read_parts:
  fixes s :: mem_socket
  assumes "reading_at (Some m) s (fs @ gs)" "message_rep m ty input" "parts \<noteq> []"
    and "list_all2 (sent_as (peer (ws_role s))) (continuation parts) fs" "parts_fit (ws_config s) parts"
    and "length (input @ pieces parts) \<le> limit_of (max_message_size (ws_config s))" "content_ok ty (input @ pieces parts)"
  shows "\<exists>t. read_n (mem_env :: (mem_io, unit, mask4, 'r, 'x) env) (length (controls parts) + 1) s
      = Some (controls parts @ [message_of ty (input @ pieces parts)], t) \<and> reading_at None t gs"
  using assms
proof (induction parts arbitrary: s m input fs)
  case (Cons part parts)
  let ?env = "mem_env :: (mem_io, unit, mask4, 'r, 'x) env"
  obtain cs p where part: "part = (cs, p)" by force
  obtain fs1 f' fs2 where fs: "fs = fs1 @ f' # fs2"
    and sent1: "list_all2 (\<lambda>m. sent_as (peer (ws_role s)) (frame_of_message m)) cs fs1"
    and sentp: "sent_as (peer (ws_role s)) (data_frame OpContinue (parts = []) p) f'"
    and sent2: "list_all2 (sent_as (peer (ws_role s))) (continuation parts) fs2"
    using Cons.prems(4) by (auto simp: part list_all2_append1 list_all2_Cons1 list.rel_map)
  have cs: "\<forall>m \<in> set cs. transferable (ws_config s) m \<and> (Some x = None \<or> interleavable m)" for x :: incomplete_message
    using Cons.prems(5) by (auto simp: part parts_fit_def)
  have fits: "length p \<le> limit_of (max_frame_size (ws_config s))" "parts_fit (ws_config s) parts"
    using Cons.prems(5) by (auto simp: part parts_fit_def)
  have "reading_at (Some m) s (fs1 @ f' # fs2 @ gs)" using Cons.prems(1) fs by simp
  then obtain t where t: "read_n ?env (length cs) s = Some (cs, t)" "reading_at (Some m) t (f' # fs2 @ gs)"
    "ws_role t = ws_role s" "ws_config t = ws_config s"
    using read_n_answers[OF _ sent1 cs, where ?'r = 'r and ?'x = 'x] by blast
  have split: "read_n ?env (length (controls (part # parts)) + 1) s
      = map_option (\<lambda>(ns, u). (cs @ ns, u)) (read_n ?env (length (controls parts) + 1) t)"
    using read_n_append[OF t(1), of "length (controls parts) + 1"] by (simp add: part add.assoc)
  show ?case
  proof (cases "parts = []")
    case True
    then obtain u where "ws_read ?env t = Some (Ok (message_of ty (input @ p)), u)" "reading_at None u (fs2 @ gs)"
      using read_finished[OF t(2) Cons.prems(2), of p] sentp fits(1) Cons.prems(6,7) t(3,4) by (auto simp: part)
    then show ?thesis using True split sent2 by (simp add: part)
  next
    case False
    obtain u m' where u: "ws_read ?env t = ws_read ?env u" "reading_at (Some m') u (fs2 @ gs)"
      "message_rep m' ty (input @ p)" "ws_role u = ws_role t" "ws_config u = ws_config t"
      using read_piece[OF t(2) Cons.prems(2), of p "pieces parts"] False sentp fits(1) Cons.prems(6,7) t(3,4)
      by (auto simp: part)
    then obtain v where "read_n ?env (length (controls parts) + 1) u
        = Some (controls parts @ [message_of ty ((input @ p) @ pieces parts)], v)" "reading_at None v gs"
      using Cons.IH[of m' u fs2 "input @ p"] False sent2 fits(2) Cons.prems(6,7) t(3,4) by (auto simp: part)
    then show ?thesis using split read_n_quiet[OF u(1)] by (simp add: part)
  qed
qed simp

end
