(* ===== verification/Http.thy ===== *)
theory Http
  imports Errors "HOL-Library.Multiset"
begin

text \<open>
  The crates \<open>http\<close> and \<open>httparse\<close>, and the hash and encoding the opening handshake uses,
  as the parameters they are for this code: one record of the operations the code calls.
  Their documented behaviour is the locale \<open>http_laws\<close>; a list of header fields with a
  small request and response parser is the instance. Header names, header values and texts
  are their bytes.
\<close>

section \<open>Operations on text\<close>

definition to_lower :: "u8 \<Rightarrow> u8" where
  "to_lower b = (if 65 \<le> b \<and> b \<le> 90 then b + 32 else b)"

definition lower :: "bytes \<Rightarrow> bytes" where
  "lower s = map to_lower s"

definition eq_ignore_ascii_case :: "bytes \<Rightarrow> bytes \<Rightarrow> bool" where
  "eq_ignore_ascii_case a b \<longleftrightarrow> lower a = lower b"

lemma to_lower_idem [simp]: "to_lower (to_lower b) = to_lower b"
proof -
  have "\<not> (65 \<le> b + 32 \<and> b + 32 \<le> 90)" if "65 \<le> b" "b \<le> 90" for b :: u8
    using that unat_plus_if'[of b 32] by (auto simp: word_le_nat_alt)
  then show ?thesis by (auto simp: to_lower_def)
qed

lemma lower_idem [simp]: "lower (lower s) = lower s"
  by (simp add: lower_def)

lemma lower_append [simp]: "lower (a @ b) = lower a @ lower b"
  by (simp add: lower_def)

lemma length_lower [simp]: "length (lower s) = length s"
  by (simp add: lower_def)

text \<open>\<open>str::split\<close>: at least one part, also of the empty text.\<close>

fun split_on :: "(u8 \<Rightarrow> bool) \<Rightarrow> bytes \<Rightarrow> bytes list" where
  "split_on P [] = [[]]"
| "split_on P (b # bs) = (if P b then [] # split_on P bs
     else (case split_on P bs of [] \<Rightarrow> [[b]] | p # ps \<Rightarrow> (b # p) # ps))"

lemma split_on_nonempty [simp]: "split_on P bs \<noteq> []"
  by (induction bs) (auto split: list.split)

lemma split_on_none: "\<forall>b \<in> set bs. \<not> P b \<Longrightarrow> split_on P bs = [bs]"
  by (induction bs) auto

lemma split_on_append: "P b \<Longrightarrow> split_on P (as @ b # bs) = split_on P as @ split_on P bs"
  by (induction as) (auto split: list.split)

text \<open>\<open>str::trim\<close>, on ASCII text.\<close>

definition is_ascii_space :: "u8 \<Rightarrow> bool" where
  "is_ascii_space b \<longleftrightarrow> b \<in> {9, 10, 11, 12, 13, 32}"

definition trim :: "bytes \<Rightarrow> bytes" where
  "trim s = rev (dropWhile is_ascii_space (rev (dropWhile is_ascii_space s)))"

definition join_with :: "bytes \<Rightarrow> bytes list \<Rightarrow> bytes" where
  "join_with sep ps = (case ps of [] \<Rightarrow> [] | p # qs \<Rightarrow> p @ concat (map (\<lambda>q. sep @ q) qs))"

lemma join_simps [simp]:
  "join_with sep [] = []" "join_with sep [p] = p" "join_with sep (p # q # qs) = p @ sep @ join_with sep (q # qs)"
  by (simp_all add: join_with_def)

text \<open>Text whose every byte is a visible ASCII character or a space: what \<open>to_str\<close> accepts.\<close>

definition visible :: "bytes \<Rightarrow> bool" where
  "visible s \<longleftrightarrow> (\<forall>b \<in> set s. b = 9 \<or> (32 \<le> b \<and> b \<le> 126))"

lemma visible_append [simp]: "visible (a @ b) \<longleftrightarrow> visible a \<and> visible b"
  by (auto simp: visible_def)

definition crlf :: bytes where
  "crlf = [13, 10]"

definition header_line :: "bytes \<Rightarrow> bytes \<Rightarrow> bytes" where
  "header_line name v = name @ ascii '': '' @ v @ crlf"

section \<open>The types of the crates\<close>

datatype http_version = HTTP_09 | HTTP_10 | HTTP_11 | HTTP_2 | HTTP_3

fun version_rank :: "http_version \<Rightarrow> nat" where
  "version_rank HTTP_09 = 0"
| "version_rank HTTP_10 = 1"
| "version_rank HTTP_11 = 2"
| "version_rank HTTP_2 = 3"
| "version_rank HTTP_3 = 4"

instantiation http_version :: linorder
begin

definition less_eq_http_version :: "http_version \<Rightarrow> http_version \<Rightarrow> bool" where
  "less_eq_http_version a b \<longleftrightarrow> version_rank a \<le> version_rank b"

definition less_http_version :: "http_version \<Rightarrow> http_version \<Rightarrow> bool" where
  "less_http_version a b \<longleftrightarrow> version_rank a < version_rank b"

instance
proof
  fix a b :: http_version
  show "a \<le> b \<Longrightarrow> b \<le> a \<Longrightarrow> a = b"
    by (cases a; cases b) (simp_all add: less_eq_http_version_def)
qed (auto simp: less_eq_http_version_def less_http_version_def)

end

record ('h, 'u) http_request =
  rq_method :: bytes
  rq_uri :: 'u
  rq_version :: http_version
  rq_headers :: 'h

record ('h, 'b) http_response =
  rs_status :: u16
  rs_version :: http_version
  rs_headers :: 'h
  rs_body :: 'b

text \<open>What \<open>httparse\<close> leaves in its request and response.\<close>

type_synonym raw_headers = "(bytes \<times> bytes) list"

record raw_request =
  rw_method :: "bytes option"
  rw_path :: "bytes option"
  rw_version :: "u8 option"
  rw_headers :: raw_headers

record raw_response =
  rv_version :: "u8 option"
  rv_code :: "u16 option"
  rv_headers :: raw_headers

text \<open>
  The operations. Conversions that fail give the \<open>http::Error\<close> the code turns their error
  into; \<open>ht_to_str\<close> gives the text of its error. The parsers get the number of header slots
  and give \<open>None\<close> for a partial message.
\<close>

record ('h, 'u, 'x) http =
  ht_header_name :: "bytes \<Rightarrow> ('x, bytes) res"
  ht_header_value :: "bytes \<Rightarrow> ('x, bytes) res"
  ht_parse_value :: "bytes \<Rightarrow> ('x, bytes) res"
  ht_to_str :: "bytes \<Rightarrow> (bytes, bytes) res"
  ht_show_value :: "bytes \<Rightarrow> bytes"
  hm_empty :: 'h
  hm_get :: "bytes \<Rightarrow> 'h \<Rightarrow> bytes option"
  hm_append :: "bytes \<Rightarrow> bytes \<Rightarrow> 'h \<Rightarrow> 'h"
  hm_remove :: "bytes \<Rightarrow> 'h \<Rightarrow> bytes option \<times> 'h"
  hm_entries :: "'h \<Rightarrow> (bytes \<times> bytes) list"
  ht_status :: "u16 \<Rightarrow> ('x, u16) res"
  ht_is_success :: "u16 \<Rightarrow> bool"
  ht_show_status :: "u16 \<Rightarrow> bytes"
  ht_show_version :: "http_version \<Rightarrow> bytes"
  uri_parse :: "bytes \<Rightarrow> ('x, 'u) res"
  uri_scheme :: "'u \<Rightarrow> bytes option"
  uri_authority :: "'u \<Rightarrow> bytes option"
  uri_host :: "'u \<Rightarrow> bytes option"
  uri_port :: "'u \<Rightarrow> u16 option"
  uri_path_and_query :: "'u \<Rightarrow> bytes option"
  parse_headers :: "nat \<Rightarrow> bytes \<Rightarrow> (httparse_error, (nat \<times> raw_headers) option) res"
  parse_request :: "nat \<Rightarrow> bytes \<Rightarrow> (httparse_error, (nat \<times> raw_request) option) res"
  parse_response :: "nat \<Rightarrow> bytes \<Rightarrow> (httparse_error, (nat \<times> raw_response) option) res"
  ht_sha1 :: "bytes \<Rightarrow> bytes"
  ht_base64 :: "bytes \<Rightarrow> bytes"

section \<open>What the crates document\<close>

text \<open>A header name: a token of RFC 9110 of a length the crate allows.\<close>

definition token_char :: "u8 \<Rightarrow> bool" where
  "token_char b \<longleftrightarrow> (48 \<le> b \<and> b \<le> 57) \<or> (65 \<le> b \<and> b \<le> 90) \<or> (97 \<le> b \<and> b \<le> 122)
     \<or> b \<in> set (ascii ''!#$%&*+-.^_`|~'') \<or> b = 39"

definition token :: "bytes \<Rightarrow> bool" where
  "token n \<longleftrightarrow> n \<noteq> [] \<and> length n < 32768 \<and> (\<forall>b \<in> set n. token_char b)"

text \<open>A field as it is written and read back: no space around the value.\<close>

definition field_ok :: "bytes \<times> bytes \<Rightarrow> bool" where
  "field_ok f \<longleftrightarrow> token (fst f) \<and> visible (snd f) \<and> snd f \<noteq> []
     \<and> \<not> is_ascii_space (hd (snd f)) \<and> \<not> is_ascii_space (last (snd f))"

definition fields_text :: "(bytes \<times> bytes) list \<Rightarrow> bytes" where
  "fields_text fs = concat (map (\<lambda>(n, v). header_line n v) fs) @ crlf"

lemma fields_text_simps [simp]:
  "fields_text [] = crlf" "fields_text ((n, v) # fs) = header_line n v @ fields_text fs"
  by (simp_all add: fields_text_def)

text \<open>The target of a request line.\<close>

definition target_ok :: "bytes \<Rightarrow> bool" where
  "target_ok t \<longleftrightarrow> t \<noteq> [] \<and> (\<forall>b \<in> set t. 33 \<le> b \<and> b \<le> 126)"

definition request_text :: "bytes \<Rightarrow> (bytes \<times> bytes) list \<Rightarrow> bytes" where
  "request_text target fs = ascii ''GET '' @ target @ ascii '' HTTP/1.1'' @ crlf @ fields_text fs"

definition response_text :: "bytes \<Rightarrow> (bytes \<times> bytes) list \<Rightarrow> bytes" where
  "response_text status fs = ascii ''HTTP/1.1 '' @ status @ crlf @ fields_text fs"

locale http_laws =
  fixes ht :: "('h, 'u, 'x) http"
  assumes name_token: "token n \<Longrightarrow> ht_header_name ht n = Ok (lower n)"
    and name_lower: "ht_header_name ht n = Ok m \<Longrightarrow> m = lower n"
    and value_visible: "visible v \<Longrightarrow> ht_header_value ht v = Ok v" "visible v \<Longrightarrow> ht_parse_value ht v = Ok v"
    and value_same: "ht_header_value ht v = Ok w \<Longrightarrow> w = v" "ht_parse_value ht v = Ok w \<Longrightarrow> w = v"
    and to_str: "ht_to_str ht v = Ok w \<longleftrightarrow> visible v \<and> w = v"
    and convert_no_panic: "ht_header_name ht n \<noteq> Panic" "ht_header_value ht v \<noteq> Panic" "ht_parse_value ht v \<noteq> Panic"
      "ht_to_str ht v \<noteq> Panic" "ht_status ht s \<noteq> Panic" "uri_parse ht t \<noteq> Panic"
    and get_case: "lower n = lower m \<Longrightarrow> hm_get ht n h = hm_get ht m h"
    and get_empty: "hm_get ht n (hm_empty ht) = None"
    and get_append: "hm_get ht n (hm_append ht m v h)
      = (if lower n = lower m \<and> hm_get ht n h = None then Some v else hm_get ht n h)"
    and get_removed: "hm_get ht m (snd (hm_remove ht n h)) = (if lower m = lower n then None else hm_get ht m h)"
    and removed: "fst (hm_remove ht n h) = hm_get ht n h"
    and entry_name: "(n, v) \<in> set (hm_entries ht h) \<Longrightarrow> lower n = n \<and> hm_get ht n h \<noteq> None"
    and get_entry: "hm_get ht n h = Some v \<Longrightarrow> (lower n, v) \<in> set (hm_entries ht h)"
    and entries_empty: "hm_entries ht (hm_empty ht) = []"
    and entries_append: "mset (hm_entries ht (hm_append ht n v h)) = add_mset (lower n, v) (mset (hm_entries ht h))"
    and entries_removed: "mset (hm_entries ht (snd (hm_remove ht n h)))
      = filter_mset (\<lambda>(m, v). m \<noteq> lower n) (mset (hm_entries ht h))"
    and status_range: "100 \<le> s \<Longrightarrow> s \<le> 999 \<Longrightarrow> ht_status ht s = Ok s"
    and success_range: "ht_is_success ht s \<longleftrightarrow> 200 \<le> s \<and> s < 300"
    and show_version: "ht_show_version ht HTTP_11 = ascii ''HTTP/1.1''"
    and request_complete: "parse_request ht k src = Ok (Some (sz, rq)) \<Longrightarrow>
      rw_method rq \<noteq> None \<and> rw_path rq \<noteq> None \<and> rw_version rq \<noteq> None \<and> sz \<le> length src"
    and response_complete: "parse_response ht k src = Ok (Some (sz, rs)) \<Longrightarrow>
      rv_version rs \<noteq> None \<and> rv_code rs \<noteq> None \<and> sz \<le> length src"
    and parse_no_panic: "parse_request ht k src \<noteq> Panic" "parse_response ht k src \<noteq> Panic" "parse_headers ht k src \<noteq> Panic"

text \<open>
  The parsers on whole messages, on their proper prefixes, and with more behind them; Base64
  is visible text without spaces.
\<close>

locale http_messages = http_laws ht
  for ht :: "('h, 'u, 'x) http" +
  assumes request_parsed: "target_ok t \<Longrightarrow> \<forall>f \<in> set fs. field_ok f \<Longrightarrow> length fs \<le> k \<Longrightarrow>
      parse_request ht k (request_text t fs @ rest)
        = Ok (Some (length (request_text t fs), \<lparr>rw_method = Some (ascii ''GET''), rw_path = Some t, rw_version = Some 1, rw_headers = fs\<rparr>))"
    and request_partial: "target_ok t \<Longrightarrow> \<forall>f \<in> set fs. field_ok f \<Longrightarrow> length fs \<le> k \<Longrightarrow>
      j < length (request_text t fs) \<Longrightarrow> parse_request ht k (take j (request_text t fs)) = Ok None"
    and response_parsed: "100 \<le> s \<Longrightarrow> s \<le> 999 \<Longrightarrow> \<forall>f \<in> set fs. field_ok f \<Longrightarrow> length fs \<le> k \<Longrightarrow>
      parse_response ht k (response_text (ht_show_status ht s) fs @ rest)
        = Ok (Some (length (response_text (ht_show_status ht s) fs), \<lparr>rv_version = Some 1, rv_code = Some s, rv_headers = fs\<rparr>))"
    and response_partial: "100 \<le> s \<Longrightarrow> s \<le> 999 \<Longrightarrow> \<forall>f \<in> set fs. field_ok f \<Longrightarrow> length fs \<le> k \<Longrightarrow>
      j < length (response_text (ht_show_status ht s) fs)
        \<Longrightarrow> parse_response ht k (take j (response_text (ht_show_status ht s) fs)) = Ok None"
    and base64_text: "b \<in> set (ht_base64 ht x) \<Longrightarrow> 33 \<le> b \<and> b \<le> 126" "x \<noteq> [] \<Longrightarrow> ht_base64 ht x \<noteq> []"
    and sha1_length: "length (ht_sha1 ht x) = 20"

end
