(* ===== verification/Handshake.thy ===== *)
theory Handshake
  imports Http Websocket
begin

text \<open>
  What both sides of the opening handshake share, from \<open>src/handshake.rs\<close>,
  \<open>src/handshake/headers.rs\<close> and the conversions of \<open>src/error.rs\<close>: the accept key, header
  maps from parsed headers, the decoder of a header block, and the I/O object of a
  \<open>FramedRead\<close> that has not become a connection yet.
\<close>

type_synonym ('h, 'x) hs_error = "(('h, bytes option) http_response, 'x) error"

section \<open>Errors\<close>

text \<open>
  \<open>?\<close> on the errors of the crates: invalid names, values, URIs and status codes become
  \<open>HttpFormat\<close>, a value that is no text becomes \<open>Utf8\<close>, and parse errors as they do.
\<close>

definition http_question :: "('x, 'a) res \<Rightarrow> (('r, 'x) error, 'a) res" where
  "http_question r = map_res error_of_http id r"

definition to_str_question :: "(bytes, 'a) res \<Rightarrow> (('r, 'x) error, 'a) res" where
  "to_str_question r = map_res Utf8 id r"

definition httparse_question :: "(httparse_error, 'a) res \<Rightarrow> (('r, 'x) error, 'a) res" where
  "httparse_question r = map_res error_of_httparse id r"

lemma question_simps [simp]:
  "http_question (Ok a) = Ok a" "http_question (Err e) = Err (HttpFormat e)" "http_question Panic = Panic"
  "to_str_question (Ok a) = Ok a" "to_str_question (Err t) = Err (Utf8 t)" "to_str_question Panic = Panic"
  "httparse_question (Ok a) = Ok a" "httparse_question (Err p) = Err (error_of_httparse p)" "httparse_question Panic = Panic"
  by (simp_all add: http_question_def to_str_question_def httparse_question_def error_of_http_def)

lemma question_Ok [simp]:
  "http_question r = Ok a \<longleftrightarrow> r = Ok a" "http_question r = Panic \<longleftrightarrow> r = Panic"
  "to_str_question q = Ok a \<longleftrightarrow> q = Ok a" "to_str_question q = Panic \<longleftrightarrow> q = Panic"
  "httparse_question p = Ok a \<longleftrightarrow> p = Ok a" "httparse_question p = Panic \<longleftrightarrow> p = Panic"
  by (cases r; cases q; cases p; simp)+

section \<open>The accept key\<close>

definition ws_guid :: bytes where
  "ws_guid = ascii ''258EAFA5-E914-47DA-95CA-C5AB0DC85B11''"

definition derive_accept_key :: "('h, 'u, 'x) http \<Rightarrow> bytes \<Rightarrow> bytes" where
  "derive_accept_key ht request_key = ht_base64 ht (ht_sha1 ht (request_key @ ws_guid))"

section \<open>Header maps\<close>

definition max_headers :: nat where
  "max_headers = 124"

fun append_headers :: "('h, 'u, 'x) http \<Rightarrow> raw_headers \<Rightarrow> 'h \<Rightarrow> (('r, 'x) error, 'h) res" where
  "append_headers ht [] h = Ok h"
| "append_headers ht ((n, v) # raw) h =
     bind_res (http_question (ht_header_name ht n)) (\<lambda>name.
     bind_res (http_question (ht_header_value ht v)) (\<lambda>val.
       append_headers ht raw (hm_append ht name val h)))"

definition headers_from_httparse :: "('h, 'u, 'x) http \<Rightarrow> raw_headers \<Rightarrow> (('r, 'x) error, 'h) res" where
  "headers_from_httparse ht raw = append_headers ht raw (hm_empty ht)"

definition header_map_decode :: "('h, 'u, 'x) http \<Rightarrow> (unit, ('r, 'x) error, nat \<times> 'h) decoding" where
  "header_map_decode ht d src =
     (bind_res (httparse_question (parse_headers ht max_headers src)) (\<lambda>st. case st of
        None \<Rightarrow> Ok Insufficient
      | Some (n, hdr) \<Rightarrow> bind_res (headers_from_httparse ht hdr) (\<lambda>h. Ok (Decoded (n, h)))), d, src)"

text \<open>\<open>headers.get(name).and_then(|h| h.to_str().ok()).map(p).unwrap_or(false)\<close>.\<close>

definition header_matches :: "('h, 'u, 'x) http \<Rightarrow> bytes \<Rightarrow> (bytes \<Rightarrow> bool) \<Rightarrow> 'h \<Rightarrow> bool" where
  "header_matches ht name p h = (case hm_get ht name h of
     None \<Rightarrow> False
   | Some v \<Rightarrow> (case ht_to_str ht v of Ok s \<Rightarrow> p s | _ \<Rightarrow> False))"

text \<open>
  The builders of \<open>http\<close> hold a message or the first error of a name or a value: \<open>header\<close>
  converts both and appends, \<open>body\<close> gives what is held.
\<close>

fun build_headers :: "('h, 'u, 'x) http \<Rightarrow> (bytes \<times> bytes) list \<Rightarrow> 'h \<Rightarrow> ('x, 'h) res" where
  "build_headers ht [] h = Ok h"
| "build_headers ht ((n, v) # fs) h =
     bind_res (ht_header_name ht n) (\<lambda>name. bind_res (ht_parse_value ht v) (\<lambda>val.
       build_headers ht fs (hm_append ht name val h)))"

section \<open>The stream of a handshake\<close>

text \<open>
  \<open>FramedRead::next\<close> with the decoder of a handshake is one more operation of the transport;
  \<open>get_mut().write_all\<close> and \<open>flush\<close> are its I/O object's.
\<close>

type_synonym ('s, 'q, 'e, 'i) next_op =
  "(unit, 'e, 'i) decoding \<Rightarrow> ('s, unit, 'q) framed \<Rightarrow> ('e, 'i) res option \<times> ('s, unit, 'q) framed"

definition fr_write_all ::
  "('s, 'q, 'e) transport \<Rightarrow> bytes \<Rightarrow> ('s, unit, 'q) framed \<Rightarrow> (('r, 'x) error, unit) res \<times> ('s, unit, 'q) framed" where
  "fr_write_all tr buf fr = (let (res, io) = io_write_all tr buf (fr_io fr) in lift_io (res, fr\<lparr>fr_io := io\<rparr>))"

definition fr_flush ::
  "('s, 'q, 'e) transport \<Rightarrow> ('s, unit, 'q) framed \<Rightarrow> (('r, 'x) error, unit) res \<times> ('s, unit, 'q) framed" where
  "fr_flush tr fr = (let (res, io) = io_flush tr (fr_io fr) in lift_io (res, fr\<lparr>fr_io := io\<rparr>))"

section \<open>What the header maps hold\<close>

text \<open>The first value of a name, in the order of the fields.\<close>

definition first_value :: "bytes \<Rightarrow> raw_headers \<Rightarrow> bytes option" where
  "first_value n fs = map_of (map (\<lambda>(m, v). (lower m, v)) fs) (lower n)"

context http_laws
begin

lemma convert_cases [simp]:
  "ht_header_name ht n = Panic \<longleftrightarrow> False" "ht_header_value ht v = Panic \<longleftrightarrow> False"
  "ht_parse_value ht v = Panic \<longleftrightarrow> False" "ht_to_str ht v = Panic \<longleftrightarrow> False" "ht_status ht s = Panic \<longleftrightarrow> False"
  "uri_parse ht t = Panic \<longleftrightarrow> False" "parse_request ht k src = Panic \<longleftrightarrow> False" "parse_response ht k src = Panic \<longleftrightarrow> False"
  "parse_headers ht k src = Panic \<longleftrightarrow> False"
  using convert_no_panic parse_no_panic by simp_all

lemma append_headers_no_panic: "append_headers ht raw h \<noteq> Panic"
  by (induction raw arbitrary: h) (auto simp: outcome_simps)

lemma append_headers_get:
  "(append_headers ht raw h :: (('r, 'x) error, 'h) res) = Ok h' \<Longrightarrow>
     hm_get ht n h' = (case hm_get ht n h of None \<Rightarrow> first_value n raw | Some v \<Rightarrow> Some v)"
proof (induction raw arbitrary: h)
  case Nil
  then show ?case by (simp add: first_value_def split: option.split)
next
  case (Cons f raw)
  obtain m v where f: "f = (m, v)" by force
  then obtain name w where nv: "ht_header_name ht m = Ok name" "ht_header_value ht v = Ok w"
    and rest: "(append_headers ht raw (hm_append ht name w h) :: (('r, 'x) error, 'h) res) = Ok h'"
    using Cons.prems by (auto simp: outcome_simps)
  have "name = lower m" "w = v" using name_lower[OF nv(1)] value_same(1)[OF nv(2)] by simp_all
  then show ?case
    using Cons.IH[OF rest] f by (auto simp: get_append first_value_def split: option.split)
qed

lemma append_headers_ok:
  "\<forall>f \<in> set raw. field_ok f \<Longrightarrow> \<exists>h'. (append_headers ht raw h :: (('r, 'x) error, 'h) res) = Ok h'"
proof (induction raw arbitrary: h)
  case (Cons f raw)
  obtain n v where f: "f = (n, v)" by force
  then have "ht_header_name ht n = Ok (lower n)" "ht_header_value ht v = Ok v"
    using Cons.prems name_token value_visible(1) by (simp_all add: field_ok_def)
  then show ?case using Cons f by simp
qed simp

lemma headers_from_httparse_get:
  "(headers_from_httparse ht raw :: (('r, 'x) error, 'h) res) = Ok h \<Longrightarrow> hm_get ht n h = first_value n raw"
  using append_headers_get[of raw "hm_empty ht" h n, where ?'r = 'r] by (simp add: headers_from_httparse_def get_empty)

lemma to_str_visible [simp]: "visible v \<Longrightarrow> ht_to_str ht v = Ok v"
  using to_str by blast

lemma to_str_other: "\<not> visible v \<Longrightarrow> \<exists>t. ht_to_str ht v = Err t"
  using to_str[of v] convert_no_panic(4)[of v] by (cases "ht_to_str ht v") auto

lemma header_matches_eq:
  "header_matches ht name p h \<longleftrightarrow> (\<exists>v. hm_get ht name h = Some v \<and> visible v \<and> p v)"
proof (cases "hm_get ht name h")
  case (Some v)
  then show ?thesis
    using to_str_other[of v] by (cases "visible v") (auto simp: header_matches_def)
qed (simp add: header_matches_def)

end

end
