(* ===== verification/Client_Handshake.thy ===== *)
theory Client_Handshake
  imports Handshake
begin

text \<open>
  The client's side of the opening handshake, from \<open>src/handshake/client.rs\<close>: the request and
  its checks, the decoder of the response, the verification of the response, and the
  handshake over a stream.
\<close>

section \<open>URL schemes\<close>

text \<open>\<open>Mode\<close> of \<open>src/stream.rs\<close> and \<open>uri_mode\<close> of \<open>src/client.rs\<close>.\<close>

datatype mode = Mode_Plain | Mode_Tls

definition uri_mode :: "('h, 'u, 'x) http \<Rightarrow> 'u \<Rightarrow> (('r, 'x) error, mode) res" where
  "uri_mode ht u = (case uri_scheme ht u of
     None \<Rightarrow> Err (Url UnsupportedUrlScheme)
   | Some s \<Rightarrow> if s = ascii ''ws'' then Ok Mode_Plain
       else if s = ascii ''wss'' then Ok Mode_Tls
       else Err (Url UnsupportedUrlScheme))"

section \<open>The request\<close>

definition key_headername :: bytes where
  "key_headername = ascii ''Sec-WebSocket-Key''"

definition websocket_headers :: "bytes list" where
  "websocket_headers = [ascii ''Host'', ascii ''Connection'', ascii ''Upgrade'', ascii ''Sec-WebSocket-Version'', key_headername]"

text \<open>\<open>HeaderName::from_bytes(name).unwrap()\<close> in an error.\<close>

definition invalid_header :: "('h, 'u, 'x) http \<Rightarrow> bytes \<Rightarrow> (('r, 'x) error, 'a) res" where
  "invalid_header ht name = (case ht_header_name ht name of Ok n \<Rightarrow> Err (Protocol (InvalidHeader n)) | _ \<Rightarrow> Panic)"

text \<open>\<open>value.to_str()\<close> with an error that names the header.\<close>

definition value_text :: "('h, 'u, 'x) http \<Rightarrow> bytes \<Rightarrow> bytes \<Rightarrow> (('r, 'x) error, bytes) res" where
  "value_text ht name v = (case ht_to_str ht v of
     Ok s \<Rightarrow> Ok s
   | Err err \<Rightarrow> Err (Utf8 (err @ ascii '' for header name '' @ [39] @ name @ [39] @ ascii '' with value: '' @ ht_show_value ht v))
   | Panic \<Rightarrow> Panic)"

text \<open>The headers every request has, written first and in their usual case.\<close>

fun write_required :: "('h, 'u, 'x) http \<Rightarrow> bytes list \<Rightarrow> 'h \<Rightarrow> bytes \<Rightarrow> (('r, 'x) error, bytes \<times> 'h) res" where
  "write_required ht [] h buf = Ok (buf, h)"
| "write_required ht (name # names) h buf = (case hm_remove ht name h of
     (None, h') \<Rightarrow> invalid_header ht name
   | (Some v, h') \<Rightarrow> bind_res (value_text ht name v) (\<lambda>s. write_required ht names h' (buf @ header_line name s)))"

text \<open>The other headers, in the order of the map.\<close>

fun write_rest :: "('h, 'u, 'x) http \<Rightarrow> (bytes \<times> bytes) list \<Rightarrow> bytes \<Rightarrow> (('r, 'x) error, bytes) res" where
  "write_rest ht [] buf = Ok buf"
| "write_rest ht ((k, v) # es) buf =
     (if k \<in> set (map lower websocket_headers) then Err (Protocol (InvalidHeader k))
      else
        let name = (if k = ascii ''sec-websocket-protocol'' then ascii ''Sec-WebSocket-Protocol'' else k);
            name' = (if name = ascii ''origin'' then ascii ''Origin'' else name)
        in bind_res (value_text ht name' v) (\<lambda>s. write_rest ht es (buf @ header_line name' s)))"

definition generate_request :: "('h, 'u, 'x) http \<Rightarrow> ('h, 'u) http_request \<Rightarrow> (('r, 'x) error, bytes) res" where
  "generate_request ht req = (case uri_path_and_query ht (rq_uri req) of
     None \<Rightarrow> Err (Url NoPathOrQuery)
   | Some path \<Rightarrow>
       bind_res (write_required ht websocket_headers (rq_headers req)
           (ascii ''GET '' @ path @ ascii '' '' @ ht_show_version ht (rq_version req) @ crlf)) (\<lambda>(buf, h).
       bind_res (write_rest ht (hm_entries ht h) buf) (\<lambda>buf. Ok (buf @ crlf))))"

definition get_websocket_key :: "('h, 'u, 'x) http \<Rightarrow> ('h, 'u) http_request \<Rightarrow> (('r, 'x) error, bytes) res" where
  "get_websocket_key ht req = (case hm_get ht key_headername (rq_headers req) of
     None \<Rightarrow> invalid_header ht key_headername
   | Some v \<Rightarrow> to_str_question (ht_to_str ht v))"

definition extract_subprotocols ::
  "('h, 'u, 'x) http \<Rightarrow> ('h, 'u) http_request \<Rightarrow> (('r, 'x) error, bytes list option) res" where
  "extract_subprotocols ht req = (case hm_get ht (ascii ''Sec-WebSocket-Protocol'') (rq_headers req) of
     None \<Rightarrow> Ok None
   | Some v \<Rightarrow> bind_res (to_str_question (ht_to_str ht v)) (\<lambda>s. Ok (Some (map trim (split_on (\<lambda>b. b = 44) s)))))"

text \<open>The random bytes are an argument.\<close>

definition generate_key :: "('h, 'u, 'x) http \<Rightarrow> bytes \<Rightarrow> bytes" where
  "generate_key ht r = ht_base64 ht r"

section \<open>The response\<close>

type_synonym 'h client_response = "('h, bytes option) http_response"

definition response_from_httparse ::
  "('h, 'u, 'x) http \<Rightarrow> raw_response \<Rightarrow> (('r, 'x) error, 'h client_response) res" where
  "response_from_httparse ht raw = (case rv_version raw of
     None \<Rightarrow> Panic
   | Some v \<Rightarrow>
       if v < 1 then Err (Protocol WrongHttpVersion)
       else bind_res (headers_from_httparse ht (rv_headers raw)) (\<lambda>headers.
         case rv_code raw of
           None \<Rightarrow> Panic
         | Some code \<Rightarrow> bind_res (http_question (ht_status ht code)) (\<lambda>status.
             Ok \<lparr>rs_status = status, rs_version = HTTP_11, rs_headers = headers, rs_body = None\<rparr>)))"

definition response_decode :: "('h, 'u, 'x) http \<Rightarrow> (unit, ('r, 'x) error, nat \<times> 'h client_response) decoding" where
  "response_decode ht d src =
     (bind_res (httparse_question (parse_response ht max_headers src)) (\<lambda>st. case st of
        None \<Rightarrow> Ok Insufficient
      | Some (n, raw) \<Rightarrow> bind_res (response_from_httparse ht raw) (\<lambda>resp. Ok (Decoded (n, resp)))), d, src)"

record verify_data =
  vd_accept_key :: bytes
  vd_subprotocols :: "bytes list option"

definition subprotocol_error :: "sub_protocol_error \<Rightarrow> ('r, 'x) error" where
  "subprotocol_error e = Protocol (SecWebSocketSubProtocolError e)"

text \<open>The end of \<open>verify_response\<close>: the subprotocol the server selected.\<close>

definition verify_subprotocol ::
  "('h, 'u, 'x) http \<Rightarrow> verify_data \<Rightarrow> bytes option \<Rightarrow> (('r, 'x) error, unit) res" where
  "verify_subprotocol ht vd returned =
     (if returned = None \<and> vd_subprotocols vd \<noteq> None then Err (subprotocol_error NoSubProtocol)
      else if returned \<noteq> None \<and> vd_subprotocols vd = None then Err (subprotocol_error ServerSentSubProtocolNoneRequested)
      else case (returned, vd_subprotocols vd) of
        (Some v, Some accepted) \<Rightarrow> bind_res (to_str_question (ht_to_str ht v)) (\<lambda>s.
          if s \<in> set accepted then Ok () else Err (subprotocol_error InvalidSubProtocol))
      | _ \<Rightarrow> Ok ())"

definition verify_response ::
  "('h, 'u, 'x) http \<Rightarrow> verify_data \<Rightarrow> 'h client_response \<Rightarrow> (('h, 'x) hs_error, 'h client_response) res" where
  "verify_response ht vd resp =
     (if rs_status resp \<noteq> 101 then Err (Http resp)
      else if \<not> header_matches ht (ascii ''Upgrade'') (\<lambda>s. eq_ignore_ascii_case s (ascii ''websocket'')) (rs_headers resp)
      then Err (Protocol MissingUpgradeWebSocketHeader)
      else if \<not> header_matches ht (ascii ''Connection'') (\<lambda>s. eq_ignore_ascii_case s (ascii ''Upgrade'')) (rs_headers resp)
      then Err (Protocol MissingConnectionUpgradeHeader)
      else if hm_get ht (ascii ''Sec-WebSocket-Accept'') (rs_headers resp) \<noteq> Some (vd_accept_key vd)
      then Err (Protocol SecWebSocketAcceptKeyMismatch)
      else bind_res (verify_subprotocol ht vd (hm_get ht (ascii ''Sec-WebSocket-Protocol'') (rs_headers resp))) (\<lambda>_. Ok resp))"

section \<open>The handshake\<close>

text \<open>What is checked before anything is sent.\<close>

definition client_checks :: "('h, 'u, 'x) http \<Rightarrow> ('h, 'u) http_request \<Rightarrow> (('r, 'x) error, verify_data) res" where
  "client_checks ht req =
     (if rq_method req \<noteq> ascii ''GET'' then Err (Protocol WrongHttpMethod)
      else if rq_version req < HTTP_11 then Err (Protocol WrongHttpVersion)
      else bind_res (uri_mode ht (rq_uri req)) (\<lambda>_.
        bind_res (extract_subprotocols ht req) (\<lambda>subprotocols.
        bind_res (get_websocket_key ht req) (\<lambda>key.
          Ok \<lparr>vd_accept_key = derive_accept_key ht key, vd_subprotocols = subprotocols\<rparr>))))"

text \<open>What is done with a complete response; what follows it stays in the buffer.\<close>

definition client_accept ::
  "('h, 'u, 'x) http \<Rightarrow> verify_data \<Rightarrow> websocket_config option \<Rightarrow> 'g \<Rightarrow> nat \<Rightarrow> 'h client_response \<Rightarrow> ('s, unit, 'q) framed
     \<Rightarrow> (('h, 'x) hs_error, ('s, 'q, 'g) websocket \<times> 'h client_response) res \<times> ('s, unit, 'q) framed" where
  "client_accept ht vd config g sz resp fr =
     (if sz > length (fr_buffer fr) then (Panic, fr)
      else
        let fr1 = fr\<lparr>fr_buffer := drop sz (fr_buffer fr)\<rparr>; tail = fr_buffer fr1
        in case verify_response ht vd resp of
             Ok r \<Rightarrow> (Ok (from_framed_read fr1 Client config g, r), fr1)
           | Err (Http r) \<Rightarrow> (Err (Http (r\<lparr>rs_body := Some tail\<rparr>)), fr1)
           | Err e \<Rightarrow> (Err e, fr1)
           | Panic \<Rightarrow> (Panic, fr1))"

definition client_handshake ::
  "('h, 'u, 'x) http \<Rightarrow> ('s, 'q, 'e) transport \<Rightarrow> ('s, 'q, ('h, 'x) hs_error, nat \<times> 'h client_response) next_op
     \<Rightarrow> ('h, 'u) http_request \<Rightarrow> websocket_config option \<Rightarrow> 'g \<Rightarrow> 's
     \<Rightarrow> (('h, 'x) hs_error, ('s, 'q, 'g) websocket \<times> 'h client_response) res \<times> ('s, unit, 'q) framed" where
  "client_handshake ht tr next_frame req config g stream =
     bind_st (client_checks ht req, framed_new tr stream ()) (\<lambda>vd fr.
     bind_st (generate_request ht req, fr) (\<lambda>buf fr.
     bind_st (fr_write_all tr buf fr) (\<lambda>_ fr.
     bind_st (fr_flush tr fr) (\<lambda>_ fr.
       case next_frame (response_decode ht) fr of
         (Some (Ok (sz, resp)), fr) \<Rightarrow> client_accept ht vd config g sz resp fr
       | (Some (Err e), fr) \<Rightarrow> (Err e, fr)
       | (Some Panic, fr) \<Rightarrow> (Panic, fr)
       | (None, fr) \<Rightarrow> (Err (Protocol HandshakeIncomplete), fr)))))"

section \<open>What the checks amount to\<close>

text \<open>The conditions of the protocol on a response.\<close>

definition subprotocol_ok :: "bytes list option \<Rightarrow> bytes option \<Rightarrow> bool" where
  "subprotocol_ok requested returned = (case (requested, returned) of
     (None, None) \<Rightarrow> True
   | (Some names, Some v) \<Rightarrow> visible v \<and> v \<in> set names
   | _ \<Rightarrow> False)"

definition header_is :: "('h, 'u, 'x) http \<Rightarrow> 'h \<Rightarrow> string \<Rightarrow> (bytes \<Rightarrow> bool) \<Rightarrow> bool" where
  "header_is ht h name p \<longleftrightarrow> (\<exists>v. hm_get ht (ascii name) h = Some v \<and> visible v \<and> p v)"

definition response_ok :: "('h, 'u, 'x) http \<Rightarrow> verify_data \<Rightarrow> 'h client_response \<Rightarrow> bool" where
  "response_ok ht vd resp \<longleftrightarrow> rs_status resp = 101
     \<and> header_is ht (rs_headers resp) ''Upgrade'' (\<lambda>v. lower v = ascii ''websocket'')
     \<and> header_is ht (rs_headers resp) ''Connection'' (\<lambda>v. lower v = ascii ''upgrade'')
     \<and> hm_get ht (ascii ''Sec-WebSocket-Accept'') (rs_headers resp) = Some (vd_accept_key vd)
     \<and> subprotocol_ok (vd_subprotocols vd) (hm_get ht (ascii ''Sec-WebSocket-Protocol'') (rs_headers resp))"

lemma lower_literals [simp]:
  "lower (ascii ''websocket'') = ascii ''websocket''" "lower (ascii ''Upgrade'') = ascii ''upgrade''"
  by (simp_all add: lower_def ascii_def to_lower_def)

context http_laws
begin

lemma verify_subprotocol_Ok:
  "verify_subprotocol ht vd returned = Ok u \<longleftrightarrow> subprotocol_ok (vd_subprotocols vd) returned"
proof (cases returned)
  case None
  then show ?thesis by (cases "vd_subprotocols vd") (simp_all add: verify_subprotocol_def subprotocol_ok_def)
next
  case (Some v)
  then show ?thesis
    using to_str_other[of v]
    by (cases "vd_subprotocols vd"; cases "visible v") (auto simp: verify_subprotocol_def subprotocol_ok_def)
qed

lemma verify_subprotocol_no_panic: "verify_subprotocol ht vd returned \<noteq> Panic"
  by (auto simp: verify_subprotocol_def outcome_simps split: option.split)

lemma verify_response_Ok:
  "verify_response ht vd resp = Ok r \<longleftrightarrow> response_ok ht vd resp \<and> r = resp"
  by (auto simp: verify_response_def response_ok_def header_is_def header_matches_eq eq_ignore_ascii_case_def
      outcome_simps verify_subprotocol_Ok)

lemma verify_response_no_panic: "verify_response ht vd resp \<noteq> Panic"
  by (simp add: verify_response_def outcome_simps verify_subprotocol_no_panic)

text \<open>An HTTP error carries the response that is no switch of protocols.\<close>

lemma verify_response_Http: "verify_response ht vd resp = Err (Http r) \<longleftrightarrow> rs_status resp \<noteq> 101 \<and> r = resp"
proof -
  have "verify_subprotocol ht vd returned \<noteq> Err (Http r)" for returned
    by (cases returned; cases "vd_subprotocols vd"; cases "ht_to_str ht (the returned)")
      (simp_all add: verify_subprotocol_def subprotocol_error_def)
  then show ?thesis
    by (cases "verify_subprotocol ht vd (hm_get ht (ascii ''Sec-WebSocket-Protocol'') (rs_headers resp))
          :: (('h, 'x) hs_error, unit) res")
      (auto simp: verify_response_def)
qed

end

text \<open>A request that passes the checks, and what the response is compared with.\<close>

definition request_ok :: "('h, 'u, 'x) http \<Rightarrow> ('h, 'u) http_request \<Rightarrow> bool" where
  "request_ok ht req \<longleftrightarrow> rq_method req = ascii ''GET'' \<and> HTTP_11 \<le> rq_version req
     \<and> (uri_scheme ht (rq_uri req) = Some (ascii ''ws'') \<or> uri_scheme ht (rq_uri req) = Some (ascii ''wss''))
     \<and> header_is ht (rq_headers req) ''Sec-WebSocket-Key'' (\<lambda>_. True)
     \<and> (\<forall>v. hm_get ht (ascii ''Sec-WebSocket-Protocol'') (rq_headers req) = Some v \<longrightarrow> visible v)"

definition expected_response :: "('h, 'u, 'x) http \<Rightarrow> ('h, 'u) http_request \<Rightarrow> verify_data" where
  "expected_response ht req =
     \<lparr>vd_accept_key = derive_accept_key ht (the (hm_get ht (ascii ''Sec-WebSocket-Key'') (rq_headers req))),
      vd_subprotocols = map_option (\<lambda>v. map trim (split_on (\<lambda>b. b = 44) v))
        (hm_get ht (ascii ''Sec-WebSocket-Protocol'') (rq_headers req))\<rparr>"

lemma uri_mode_Ok:
  "(\<exists>m. (uri_mode ht u :: (('r, 'x) error, mode) res) = Ok m)
     \<longleftrightarrow> uri_scheme ht u = Some (ascii ''ws'') \<or> uri_scheme ht u = Some (ascii ''wss'')"
  by (auto simp: uri_mode_def split: option.split)

lemma uri_mode_no_panic [simp]: "uri_mode ht u \<noteq> Panic"
  by (auto simp: uri_mode_def split: option.split)

lemma key_token: "token key_headername"
  by (simp add: token_def key_headername_def ascii_def token_char_def)

context http_laws
begin

lemma invalid_header_token:
  "token n \<Longrightarrow> invalid_header ht n = Err (Protocol (InvalidHeader (lower n)))"
  by (simp add: invalid_header_def name_token)

lemma extract_subprotocols_Ok:
  "(extract_subprotocols ht req :: (('r, 'x) error, bytes list option) res) = Ok sp
     \<longleftrightarrow> (\<forall>v. hm_get ht (ascii ''Sec-WebSocket-Protocol'') (rq_headers req) = Some v \<longrightarrow> visible v)
         \<and> sp = map_option (\<lambda>v. map trim (split_on (\<lambda>b. b = 44) v)) (hm_get ht (ascii ''Sec-WebSocket-Protocol'') (rq_headers req))"
proof (cases "hm_get ht (ascii ''Sec-WebSocket-Protocol'') (rq_headers req)")
  case (Some v)
  then show ?thesis using to_str_other[of v] by (cases "visible v") (auto simp: extract_subprotocols_def)
qed (auto simp: extract_subprotocols_def)

lemma get_websocket_key_Ok:
  "(get_websocket_key ht req :: (('r, 'x) error, bytes) res) = Ok k
     \<longleftrightarrow> hm_get ht (ascii ''Sec-WebSocket-Key'') (rq_headers req) = Some k \<and> visible k"
proof (cases "hm_get ht (ascii ''Sec-WebSocket-Key'') (rq_headers req)")
  case None
  then show ?thesis
    by (simp add: get_websocket_key_def invalid_header_token[OF key_token] key_headername_def[symmetric])
next
  case (Some v)
  then show ?thesis
    using to_str_other[of v] by (cases "visible v") (auto simp: get_websocket_key_def key_headername_def)
qed

lemma client_checks_Ok:
  "(client_checks ht req :: (('r, 'x) error, verify_data) res) = Ok vd
     \<longleftrightarrow> request_ok ht req \<and> vd = expected_response ht req"
proof -
  have "uri_scheme ht (rq_uri req) = Some (ascii ''ws'') \<or> uri_scheme ht (rq_uri req) = Some (ascii ''wss'')
      \<longleftrightarrow> (\<exists>m. (uri_mode ht (rq_uri req) :: (('r, 'x) error, mode) res) = Ok m)"
    by (rule uri_mode_Ok[symmetric])
  then show ?thesis
    by (auto simp: client_checks_def outcome_simps request_ok_def expected_response_def header_is_def not_less[symmetric]
        extract_subprotocols_Ok get_websocket_key_Ok)
qed

lemma client_checks_no_panic: "(client_checks ht req :: (('r, 'x) error, verify_data) res) \<noteq> Panic"
proof -
  have "(get_websocket_key ht req :: (('r, 'x) error, bytes) res) \<noteq> Panic"
    by (auto simp: get_websocket_key_def invalid_header_token[OF key_token] split: option.split)
  moreover have "(extract_subprotocols ht req :: (('r, 'x) error, bytes list option) res) \<noteq> Panic"
    by (auto simp: extract_subprotocols_def outcome_simps split: option.split)
  ultimately show ?thesis by (simp add: client_checks_def outcome_simps)
qed

end

section \<open>The text of a request\<close>

definition usual_case :: "bytes \<Rightarrow> bytes" where
  "usual_case k = (if k = ascii ''sec-websocket-protocol'' then ascii ''Sec-WebSocket-Protocol''
     else if k = ascii ''origin'' then ascii ''Origin'' else k)"

lemma lower_usual_case: "lower k = k \<Longrightarrow> lower (usual_case k) = k"
  by (simp add: usual_case_def lower_def ascii_def to_lower_def)

lemma usual_case_write: "(let name = (if k = ascii ''sec-websocket-protocol'' then ascii ''Sec-WebSocket-Protocol'' else k)
    in if name = ascii ''origin'' then ascii ''Origin'' else name) = usual_case k"
  by (simp add: usual_case_def ascii_def)

lemma fields_text_append: "fields_text (fs @ gs) = concat (map (\<lambda>(n, v). header_line n v) fs) @ fields_text gs"
  by (simp add: fields_text_def)

context http_laws
begin

lemma write_required_ok:
  assumes "\<forall>n \<in> set names. \<exists>v. hm_get ht n h = Some v \<and> visible v" "distinct (map lower names)"
  shows "\<exists>h'. (write_required ht names h buf :: (('r, 'x) error, bytes \<times> 'h) res)
      = Ok (buf @ concat (map (\<lambda>n. header_line n (the (hm_get ht n h))) names), h')
    \<and> (\<forall>m. hm_get ht m h' = (if lower m \<in> lower ` set names then None else hm_get ht m h))"
  using assms
proof (induction names arbitrary: h buf)
  case (Cons n names)
  obtain v h1 where v: "hm_get ht n h = Some v" "visible v" "hm_remove ht n h = (Some v, h1)"
    using Cons.prems(1) removed[of n h] by (metis list.set_intros(1) prod.collapse)
  have h1: "hm_get ht m h1 = (if lower m = lower n then None else hm_get ht m h)" for m
    using get_removed[of m n h] v(3) by simp
  have other: "lower m \<noteq> lower n" if "m \<in> set names" for m
    using Cons.prems(2) that by (metis distinct.simps(2) image_eqI list.set_map list.simps(9))
  have "\<forall>m \<in> set names. \<exists>w. hm_get ht m h1 = Some w \<and> visible w"
    using Cons.prems(1) other h1 by auto
  then obtain h' where w: "(write_required ht names h1 (buf @ header_line n v) :: (('r, 'x) error, bytes \<times> 'h) res)
      = Ok ((buf @ header_line n v) @ concat (map (\<lambda>m. header_line m (the (hm_get ht m h1))) names), h')"
    and h': "\<forall>m. hm_get ht m h' = (if lower m \<in> lower ` set names then None else hm_get ht m h1)"
    using Cons.IH[of h1 "buf @ header_line n v"] Cons.prems(2) by auto
  have same: "map (\<lambda>m. header_line m (the (hm_get ht m h1))) names = map (\<lambda>m. header_line m (the (hm_get ht m h))) names"
    using other h1 by auto
  show ?case using w[unfolded same] h' v h1 by (auto simp: value_text_def)
qed simp

lemma write_rest_ok:
  "\<forall>(k, v) \<in> set es. k \<notin> set (map lower websocket_headers) \<and> visible v \<Longrightarrow>
     (write_rest ht es buf :: (('r, 'x) error, bytes) res)
       = Ok (buf @ concat (map (\<lambda>(n, v). header_line n v) (map (\<lambda>(k, v). (usual_case k, v)) es)))"
proof (induction es arbitrary: buf)
  case (Cons e es)
  obtain k v where e: "e = (k, v)" by force
  have "(write_rest ht (e # es) buf :: (('r, 'x) error, bytes) res)
      = bind_res (value_text ht (usual_case k) v) (\<lambda>s. write_rest ht es (buf @ header_line (usual_case k) s))"
    using Cons.prems by (simp add: e Let_def usual_case_write[unfolded Let_def])
  then show ?case using Cons e by (simp add: value_text_def)
qed simp

text \<open>What removing the required headers leaves.\<close>

lemma write_required_entries:
  "(write_required ht names h buf :: (('r, 'x) error, bytes \<times> 'h) res) = Ok (buf', h') \<Longrightarrow>
     mset (hm_entries ht h') = filter_mset (\<lambda>(m, v). m \<notin> set (map lower names)) (mset (hm_entries ht h))"
proof (induction names arbitrary: h buf)
  case (Cons n names)
  obtain v h1 where v: "hm_remove ht n h = (Some v, h1)"
    using Cons.prems by (cases "hm_remove ht n h"; cases "fst (hm_remove ht n h)")
      (auto simp: invalid_header_def split: res.splits)
  obtain s where "(write_required ht names h1 (buf @ header_line n s) :: (('r, 'x) error, bytes \<times> 'h) res) = Ok (buf', h')"
    using Cons.prems v by (auto simp: outcome_simps)
  then have "mset (hm_entries ht h') = filter_mset (\<lambda>(m, v). m \<notin> set (map lower names)) (mset (hm_entries ht h1))"
    by (rule Cons.IH)
  then show ?case
    using entries_removed[of n h] v by (simp add: filter_filter_mset split_beta conj_commute conj_left_commute)
qed (auto simp: multiset_eq_iff)

end

definition headers_ok :: "('h, 'u, 'x) http \<Rightarrow> 'h \<Rightarrow> bool" where
  "headers_ok ht h \<longleftrightarrow> (\<forall>f \<in> set (hm_entries ht h). field_ok f)"

lemma websocket_headers_facts:
  "distinct (map lower websocket_headers)" "\<forall>n \<in> set websocket_headers. token n" "length websocket_headers = 5"
  by (simp_all add: websocket_headers_def key_headername_def lower_def ascii_def to_lower_def token_def token_char_def)

lemma first_value_append:
  "first_value n (fs @ gs) = (case first_value n fs of None \<Rightarrow> first_value n gs | Some v \<Rightarrow> Some v)"
  by (cases "first_value n fs") (simp_all add: first_value_def map_add_def)

lemma first_value_names:
  assumes "distinct (map lower ns)" "n \<in> set ns"
  shows "first_value n (map (\<lambda>n. (n, f n)) ns) = Some (f n)"
  using assms
proof (induction ns)
  case (Cons a ns)
  show ?case
  proof (cases "n = a")
    case False
    then have "n \<in> set ns" using Cons.prems(2) by simp
    moreover have "lower n \<noteq> lower a"
      using Cons.prems(1) calculation by (metis distinct.simps(2) image_eqI list.set_map list.simps(9))
    ultimately show ?thesis using Cons by (simp add: first_value_def)
  qed (simp add: first_value_def)
qed simp

lemma token_lower_char: "token_char b \<Longrightarrow> token_char (to_lower b)"
  by (auto simp: token_char_def to_lower_def word_le_nat_alt unat_plus_if')

lemma usual_case_field: "field_ok (k, v) \<Longrightarrow> field_ok (usual_case k, v)"
  by (auto simp: usual_case_def field_ok_def token_def token_char_def ascii_def)

context http_laws
begin

text \<open>
  The request of a complete map: the required fields in their order with the values of the
  map, then the others, all well formed.
\<close>

lemma generate_request_ok:
  assumes path: "uri_path_and_query ht (rq_uri req) = Some path" and version: "rq_version req = HTTP_11"
    and full: "\<forall>n \<in> set websocket_headers. hm_get ht n (rq_headers req) \<noteq> None" and ok: "headers_ok ht (rq_headers req)"
  shows "\<exists>fs. (generate_request ht req :: (('r, 'x) error, bytes) res) = Ok (request_text path fs)
    \<and> (\<forall>f \<in> set fs. field_ok f) \<and> length fs \<le> 5 + length (hm_entries ht (rq_headers req))
    \<and> (\<forall>n \<in> set websocket_headers. first_value n fs = hm_get ht n (rq_headers req))
    \<and> (\<exists>es. mset es = filter_mset (\<lambda>(m, v). m \<notin> set (map lower websocket_headers)) (mset (hm_entries ht (rq_headers req)))
         \<and> fs = map (\<lambda>n. (n, the (hm_get ht n (rq_headers req)))) websocket_headers @ map (\<lambda>(k, v). (usual_case k, v)) es)"
proof -
  let ?h = "rq_headers req"
  let ?start = "ascii ''GET '' @ path @ ascii '' '' @ ht_show_version ht HTTP_11 @ crlf"
  define req_fields where "req_fields = map (\<lambda>n. (n, the (hm_get ht n ?h))) websocket_headers"
  have vals: "field_ok (n, v)" if "n \<in> set websocket_headers" "hm_get ht n ?h = Some v" for n v
    using get_entry[OF that(2)] ok websocket_headers_facts(2) that(1) by (auto simp: headers_ok_def field_ok_def)
  then have "\<forall>n \<in> set websocket_headers. \<exists>v. hm_get ht n ?h = Some v \<and> visible v"
    using full by (fastforce simp: field_ok_def)
  from write_required_ok[OF this websocket_headers_facts(1), of ?start, where ?'r = 'r]
  obtain h' where w: "(write_required ht websocket_headers ?h ?start :: (('r, 'x) error, bytes \<times> 'h) res)
      = Ok (?start @ concat (map (\<lambda>(n, v). header_line n v) req_fields), h')"
    by (auto simp: req_fields_def comp_def)
  have rest: "mset (hm_entries ht h') = filter_mset (\<lambda>(m, v). m \<notin> set (map lower websocket_headers)) (mset (hm_entries ht ?h))"
    by (rule write_required_entries[OF w])
  then have "set_mset (mset (hm_entries ht h'))
      = set_mset (filter_mset (\<lambda>(m, v). m \<notin> set (map lower websocket_headers)) (mset (hm_entries ht ?h)))"
    by simp
  then have sub: "m \<notin> set (map lower websocket_headers) \<and> field_ok (m, v)" if "(m, v) \<in> set (hm_entries ht h')" for m v
    using that ok by (auto simp: headers_ok_def)
  have "length (hm_entries ht h') \<le> length (hm_entries ht ?h)"
    using size_filter_mset_lesseq[of _ "mset (hm_entries ht ?h)"] rest by (metis size_mset)
  define others where "others = map (\<lambda>(k, v). (usual_case k, v)) (hm_entries ht h')"
  have "\<forall>(k, v) \<in> set (hm_entries ht h'). k \<notin> set (map lower websocket_headers) \<and> visible v"
    using sub by (force simp: field_ok_def)
  note r = write_rest_ok[OF this, of "?start @ concat (map (\<lambda>(n, v). header_line n v) req_fields)", where ?'r = 'r]
  have "(generate_request ht req :: (('r, 'x) error, bytes) res) = Ok (request_text path (req_fields @ others))"
    using path version w r show_version
    by (simp add: generate_request_def request_text_def fields_text_append others_def[symmetric])
      (simp add: fields_text_def ascii_def)
  moreover have "\<forall>f \<in> set (req_fields @ others). field_ok f"
    using vals full sub usual_case_field by (auto simp: req_fields_def others_def)
  moreover have "length (req_fields @ others) \<le> 5 + length (hm_entries ht ?h)"
    using \<open>length (hm_entries ht h') \<le> _\<close> websocket_headers_facts(3) by (simp add: req_fields_def others_def)
  moreover have "first_value n (req_fields @ others) = hm_get ht n ?h" if "n \<in> set websocket_headers" for n
    using first_value_names[OF websocket_headers_facts(1) that] full that by (auto simp: first_value_append req_fields_def)
  moreover have "\<exists>es. mset es = filter_mset (\<lambda>(m, v). m \<notin> set (map lower websocket_headers)) (mset (hm_entries ht ?h))
      \<and> req_fields @ others = map (\<lambda>n. (n, the (hm_get ht n ?h))) websocket_headers @ map (\<lambda>(k, v). (usual_case k, v)) es"
    using rest by (auto simp: req_fields_def others_def)
  ultimately show ?thesis by blast
qed

end

end
