(* ===== verification/Server_Handshake.thy ===== *)
theory Server_Handshake
  imports Handshake
begin

text \<open>
  The server's side of the opening handshake, from \<open>src/handshake/server.rs\<close>, and the entry
  points of \<open>src/server.rs\<close>: the decoder of the request, the response and its checks, the
  callback, and the handshake over a stream.
\<close>

section \<open>The request\<close>

definition request_from_httparse ::
  "('h, 'u, 'x) http \<Rightarrow> raw_request \<Rightarrow> (('r, 'x) error, ('h, 'u) http_request) res" where
  "request_from_httparse ht raw = (case rw_method raw of
     None \<Rightarrow> Panic
   | Some m \<Rightarrow>
       if m \<noteq> ascii ''GET'' then Err (Protocol WrongHttpMethod)
       else (case rw_version raw of
         None \<Rightarrow> Panic
       | Some v \<Rightarrow>
           if v < 1 then Err (Protocol WrongHttpVersion)
           else bind_res (headers_from_httparse ht (rw_headers raw)) (\<lambda>headers.
             case rw_path raw of
               None \<Rightarrow> Panic
             | Some p \<Rightarrow> bind_res (http_question (uri_parse ht p)) (\<lambda>u.
                 Ok \<lparr>rq_method = ascii ''GET'', rq_uri = u, rq_version = HTTP_11, rq_headers = headers\<rparr>))))"

definition request_decode :: "('h, 'u, 'x) http \<Rightarrow> (unit, ('r, 'x) error, nat \<times> ('h, 'u) http_request) decoding" where
  "request_decode ht d src =
     (bind_res (httparse_question (parse_request ht max_headers src)) (\<lambda>st. case st of
        None \<Rightarrow> Ok Insufficient
      | Some (n, raw) \<Rightarrow> bind_res (request_from_httparse ht raw) (\<lambda>req. Ok (Decoded (n, req)))), d, src)"

section \<open>The response\<close>

type_synonym 'h server_response = "('h, unit) http_response"
type_synonym 'h error_response = "('h, bytes option) http_response"

type_synonym ('h, 'x) builder = "('x, 'h server_response) res"

definition with_body :: "'b \<Rightarrow> ('h, 'a) http_response \<Rightarrow> ('h, 'b) http_response" where
  "with_body b r = \<lparr>rs_status = rs_status r, rs_version = rs_version r, rs_headers = rs_headers r, rs_body = b\<rparr>"

definition wants_upgrade :: "bytes \<Rightarrow> bool" where
  "wants_upgrade h \<longleftrightarrow> (\<exists>p \<in> set (split_on (\<lambda>b. b = 32 \<or> b = 44) h). eq_ignore_ascii_case p (ascii ''Upgrade''))"

definition create_parts ::
  "('h, 'u, 'x) http \<Rightarrow> ('h, 'u) http_request \<Rightarrow> (('r, 'x) error, ('h, 'x) builder) res" where
  "create_parts ht req =
     (if rq_method req \<noteq> ascii ''GET'' then Err (Protocol WrongHttpMethod)
      else if rq_version req < HTTP_11 then Err (Protocol WrongHttpVersion)
      else if \<not> header_matches ht (ascii ''Connection'') wants_upgrade (rq_headers req)
      then Err (Protocol MissingConnectionUpgradeHeader)
      else if \<not> header_matches ht (ascii ''Upgrade'') (\<lambda>s. eq_ignore_ascii_case s (ascii ''websocket'')) (rq_headers req)
      then Err (Protocol MissingUpgradeWebSocketHeader)
      else if hm_get ht (ascii ''Sec-WebSocket-Version'') (rq_headers req) \<noteq> Some (ascii ''13'')
      then Err (Protocol MissingSecWebSocketVersionHeader)
      else (case hm_get ht (ascii ''Sec-WebSocket-Key'') (rq_headers req) of
        None \<Rightarrow> Err (Protocol MissingSecWebSocketKey)
      | Some key \<Rightarrow> Ok (bind_res
          (build_headers ht
             [(ascii ''Connection'', ascii ''Upgrade''), (ascii ''Upgrade'', ascii ''websocket''),
              (ascii ''Sec-WebSocket-Accept'', derive_accept_key ht key)] (hm_empty ht))
          (\<lambda>headers. Ok \<lparr>rs_status = 101, rs_version = rq_version req, rs_headers = headers, rs_body = ()\<rparr>))))"

definition create_response ::
  "('h, 'u, 'x) http \<Rightarrow> ('h, 'u) http_request \<Rightarrow> (('r, 'x) error, 'h server_response) res" where
  "create_response ht req = bind_res (create_parts ht req) (\<lambda>b. bind_res (http_question b) (\<lambda>r. Ok (with_body () r)))"

definition create_response_with_body ::
  "('h, 'u, 'x) http \<Rightarrow> ('h, 'u) http_request \<Rightarrow> 'b \<Rightarrow> (('r, 'x) error, ('h, 'b) http_response) res" where
  "create_response_with_body ht req b =
     bind_res (create_parts ht req) (\<lambda>bld. bind_res (http_question bld) (\<lambda>r. Ok (with_body b r)))"

definition generate_response :: "('h, 'u, 'x) http \<Rightarrow> ('h, 'b) http_response \<Rightarrow> (('r, 'x) error, bytes) res" where
  "generate_response ht resp = Ok
     (ht_show_version ht (rs_version resp) @ ascii '' '' @ ht_show_status ht (rs_status resp) @ crlf
      @ concat (map (\<lambda>(k, v). header_line k v) (hm_entries ht (rs_headers resp))) @ crlf)"

section \<open>The handshake\<close>

type_synonym ('h, 'u) callback =
  "('h, 'u) http_request \<Rightarrow> 'h server_response \<Rightarrow> ('h error_response, 'h server_response) res"

definition no_callback :: "('h, 'u) callback" where
  "no_callback req resp = Ok resp"

text \<open>The callback has accepted: the response goes out, and the stream becomes a connection.\<close>

definition server_accept ::
  "('h, 'u, 'x) http \<Rightarrow> ('s, 'q, 'e) transport \<Rightarrow> websocket_config option \<Rightarrow> 'g \<Rightarrow> 'h server_response \<Rightarrow> ('s, unit, 'q) framed
     \<Rightarrow> (('h, 'x) hs_error, ('s, 'q, 'g) websocket) res \<times> ('s, unit, 'q) framed" where
  "server_accept ht tr config g resp fr =
     bind_st (generate_response ht resp, fr) (\<lambda>buf fr.
     bind_st (fr_write_all tr buf fr) (\<lambda>_ fr.
     bind_st (fr_flush tr fr) (\<lambda>_ fr.
       let fr1 = fr\<lparr>fr_buffer := []\<rparr> in (Ok (from_framed_read fr1 Server config g), fr1))))"

text \<open>The callback has refused: its response goes out and is the error.\<close>

definition server_refuse ::
  "('h, 'u, 'x) http \<Rightarrow> ('s, 'q, 'e) transport \<Rightarrow> 'h error_response \<Rightarrow> ('s, unit, 'q) framed
     \<Rightarrow> (('h, 'x) hs_error, ('s, 'q, 'g) websocket) res \<times> ('s, unit, 'q) framed" where
  "server_refuse ht tr resp fr =
     (if ht_is_success ht (rs_status resp) then (Err (Protocol CustomResponseSuccessful), fr)
      else
        bind_st (generate_response ht resp, fr) (\<lambda>buf fr.
        bind_st (fr_write_all tr buf fr) (\<lambda>_ fr.
        bind_st (case rs_body resp of Some body \<Rightarrow> fr_write_all tr body fr | None \<Rightarrow> (Ok (), fr)) (\<lambda>_ fr.
        bind_st (fr_flush tr fr) (\<lambda>_ fr. (Err (Http resp), fr))))))"

definition server_handshake ::
  "('h, 'u, 'x) http \<Rightarrow> ('s, 'q, 'e) transport \<Rightarrow> ('s, 'q, ('h, 'x) hs_error, nat \<times> ('h, 'u) http_request) next_op
     \<Rightarrow> ('h, 'u) callback \<Rightarrow> 's \<Rightarrow> websocket_config option \<Rightarrow> 'g
     \<Rightarrow> (('h, 'x) hs_error, ('s, 'q, 'g) websocket) res \<times> ('s, unit, 'q) framed" where
  "server_handshake ht tr next_frame callback stream config g =
     (case next_frame (request_decode ht) (framed_new tr stream ()) of
        (Some (Ok (sz, req)), fr) \<Rightarrow>
          if length (fr_buffer fr) \<noteq> sz then (Err (Protocol JunkAfterRequest), fr)
          else bind_st (create_response ht req, fr) (\<lambda>resp fr.
            case callback req resp of
              Ok resp' \<Rightarrow> server_accept ht tr config g resp' fr
            | Err resp' \<Rightarrow> server_refuse ht tr resp' fr
            | Panic \<Rightarrow> (Panic, fr))
      | (Some (Err e), fr) \<Rightarrow> (Err e, fr)
      | (Some Panic, fr) \<Rightarrow> (Panic, fr)
      | (None, fr) \<Rightarrow> (Err (Protocol HandshakeIncomplete), fr))"

section \<open>Entry points\<close>

definition accept_hdr_with_config ::
  "('h, 'u, 'x) http \<Rightarrow> ('s, 'q, 'e) transport \<Rightarrow> ('s, 'q, ('h, 'x) hs_error, nat \<times> ('h, 'u) http_request) next_op
     \<Rightarrow> 's \<Rightarrow> ('h, 'u) callback \<Rightarrow> websocket_config option \<Rightarrow> 'g
     \<Rightarrow> (('h, 'x) hs_error, ('s, 'q, 'g) websocket) res \<times> ('s, unit, 'q) framed" where
  "accept_hdr_with_config ht tr next_frame stream callback config g = server_handshake ht tr next_frame callback stream config g"

definition accept_hdr ::
  "('h, 'u, 'x) http \<Rightarrow> ('s, 'q, 'e) transport \<Rightarrow> ('s, 'q, ('h, 'x) hs_error, nat \<times> ('h, 'u) http_request) next_op
     \<Rightarrow> 's \<Rightarrow> ('h, 'u) callback \<Rightarrow> 'g \<Rightarrow> (('h, 'x) hs_error, ('s, 'q, 'g) websocket) res \<times> ('s, unit, 'q) framed" where
  "accept_hdr ht tr next_frame stream callback g = accept_hdr_with_config ht tr next_frame stream callback None g"

definition accept_with_config ::
  "('h, 'u, 'x) http \<Rightarrow> ('s, 'q, 'e) transport \<Rightarrow> ('s, 'q, ('h, 'x) hs_error, nat \<times> ('h, 'u) http_request) next_op
     \<Rightarrow> 's \<Rightarrow> websocket_config option \<Rightarrow> 'g \<Rightarrow> (('h, 'x) hs_error, ('s, 'q, 'g) websocket) res \<times> ('s, unit, 'q) framed" where
  "accept_with_config ht tr next_frame stream config g =
     accept_hdr_with_config ht tr next_frame stream no_callback config g"

definition accept_stream ::
  "('h, 'u, 'x) http \<Rightarrow> ('s, 'q, 'e) transport \<Rightarrow> ('s, 'q, ('h, 'x) hs_error, nat \<times> ('h, 'u) http_request) next_op
     \<Rightarrow> 's \<Rightarrow> 'g \<Rightarrow> (('h, 'x) hs_error, ('s, 'q, 'g) websocket) res \<times> ('s, unit, 'q) framed" where
  "accept_stream ht tr next_frame stream g = accept_with_config ht tr next_frame stream None g"

section \<open>What the checks amount to\<close>

text \<open>The first condition of the protocol that a request misses.\<close>

definition upgrade_violation :: "('h, 'u, 'x) http \<Rightarrow> ('h, 'u) http_request \<Rightarrow> protocol_error option" where
  "upgrade_violation ht req =
     (let get = (\<lambda>n. hm_get ht (ascii n) (rq_headers req)) in
      if rq_method req \<noteq> ascii ''GET'' then Some WrongHttpMethod
      else if rq_version req < HTTP_11 then Some WrongHttpVersion
      else if \<not> (\<exists>v. get ''Connection'' = Some v \<and> visible v \<and> wants_upgrade v) then Some MissingConnectionUpgradeHeader
      else if \<not> (\<exists>v. get ''Upgrade'' = Some v \<and> visible v \<and> lower v = ascii ''websocket'') then Some MissingUpgradeWebSocketHeader
      else if get ''Sec-WebSocket-Version'' \<noteq> Some (ascii ''13'') then Some MissingSecWebSocketVersionHeader
      else if get ''Sec-WebSocket-Key'' = None then Some MissingSecWebSocketKey
      else None)"

text \<open>The response to a request without a violation.\<close>

definition accepting_response :: "('h, 'u, 'x) http \<Rightarrow> ('h, 'u) http_request \<Rightarrow> 'h server_response \<Rightarrow> bool" where
  "accepting_response ht req resp \<longleftrightarrow> rs_status resp = 101 \<and> rs_version resp = rq_version req
     \<and> mset (hm_entries ht (rs_headers resp)) =
         {#(ascii ''connection'', ascii ''Upgrade''), (ascii ''upgrade'', ascii ''websocket''),
           (ascii ''sec-websocket-accept'',
            derive_accept_key ht (the (hm_get ht (ascii ''Sec-WebSocket-Key'') (rq_headers req))))#}
     \<and> (\<forall>n. hm_get ht n (rs_headers resp) =
          (if lower n = ascii ''connection'' then Some (ascii ''Upgrade'')
           else if lower n = ascii ''upgrade'' then Some (ascii ''websocket'')
           else if lower n = ascii ''sec-websocket-accept''
             then Some (derive_accept_key ht (the (hm_get ht (ascii ''Sec-WebSocket-Key'') (rq_headers req))))
           else None))"

lemma response_names:
  "token (ascii ''Connection'')" "token (ascii ''Upgrade'')" "token (ascii ''Sec-WebSocket-Accept'')"
  "lower (ascii ''Connection'') = ascii ''connection''" "lower (ascii ''Upgrade'') = ascii ''upgrade''"
  "lower (ascii ''Sec-WebSocket-Accept'') = ascii ''sec-websocket-accept''" "lower (ascii ''websocket'') = ascii ''websocket''"
  by (simp_all add: token_def token_char_def lower_def to_lower_def ascii_def)

lemma ascii_eq [simp]: "ascii ''connection'' = ascii ''upgrade'' \<longleftrightarrow> False" "ascii ''upgrade'' = ascii ''connection'' \<longleftrightarrow> False"
  "ascii ''sec-websocket-accept'' = ascii ''connection'' \<longleftrightarrow> False" "ascii ''sec-websocket-accept'' = ascii ''upgrade'' \<longleftrightarrow> False"
  "ascii ''connection'' = ascii ''sec-websocket-accept'' \<longleftrightarrow> False" "ascii ''upgrade'' = ascii ''sec-websocket-accept'' \<longleftrightarrow> False"
  by (simp_all add: ascii_def)

lemma visible_literals: "visible (ascii ''Upgrade'')" "visible (ascii ''websocket'')"
  by (simp_all add: visible_def ascii_def)

context http_messages
begin

lemma accept_key_visible: "visible (derive_accept_key ht k)" "derive_accept_key ht k \<noteq> []"
  "b \<in> set (derive_accept_key ht k) \<Longrightarrow> \<not> is_ascii_space b"
proof -
  have range: "33 \<le> b \<and> b \<le> 126" if "b \<in> set (derive_accept_key ht k)" for b
    using base64_text(1) that by (simp add: derive_accept_key_def)
  then have "32 \<le> b \<and> b \<le> 126" if "b \<in> set (derive_accept_key ht k)" for b
    using that by (force simp: word_le_nat_alt)
  then show "visible (derive_accept_key ht k)" by (auto simp: visible_def)
  show "\<not> is_ascii_space b" if "b \<in> set (derive_accept_key ht k)"
    using range[OF that] by (auto simp: is_ascii_space_def)
  have "ht_sha1 ht (k @ ws_guid) \<noteq> []" using sha1_length[of "k @ ws_guid"] by auto
  then show "derive_accept_key ht k \<noteq> []" using base64_text(2) by (simp add: derive_accept_key_def)
qed

lemma build_accepting:
  "\<exists>h. build_headers ht [(ascii ''Connection'', ascii ''Upgrade''), (ascii ''Upgrade'', ascii ''websocket''),
       (ascii ''Sec-WebSocket-Accept'', derive_accept_key ht k)] (hm_empty ht) = Ok h
    \<and> mset (hm_entries ht h) = {#(ascii ''connection'', ascii ''Upgrade''), (ascii ''upgrade'', ascii ''websocket''),
         (ascii ''sec-websocket-accept'', derive_accept_key ht k)#}
    \<and> (\<forall>n. hm_get ht n h =
          (if lower n = ascii ''connection'' then Some (ascii ''Upgrade'')
           else if lower n = ascii ''upgrade'' then Some (ascii ''websocket'')
           else if lower n = ascii ''sec-websocket-accept'' then Some (derive_accept_key ht k) else None))"
proof -
  let ?l1 = "ascii ''connection''" and ?l2 = "ascii ''upgrade''" and ?l3 = "ascii ''sec-websocket-accept''"
  have low: "lower ?l1 = ?l1" "lower ?l2 = ?l2" "lower ?l3 = ?l3"
    using response_names(4-6) lower_idem by metis+
  define h where "h = hm_append ht ?l3 (derive_accept_key ht k)
    (hm_append ht ?l2 (ascii ''websocket'') (hm_append ht ?l1 (ascii ''Upgrade'') (hm_empty ht)))"
  have "build_headers ht [(ascii ''Connection'', ascii ''Upgrade''), (ascii ''Upgrade'', ascii ''websocket''),
       (ascii ''Sec-WebSocket-Accept'', derive_accept_key ht k)] (hm_empty ht) = Ok h"
    by (simp add: h_def name_token response_names value_visible(2) visible_literals accept_key_visible(1))
  moreover have "mset (hm_entries ht h) = {#(?l1, ascii ''Upgrade''), (?l2, ascii ''websocket''), (?l3, derive_accept_key ht k)#}"
    by (simp add: h_def entries_append entries_empty low add_mset_commute)
  moreover have "hm_get ht n h =
          (if lower n = ?l1 then Some (ascii ''Upgrade'') else if lower n = ?l2 then Some (ascii ''websocket'')
           else if lower n = ?l3 then Some (derive_accept_key ht k) else None)" for n
    by (simp add: h_def get_append get_empty low)
  ultimately show ?thesis by blast
qed

lemma create_response_cases:
  "case upgrade_violation ht req of
     Some e \<Rightarrow> create_response ht req = (Err (Protocol e) :: (('r, 'x) error, 'h server_response) res)
   | None \<Rightarrow> (\<exists>resp. create_response ht req = (Ok resp :: (('r, 'x) error, 'h server_response) res) \<and> accepting_response ht req resp)"
proof (cases "upgrade_violation ht req")
  case (Some e)
  then show ?thesis
    by (auto simp: upgrade_violation_def create_response_def create_parts_def header_matches_eq eq_ignore_ascii_case_def
        response_names Let_def split: if_splits)
next
  case None
  then obtain k where k: "hm_get ht (ascii ''Sec-WebSocket-Key'') (rq_headers req) = Some k"
    by (auto simp: upgrade_violation_def Let_def split: if_splits)
  obtain h where h: "build_headers ht [(ascii ''Connection'', ascii ''Upgrade''), (ascii ''Upgrade'', ascii ''websocket''),
       (ascii ''Sec-WebSocket-Accept'', derive_accept_key ht k)] (hm_empty ht) = Ok h"
    and props: "accepting_response ht req \<lparr>rs_status = 101, rs_version = rq_version req, rs_headers = h, rs_body = ()\<rparr>"
    using build_accepting[of k] k by (auto simp: accepting_response_def)
  have "create_parts ht req = (Ok (Ok \<lparr>rs_status = 101, rs_version = rq_version req, rs_headers = h, rs_body = ()\<rparr>)
      :: (('r, 'x) error, ('h, 'x) builder) res)"
    using None k h
    by (auto simp: upgrade_violation_def create_parts_def header_matches_eq eq_ignore_ascii_case_def
        response_names Let_def split: if_splits)
  then show ?thesis using None props by (simp add: create_response_def with_body_def)
qed

end

end
