(* ===== verification/Std_Http.thy ===== *)
theory Std_Http
  imports Http
begin

text \<open>
  An instance of the HTTP interface: header maps as lists of fields, a parser of requests and
  responses that reads line by line, SHA-1 and Base64. It shows that the laws of the
  interface hold together, and lets the handshake run on concrete bytes.
\<close>

section \<open>Header maps\<close>

definition std_entries :: "(bytes \<times> bytes) list \<Rightarrow> (bytes \<times> bytes) list" where
  "std_entries h = map (\<lambda>(n, v). (lower n, v)) h"

definition std_get :: "bytes \<Rightarrow> (bytes \<times> bytes) list \<Rightarrow> bytes option" where
  "std_get n h = map_of (std_entries h) (lower n)"

definition std_remove :: "bytes \<Rightarrow> (bytes \<times> bytes) list \<Rightarrow> bytes option \<times> (bytes \<times> bytes) list" where
  "std_remove n h = (std_get n h, filter (\<lambda>(m, _). lower m \<noteq> lower n) h)"

lemma std_get_append:
  "std_get n (h @ [(m, v)]) = (if lower n = lower m \<and> std_get n h = None then Some v else std_get n h)"
  by (simp add: std_get_def std_entries_def map_of_append map_add_def split: option.split)

lemma std_get_removed: "std_get m (snd (std_remove n h)) = (if lower m = lower n then None else std_get m h)"
  by (induction h) (auto simp: std_get_def std_remove_def std_entries_def)

lemma fst_std_remove [simp]: "fst (std_remove n h) = std_get n h"
  by (simp add: std_remove_def)

lemma std_entry_name: "(n, v) \<in> set (std_entries h) \<Longrightarrow> lower n = n \<and> std_get n h \<noteq> None"
proof
  assume entry: "(n, v) \<in> set (std_entries h)"
  then show "lower n = n" by (auto simp: std_entries_def)
  with entry show "std_get n h \<noteq> None" by (simp add: std_get_def map_of_eq_None_iff) force
qed

lemma std_entries_removed:
  "std_entries (snd (std_remove n h)) = filter (\<lambda>(m, v). m \<noteq> lower n) (std_entries h)"
  by (induction h) (auto simp: std_remove_def std_entries_def)

lemma std_get_simps: "lower n = lower m \<Longrightarrow> std_get n h = std_get m h" "std_get n [] = None"
  by (auto simp: std_get_def std_entries_def)

section \<open>Parsing line by line\<close>

fun take_line :: "bytes \<Rightarrow> (bytes \<times> bytes) option" where
  "take_line [] = None"
| "take_line [b] = None"
| "take_line (b # c # r) = (if b = 13 \<and> c = 10 then Some ([], r)
     else map_option (\<lambda>(l, r'). (b # l, r')) (take_line (c # r)))"

lemma take_line_shorter: "take_line bs = Some (l, r) \<Longrightarrow> length r < length bs"
  by (induction bs arbitrary: l rule: take_line.induct) (force split: if_splits)+

definition field_of :: "bytes \<Rightarrow> bytes \<times> bytes" where
  "field_of l = (takeWhile (\<lambda>b. b \<noteq> 58) l, drop 2 (dropWhile (\<lambda>b. b \<noteq> 58) l))"

function take_fields :: "bytes \<Rightarrow> ((bytes \<times> bytes) list \<times> bytes) option" where
  "take_fields bs = (case take_line bs of
     None \<Rightarrow> None
   | Some (l, r) \<Rightarrow> if l = [] then Some ([], r) else map_option (\<lambda>(fs, r'). (field_of l # fs, r')) (take_fields r))"
  by pat_completeness auto

termination
  by (relation "measure length") (auto dest: take_line_shorter)

declare take_fields.simps [simp del]

lemma take_line_found: "13 \<notin> set l \<Longrightarrow> take_line (l @ crlf @ r) = Some (l, r)"
proof (induction l)
  case (Cons b l)
  then show ?case by (cases l) (auto simp: crlf_def)
qed (simp add: crlf_def)

lemma take_line_cut: "13 \<notin> set l \<Longrightarrow> k < length l + 2 \<Longrightarrow> take_line (take k (l @ crlf @ r)) = None"
proof (induction l arbitrary: k)
  case Nil
  then have "k = 0 \<or> k = 1" by auto
  then show ?case by (auto simp: crlf_def)
next
  case (Cons b l)
  show ?case
  proof (cases k)
    case (Suc j)
    define t where "t = take j (l @ crlf @ r)"
    have "take_line t = None" using Cons Suc by (simp add: t_def)
    moreover have "take k ((b # l) @ crlf @ r) = b # t" by (simp add: t_def Suc)
    moreover have "b \<noteq> 13" using Cons.prems(1) by simp
    ultimately show ?thesis by (cases t) simp_all
  qed simp
qed

text \<open>A field comes back from its line.\<close>

lemma visible_no_cr: "visible s \<Longrightarrow> 13 \<notin> set s"
  by (auto simp: visible_def)

lemma token_no_colon: "token n \<Longrightarrow> 58 \<notin> set n" "token n \<Longrightarrow> 13 \<notin> set n"
  by (auto simp: token_def token_char_def ascii_def)

lemma field_of_line:
  assumes "token n"
  shows "field_of (n @ ascii '': '' @ v) = (n, v)"
proof -
  have "ascii '': '' = [58, 32]" by (simp add: ascii_def)
  moreover have "\<forall>b \<in> set n. b \<noteq> 58" using token_no_colon[OF assms] by auto
  ultimately show ?thesis by (simp add: field_of_def takeWhile_append2 dropWhile_append2)
qed

lemma header_line_split: "header_line n v @ r = (n @ ascii '': '' @ v) @ crlf @ r"
  by (simp add: header_line_def)

lemma field_line:
  assumes "field_ok (n, v)"
  shows "13 \<notin> set (n @ ascii '': '' @ v)" "n @ ascii '': '' @ v \<noteq> []" "field_of (n @ ascii '': '' @ v) = (n, v)"
  using assms token_no_colon visible_no_cr field_of_line by (auto simp: field_ok_def ascii_def)

lemma take_fields_found: "\<forall>f \<in> set fs. field_ok f \<Longrightarrow> take_fields (fields_text fs @ rest) = Some (fs, rest)"
proof (induction fs)
  case Nil
  have "take_line (crlf @ rest) = Some ([], rest)" using take_line_found[of "[]" rest] by simp
  then show ?case by (simp add: take_fields.simps[of "crlf @ rest"])
next
  case (Cons f fs)
  obtain n v where f: "f = (n, v)" by force
  note line = field_line[of n v] and split = header_line_split[of n v "fields_text fs @ rest"]
  have "take_line (header_line n v @ fields_text fs @ rest) = Some (n @ ascii '': '' @ v, fields_text fs @ rest)"
    unfolding split by (rule take_line_found) (use line(1) Cons.prems f in simp)
  then show ?case
    using Cons f line by (subst take_fields.simps) simp
qed

lemma take_fields_cut:
  "\<forall>f \<in> set fs. field_ok f \<Longrightarrow> k < length (fields_text fs) \<Longrightarrow> take_fields (take k (fields_text fs)) = None"
proof (induction fs arbitrary: k)
  case Nil
  then have "take_line (take k crlf) = None" using take_line_cut[of "[]" k "[]"] by (simp add: crlf_def)
  then show ?case by (simp add: take_fields.simps[of "take k crlf"])
next
  case (Cons f fs)
  obtain n v where f: "f = (n, v)" by force
  let ?l = "n @ ascii '': '' @ v"
  have line: "13 \<notin> set ?l" "?l \<noteq> []" using field_line[of n v] Cons.prems(1) f by simp_all
  have split: "fields_text (f # fs) = ?l @ crlf @ fields_text fs" by (simp add: f header_line_def)
  show ?case
  proof (cases "k < length ?l + 2")
    case True
    then have "take_line (take k (?l @ crlf @ fields_text fs)) = None" using line(1) by (rule take_line_cut[rotated])
    then show ?thesis unfolding split by (subst take_fields.simps) simp
  next
    case False
    define j where "j = k - (length ?l + 2)"
    have k: "k - length ?l = Suc (Suc j)" using False by (simp add: j_def)
    have "take k (?l @ crlf @ fields_text fs) = ?l @ crlf @ take j (fields_text fs)"
      using False k by (simp add: k take_append crlf_def del: append_assoc)
    moreover have "take_line (?l @ crlf @ take j (fields_text fs)) = Some (?l, take j (fields_text fs))"
      using line(1) by (rule take_line_found)
    moreover have "take_fields (take j (fields_text fs)) = None"
      using Cons.IH[of j] Cons.prems False split by (simp add: j_def crlf_def)
    ultimately show ?thesis unfolding split using line(2) by (subst take_fields.simps) simp
  qed
qed

text \<open>A message head: a first line, then fields up to an empty line.\<close>

definition parse_head ::
  "(bytes \<Rightarrow> raw_headers \<Rightarrow> (httparse_error, 'a) res) \<Rightarrow> nat \<Rightarrow> bytes \<Rightarrow> (httparse_error, (nat \<times> 'a) option) res" where
  "parse_head f k bs = (case take_line bs of
     None \<Rightarrow> Ok None
   | Some (l, r) \<Rightarrow> (case take_fields r of
       None \<Rightarrow> Ok None
     | Some (fs, rest) \<Rightarrow>
         if k < length fs then Err Httparse_TooManyHeaders
         else (case f l fs of
             Ok a \<Rightarrow> Ok (Some (length bs - length rest, a)) | Err e \<Rightarrow> Err e | Panic \<Rightarrow> Panic)))"

lemma parse_head_found:
  assumes "13 \<notin> set l" "\<forall>f \<in> set fs. field_ok f" "length fs \<le> k" "f l fs = Ok a"
  shows "parse_head f k ((l @ crlf @ fields_text fs) @ rest) = Ok (Some (length (l @ crlf @ fields_text fs), a))"
proof -
  have "take_line (l @ crlf @ fields_text fs @ rest) = Some (l, fields_text fs @ rest)"
    by (rule take_line_found[OF assms(1)])
  then show ?thesis
    using assms(3,4) take_fields_found[OF assms(2), of rest] by (simp add: parse_head_def)
qed

lemma parse_head_cut:
  assumes "13 \<notin> set l" "\<forall>f \<in> set fs. field_ok f" "j < length (l @ crlf @ fields_text fs)"
  shows "parse_head f k (take j (l @ crlf @ fields_text fs)) = Ok None"
proof (cases "j < length l + 2")
  case True
  then show ?thesis using take_line_cut[OF assms(1) True] by (simp add: parse_head_def)
next
  case False
  define i where "i = j - (length l + 2)"
  have j: "j - length l = Suc (Suc i)" using False by (simp add: i_def)
  have "take j (l @ crlf @ fields_text fs) = l @ crlf @ take i (fields_text fs)"
    using False j by (simp add: take_append crlf_def)
  moreover have "take_fields (take i (fields_text fs)) = None"
    using take_fields_cut[OF assms(2)] assms(3) False by (simp add: i_def crlf_def)
  ultimately show ?thesis
    using take_line_found[OF assms(1)] by (simp add: parse_head_def)
qed

lemma parse_head_Some:
  assumes "parse_head f k bs = Ok (Some (n, a))"
  shows "n \<le> length bs \<and> (\<exists>l fs. f l fs = Ok a)"
  using assms by (auto simp: parse_head_def split: option.splits if_splits res.splits prod.splits)

lemma parse_head_no_panic: "(\<And>l fs. f l fs \<noteq> Panic) \<Longrightarrow> parse_head f k bs \<noteq> Panic"
  by (auto simp: parse_head_def split: option.splits res.splits prod.splits)

definition std_request_line :: "bytes \<Rightarrow> raw_headers \<Rightarrow> (httparse_error, raw_request) res" where
  "std_request_line l fs =
     (let m = takeWhile (\<lambda>b. b \<noteq> 32) l; r = tl (dropWhile (\<lambda>b. b \<noteq> 32) l);
          t = takeWhile (\<lambda>b. b \<noteq> 32) r; v = tl (dropWhile (\<lambda>b. b \<noteq> 32) r)
      in if v = ascii ''HTTP/1.1'' then Ok \<lparr>rw_method = Some m, rw_path = Some t, rw_version = Some 1, rw_headers = fs\<rparr>
         else if v = ascii ''HTTP/1.0'' then Ok \<lparr>rw_method = Some m, rw_path = Some t, rw_version = Some 0, rw_headers = fs\<rparr>
         else Err Httparse_Version)"

definition digit :: "nat \<Rightarrow> u8" where
  "digit n = of_nat (48 + n)"

definition digits3 :: "nat \<Rightarrow> bytes" where
  "digits3 n = [digit (n div 100), digit (n div 10 mod 10), digit (n mod 10)]"

definition number_of :: "bytes \<Rightarrow> nat" where
  "number_of ds = foldl (\<lambda>n d. 10 * n + (unat d - 48)) 0 ds"

lemma unat_digit: "n < 10 \<Longrightarrow> unat (digit n) = 48 + n"
  unfolding digit_def unsigned_of_nat by (simp add: take_bit_nat_eq_self)

lemma number_of_digits3:
  assumes "n < 1000"
  shows "number_of (digits3 n) = n"
proof -
  have "n div 100 < 10" using assms by simp
  then have "number_of (digits3 n) = 10 * (10 * (n div 100) + n div 10 mod 10) + n mod 10"
    by (simp add: number_of_def digits3_def unat_digit)
  also have "10 * (n div 100) + n div 10 mod 10 = n div 10" by (simp add: div_mult2_eq[of n 10 10, simplified])
  finally show ?thesis by simp
qed

definition std_show_status :: "u16 \<Rightarrow> bytes" where
  "std_show_status s = digits3 (unat s) @ (if s = 101 then ascii '' Switching Protocols'' else ascii '' Status'')"

definition std_status_line :: "bytes \<Rightarrow> raw_headers \<Rightarrow> (httparse_error, raw_response) res" where
  "std_status_line l fs =
     (if take 9 l = ascii ''HTTP/1.1 ''
      then Ok \<lparr>rv_version = Some 1, rv_code = Some (of_nat (number_of (take 3 (drop 9 l)))), rv_headers = fs\<rparr>
      else Err Httparse_Version)"

lemma std_request_line_ok:
  assumes "target_ok t"
  shows "std_request_line (ascii ''GET '' @ t @ ascii '' HTTP/1.1'') fs
      = Ok \<lparr>rw_method = Some (ascii ''GET''), rw_path = Some t, rw_version = Some 1, rw_headers = fs\<rparr>"
    and "13 \<notin> set (ascii ''GET '' @ t @ ascii '' HTTP/1.1'')"
proof -
  have no: "\<forall>b \<in> set t. b \<noteq> 32" "13 \<notin> set t" using assms by (auto simp: target_ok_def)
  have lit: "ascii ''GET '' = [71, 69, 84, 32]" "ascii ''GET'' = [71, 69, 84]" "ascii '' HTTP/1.1'' = 32 # ascii ''HTTP/1.1''"
    by (simp_all add: ascii_def)
  show "std_request_line (ascii ''GET '' @ t @ ascii '' HTTP/1.1'') fs
      = Ok \<lparr>rw_method = Some (ascii ''GET''), rw_path = Some t, rw_version = Some 1, rw_headers = fs\<rparr>"
    using no(1) by (simp add: std_request_line_def lit takeWhile_append2 dropWhile_append2)
  show "13 \<notin> set (ascii ''GET '' @ t @ ascii '' HTTP/1.1'')"
    using no(2) by (simp add: ascii_def)
qed

lemma std_status_line_ok:
  assumes "100 \<le> s" "s \<le> 999"
  shows "std_status_line (ascii ''HTTP/1.1 '' @ std_show_status s) fs = Ok \<lparr>rv_version = Some 1, rv_code = Some s, rv_headers = fs\<rparr>"
    and "13 \<notin> set (ascii ''HTTP/1.1 '' @ std_show_status s)"
proof -
  have s: "unat s < 1000" using assms(2) by (simp add: word_le_nat_alt)
  have "length (ascii ''HTTP/1.1 '') = 9" "length (digits3 (unat s)) = 3" by (simp_all add: digits3_def)
  then show "std_status_line (ascii ''HTTP/1.1 '' @ std_show_status s) fs = Ok \<lparr>rv_version = Some 1, rv_code = Some s, rv_headers = fs\<rparr>"
    using number_of_digits3[OF s] by (simp add: std_status_line_def std_show_status_def)
  have "digit n \<noteq> 13" if "n < 10" for n
    using unat_digit[OF that] by auto
  from this[of "unat s div 100"] this[of "unat s div 10 mod 10"] this[of "unat s mod 10"]
  show "13 \<notin> set (ascii ''HTTP/1.1 '' @ std_show_status s)"
    using s by (auto simp: std_show_status_def digits3_def ascii_def)
qed

section \<open>URIs\<close>

record std_uri =
  su_scheme :: "bytes option"
  su_authority :: "bytes option"
  su_path :: "bytes option"

fun cut_scheme :: "bytes \<Rightarrow> (bytes \<times> bytes) option" where
  "cut_scheme (a # b # c # r) = (if a = 58 \<and> b = 47 \<and> c = 47 then Some ([], r)
     else map_option (\<lambda>(s, r'). (a # s, r')) (cut_scheme (b # c # r)))"
| "cut_scheme bs = None"

definition std_uri_parse :: "bytes \<Rightarrow> (unit, std_uri) res" where
  "std_uri_parse t = (if t = [] then Err ()
     else if hd t = 47 then Ok \<lparr>su_scheme = None, su_authority = None, su_path = Some t\<rparr>
     else (case cut_scheme t of
         None \<Rightarrow> Ok \<lparr>su_scheme = None, su_authority = Some t, su_path = None\<rparr>
       | Some (s, r) \<Rightarrow>
           let p = dropWhile (\<lambda>b. b \<noteq> 47) r
           in Ok \<lparr>su_scheme = Some s, su_authority = Some (takeWhile (\<lambda>b. b \<noteq> 47) r),
                su_path = Some (if p = [] then [47] else p)\<rparr>))"

text \<open>The host and the port of an authority, behind the user.\<close>

definition std_host_port :: "bytes \<Rightarrow> bytes" where
  "std_host_port a = (if 64 \<in> set a then tl (dropWhile (\<lambda>b. b \<noteq> 64) a) else a)"

definition std_uri_host :: "std_uri \<Rightarrow> bytes option" where
  "std_uri_host u = map_option (\<lambda>a. let h = std_host_port a in
     if h \<noteq> [] \<and> hd h = 91 then takeWhile (\<lambda>b. b \<noteq> 93) h @ [93] else takeWhile (\<lambda>b. b \<noteq> 58) h) (su_authority u)"

definition std_uri_port :: "std_uri \<Rightarrow> u16 option" where
  "std_uri_port u = (case su_authority u of None \<Rightarrow> None
     | Some a \<Rightarrow> (let h = std_host_port a;
           r = dropWhile (\<lambda>b. b \<noteq> 58) (if h \<noteq> [] \<and> hd h = 91 then dropWhile (\<lambda>b. b \<noteq> 93) h else h) in
         if r = [] then None else Some (of_nat (number_of (tl r)))))"

section \<open>Base64 and SHA-1\<close>

definition base64_char :: "nat \<Rightarrow> u8" where
  "base64_char n = of_nat (if n < 26 then 65 + n else if n < 52 then 71 + n else if n < 62 then n - 4
     else if n = 62 then 43 else 47)"

fun base64 :: "bytes \<Rightarrow> bytes" where
  "base64 [] = []"
| "base64 [a] = [base64_char (unat a div 4), base64_char (unat a mod 4 * 16), 61, 61]"
| "base64 [a, b] = [base64_char (unat a div 4), base64_char (unat a mod 4 * 16 + unat b div 16),
     base64_char (unat b mod 16 * 4), 61]"
| "base64 (a # b # c # r) = [base64_char (unat a div 4), base64_char (unat a mod 4 * 16 + unat b div 16),
     base64_char (unat b mod 16 * 4 + unat c div 64), base64_char (unat c mod 64)] @ base64 r"

lemma base64_char_text:
  assumes "n < 64"
  shows "33 \<le> base64_char n \<and> base64_char n \<le> 126"
proof -
  have "33 \<le> (of_nat k :: u8) \<and> (of_nat k :: u8) \<le> 126" if "43 \<le> k" "k \<le> 122" for k
    using that unfolding word_le_nat_alt unsigned_of_nat by (simp add: take_bit_nat_eq_self)
  moreover have "43 \<le> (if n < 26 then 65 + n else if n < 52 then 71 + n else if n < 62 then n - 4
     else if n = 62 then 43 else 47)"
    "(if n < 26 then 65 + n else if n < 52 then 71 + n else if n < 62 then n - 4
     else if n = 62 then 43 else 47) \<le> 122"
    using assms by (simp_all, presburger+)
  ultimately show ?thesis unfolding base64_char_def by blast
qed

lemma unat_div_u8: "unat (a :: u8) div 4 < 64" "unat (a :: u8) div 16 < 16" "unat (a :: u8) div 64 < 4"
  using unsigned_less[of a, where ?'a = nat] by simp_all

lemma base64_text: "b \<in> set (base64 x) \<Longrightarrow> 33 \<le> b \<and> b \<le> 126"
proof (induction x rule: base64.induct)
  case (2 a)
  then show ?case using base64_char_text unat_div_u8[of a] by auto
next
  case (3 a b)
  have "unat a mod 4 * 16 + unat b div 16 < 64" using unat_div_u8(2)[of b] by simp
  then show ?case using 3 base64_char_text unat_div_u8[of a] by auto
next
  case (4 a b c r)
  have "unat a mod 4 * 16 + unat b div 16 < 64" "unat b mod 16 * 4 + unat c div 64 < 64"
    using unat_div_u8(2)[of b] unat_div_u8(3)[of c] by simp_all
  then show ?case using 4 base64_char_text unat_div_u8[of a] by auto
qed simp

lemma base64_empty: "base64 x = [] \<longleftrightarrow> x = []"
  by (cases x rule: base64.cases) simp_all

definition u32_to_be_bytes :: "u32 \<Rightarrow> bytes" where
  "u32_to_be_bytes w = [ucast (drop_bit 24 w), ucast (drop_bit 16 w), ucast (drop_bit 8 w), ucast w]"

fun u32_words :: "bytes \<Rightarrow> u32 list" where
  "u32_words (a # b # c # d # r) = be_acc 0 [a, b, c, d] # u32_words r"
| "u32_words r = []"

type_synonym sha1_state = "u32 \<times> u32 \<times> u32 \<times> u32 \<times> u32"

text \<open>The message schedule, newest word first.\<close>

primrec sha1_schedule :: "nat \<Rightarrow> u32 list \<Rightarrow> u32 list" where
  "sha1_schedule 0 ws = ws"
| "sha1_schedule (Suc n) ws =
     sha1_schedule n (word_rotl 1 (ws ! 2 XOR ws ! 7 XOR ws ! 13 XOR ws ! 15) # ws)"

definition sha1_round :: "nat \<times> u32 \<Rightarrow> sha1_state \<Rightarrow> sha1_state" where
  "sha1_round tw st = (case (tw, st) of ((t, w), (a, b, c, d, e)) \<Rightarrow>
     let (f, k) = (if t < 20 then ((b AND c) OR (NOT b AND d), 0x5A827999)
           else if t < 40 then (b XOR c XOR d, 0x6ED9EBA1)
           else if t < 60 then ((b AND c) OR (b AND d) OR (c AND d), 0x8F1BBCDC)
           else (b XOR c XOR d, 0xCA62C1D6))
     in (word_rotl 5 a + f + e + k + w, a, word_rotl 30 b, c, d))"

definition sha1_block :: "bytes \<Rightarrow> sha1_state \<Rightarrow> sha1_state" where
  "sha1_block block st = (case fold sha1_round (enumerate 0 (rev (sha1_schedule 64 (rev (u32_words block))))) st of
     (a', b', c', d', e') \<Rightarrow> (case st of (a, b, c, d, e) \<Rightarrow> (a + a', b + b', c + c', d + d', e + e')))"

fun sha1_blocks :: "bytes \<Rightarrow> sha1_state \<Rightarrow> sha1_state" where
  "sha1_blocks bs st = (if length bs < 64 then st else sha1_blocks (drop 64 bs) (sha1_block (take 64 bs) st))"

declare sha1_blocks.simps [simp del]

definition sha1_pad :: "bytes \<Rightarrow> bytes" where
  "sha1_pad m = m @ [0x80] @ replicate ((119 - length m mod 64) mod 64) 0 @ u64_to_be_bytes (of_nat (8 * length m))"

definition sha1 :: "bytes \<Rightarrow> bytes" where
  "sha1 m = (case sha1_blocks (sha1_pad m) (0x67452301, 0xEFCDAB89, 0x98BADCFE, 0x10325476, 0xC3D2E1F0) of
     (a, b, c, d, e) \<Rightarrow> u32_to_be_bytes a @ u32_to_be_bytes b @ u32_to_be_bytes c @ u32_to_be_bytes d @ u32_to_be_bytes e)"

lemma length_sha1: "length (sha1 m) = 20"
  by (simp add: sha1_def u32_to_be_bytes_def split: prod.split)

section \<open>The instance\<close>

definition std_http :: "((bytes \<times> bytes) list, std_uri, unit) http" where
  "std_http = \<lparr>
     ht_header_name = (\<lambda>n. if token n then Ok (lower n) else Err ()),
     ht_header_value = (\<lambda>v. if 127 \<in> set v \<or> 10 \<in> set v \<or> 13 \<in> set v then Err () else Ok v),
     ht_parse_value = (\<lambda>v. if visible v then Ok v else Err ()),
     ht_to_str = (\<lambda>v. if visible v then Ok v else Err (ascii ''failed to convert header to a str'')),
     ht_show_value = (\<lambda>v. [34] @ v @ [34]),
     hm_empty = [],
     hm_get = std_get,
     hm_append = (\<lambda>n v h. h @ [(n, v)]),
     hm_remove = std_remove,
     hm_entries = std_entries,
     ht_status = (\<lambda>s. if 100 \<le> s \<and> s \<le> 999 then Ok s else Err ()),
     ht_is_success = (\<lambda>s. 200 \<le> s \<and> s < 300),
     ht_show_status = std_show_status,
     ht_show_version = (\<lambda>v. if v = HTTP_11 then ascii ''HTTP/1.1'' else ascii ''HTTP/?''),
     uri_parse = std_uri_parse,
     uri_scheme = su_scheme,
     uri_authority = su_authority,
     uri_host = std_uri_host,
     uri_port = std_uri_port,
     uri_path_and_query = su_path,
     parse_headers = (\<lambda>k bs. case take_fields bs of
         None \<Rightarrow> Ok None
       | Some (fs, rest) \<Rightarrow> if k < length fs then Err Httparse_TooManyHeaders else Ok (Some (length bs - length rest, fs))),
     parse_request = parse_head std_request_line,
     parse_response = parse_head std_status_line,
     ht_sha1 = sha1,
     ht_base64 = base64\<rparr>"

lemma std_lines_no_panic: "std_request_line l fs \<noteq> Panic" "std_status_line l fs \<noteq> Panic"
  by (simp_all add: std_request_line_def std_status_line_def Let_def)

lemma std_lines_complete:
  "std_request_line l fs = Ok rq \<Longrightarrow> rw_method rq \<noteq> None \<and> rw_path rq \<noteq> None \<and> rw_version rq \<noteq> None"
  "std_status_line l fs = Ok rs \<Longrightarrow> rv_version rs \<noteq> None \<and> rv_code rs \<noteq> None"
  by (auto simp: std_request_line_def std_status_line_def Let_def split: if_splits)

interpretation std: http_laws std_http
proof
  fix k :: nat and src :: bytes and sz :: nat
  show "parse_request std_http k src = Ok (Some (sz, rq)) \<Longrightarrow>
      rw_method rq \<noteq> None \<and> rw_path rq \<noteq> None \<and> rw_version rq \<noteq> None \<and> sz \<le> length src" for rq
    by (auto simp: std_http_def dest!: parse_head_Some std_lines_complete)
  show "parse_response std_http k src = Ok (Some (sz, rs)) \<Longrightarrow>
      rv_version rs \<noteq> None \<and> rv_code rs \<noteq> None \<and> sz \<le> length src" for rs
    by (auto simp: std_http_def dest!: parse_head_Some std_lines_complete)
  show "parse_request std_http k src \<noteq> Panic" "parse_response std_http k src \<noteq> Panic"
    by (simp_all add: std_http_def parse_head_no_panic std_lines_no_panic)
  show "lower n = lower m \<Longrightarrow> hm_get std_http n h = hm_get std_http m h" for n m h
    by (simp add: std_http_def std_get_def)
  show "parse_headers std_http k src \<noteq> Panic"
    by (simp add: std_http_def split: option.split prod.split)
  fix n v h
  show "(n, v) \<in> set (hm_entries std_http h) \<Longrightarrow> lower n = n \<and> hm_get std_http n h \<noteq> None"
    using std_entry_name[of n v h] by (simp add: std_http_def)
  show "hm_get std_http n h = Some v \<Longrightarrow> (lower n, v) \<in> set (hm_entries std_http h)"
    by (simp add: std_http_def std_get_def map_of_SomeD)
  show "mset (hm_entries std_http (snd (hm_remove std_http n h)))
      = filter_mset (\<lambda>(m, v). m \<noteq> lower n) (mset (hm_entries std_http h))"
    by (simp add: std_http_def std_entries_removed)
  show "hm_entries std_http (hm_empty std_http) = []"
    "mset (hm_entries std_http (hm_append std_http n v h)) = add_mset (lower n, v) (mset (hm_entries std_http h))"
    by (simp_all add: std_http_def std_entries_def)
qed (auto simp: std_http_def std_get_append std_get_removed std_get_simps(2) std_uri_parse_def visible_def
    Let_def split: if_splits option.splits)

interpretation std: http_messages std_http
proof
  fix t :: bytes and fs :: raw_headers and k j :: nat and rest :: bytes and s :: u16
  assume fs: "\<forall>f \<in> set fs. field_ok f" "length fs \<le> k"
  show "parse_request std_http k (request_text t fs @ rest)
      = Ok (Some (length (request_text t fs), \<lparr>rw_method = Some (ascii ''GET''), rw_path = Some t, rw_version = Some 1, rw_headers = fs\<rparr>))"
    if "target_ok t"
    using parse_head_found[where f = std_request_line, OF std_request_line_ok(2)[OF that] fs std_request_line_ok(1)[OF that]]
    by (simp add: std_http_def request_text_def)
  show "parse_request std_http k (take j (request_text t fs)) = Ok None"
    if "target_ok t" "j < length (request_text t fs)"
    using parse_head_cut[where f = std_request_line, OF std_request_line_ok(2)[OF that(1)] fs(1)] that(2)
    by (simp add: std_http_def request_text_def)
  show "parse_response std_http k (response_text (ht_show_status std_http s) fs @ rest)
      = Ok (Some (length (response_text (ht_show_status std_http s) fs), \<lparr>rv_version = Some 1, rv_code = Some s, rv_headers = fs\<rparr>))"
    if "100 \<le> s" "s \<le> 999"
    using parse_head_found[where f = std_status_line, OF std_status_line_ok(2)[OF that] fs std_status_line_ok(1)[OF that]]
    by (simp add: std_http_def response_text_def)
  show "parse_response std_http k (take j (response_text (ht_show_status std_http s) fs)) = Ok None"
    if "100 \<le> s" "s \<le> 999" "j < length (response_text (ht_show_status std_http s) fs)"
    using parse_head_cut[where f = std_status_line, OF std_status_line_ok(2)[OF that(1,2)] fs(1)] that(3)
    by (simp add: std_http_def response_text_def)
qed (use base64_text base64_empty length_sha1 in \<open>auto simp: std_http_def\<close>)

end
