(* ===== verification/Handshake_Session.thy ===== *)
theory Handshake_Session
  imports Client_Handshake Server_Handshake Mem_Session Std_Http
begin

text \<open>
  The opening handshake over a transport: neither side panics, what a completed handshake
  has established, and the two sides against each other over the in-memory transport.
\<close>

section \<open>Safety\<close>

locale opening_io = frame_source tr sent
  for tr :: "('s, 'q, ('r, 'x) error) transport" and sent :: "'s \<Rightarrow> bytes" +
  fixes nx :: "('s, 'q, ('r, 'x) error, 'i) next_op"
  assumes nx_correct: "nx dec fr = (res, fr') \<Longrightarrow>
      next_spec dec (fr_decoder fr) (fr_buffer fr) res (fr_decoder fr') (fr_buffer fr')"
    and nx_sent: "sent (fr_io (snd (nx dec fr))) = sent (fr_io fr)"

interpretation mem_opening: opening_io mem_transport mem_out mem_next
  by unfold_locales (auto simp: mem_next_def dest: mem_drive_spec split: prod.splits)

lemma next_spec_yields:
  "next_spec dec d b res d' b' \<Longrightarrow> res = Some (Ok f) \<Longrightarrow> \<exists>d0 b0. dec d0 b0 = (Ok (Decoded f), d', b')"
  by (induction rule: next_spec.induct) auto

lemma next_spec_no_panic:
  "next_spec dec d b res d' b' \<Longrightarrow> (\<And>d b. fst (dec d b) \<noteq> Panic) \<Longrightarrow> res \<noteq> Some Panic"
  by (induction rule: next_spec.induct) (auto simp: prod_eq_iff)

context http_laws
begin

lemma headers_from_httparse_no_panic [simp]: "headers_from_httparse ht raw = Panic \<longleftrightarrow> False"
  by (simp add: headers_from_httparse_def append_headers_no_panic)

lemma response_decode_ok:
  "fst (response_decode ht d src :: (('r, 'x) error, (nat \<times> 'h client_response) decoded) res \<times> _) \<noteq> Panic"
  "response_decode ht d src = (Ok (Decoded (sz, resp)) :: (('r, 'x) error, _) res, d', src') \<Longrightarrow> src' = src \<and> sz \<le> length src"
proof -
  have conv: "response_from_httparse ht raw \<noteq> (Panic :: (('r, 'x) error, 'h client_response) res)"
    if "parse_response ht k s = Ok (Some (n, raw))" for k s n raw
    using response_complete[OF that] by (auto simp: response_from_httparse_def outcome_simps split: if_splits)
  show "fst (response_decode ht d src :: (('r, 'x) error, (nat \<times> 'h client_response) decoded) res \<times> _) \<noteq> Panic"
    using conv by (auto simp: response_decode_def outcome_simps split: option.split)
  show "src' = src \<and> sz \<le> length src"
    if "response_decode ht d src = (Ok (Decoded (sz, resp)) :: (('r, 'x) error, _) res, d', src')"
    using that response_complete by (auto simp: response_decode_def outcome_simps split: option.splits prod.splits)
qed

lemma request_decode_ok:
  "fst (request_decode ht d src :: (('r, 'x) error, (nat \<times> ('h, 'u) http_request) decoded) res \<times> _) \<noteq> Panic"
proof -
  have "request_from_httparse ht raw \<noteq> (Panic :: (('r, 'x) error, ('h, 'u) http_request) res)"
    if "parse_request ht k s = Ok (Some (n, raw))" for k s n raw
    using request_complete[OF that] by (auto simp: request_from_httparse_def outcome_simps split: if_splits)
  then show ?thesis by (auto simp: request_decode_def outcome_simps split: option.split)
qed

lemma write_required_no_panic:
  "\<forall>n \<in> set names. token n \<Longrightarrow> (write_required ht names h buf :: (('r, 'x) error, bytes \<times> 'h) res) \<noteq> Panic"
proof (induction names arbitrary: h buf)
  case (Cons n names)
  have inv: "invalid_header ht n = (Err (Protocol (InvalidHeader (lower n))) :: (('r, 'x) error, bytes \<times> 'h) res)"
    using Cons.prems by (simp add: invalid_header_token)
  show ?case
  proof (cases "hm_remove ht n h")
    case (Pair v h1)
    then show ?thesis
      using Cons inv by (cases v; cases "ht_to_str ht (the v)") (auto simp: value_text_def)
  qed
qed simp

lemma write_rest_no_panic: "(write_rest ht es buf :: (('r, 'x) error, bytes) res) \<noteq> Panic"
proof (induction es arbitrary: buf)
  case (Cons e es)
  obtain k v where "e = (k, v)" by force
  then show ?case using Cons by (cases "ht_to_str ht v") (simp_all add: value_text_def Let_def)
qed simp

lemma generate_request_no_panic: "(generate_request ht req :: (('r, 'x) error, bytes) res) \<noteq> Panic"
  using write_required_no_panic[OF websocket_headers_facts(2), where ?'r = 'r] write_rest_no_panic[where ?'r = 'r]
  by (auto simp: generate_request_def outcome_simps split: option.split)

end

text \<open>Writing moves no byte of the read side.\<close>

definition same_reading_side :: "('s, 'd, 'q) framed \<Rightarrow> ('s, 'd, 'q) framed \<Rightarrow> bool" where
  "same_reading_side fr fr' \<longleftrightarrow> fr_buffer fr' = fr_buffer fr \<and> fr_decoder fr' = fr_decoder fr \<and> fr_aux fr' = fr_aux fr"

lemma fr_write_all_ok:
  assumes "byte_sink tr sent" "fr_write_all tr buf fr = (r :: (('r, 'x) error, unit) res, fr')"
  shows "r \<noteq> Panic \<and> same_reading_side fr fr' \<and> (r = Ok () \<longrightarrow> sent (fr_io fr') = sent (fr_io fr) @ buf)"
proof -
  obtain q io where q: "io_write_all tr buf (fr_io fr) = (q, io)" by (cases "io_write_all tr buf (fr_io fr)")
  then show ?thesis
    using assms(2) byte_sink.write_panic[OF assms(1), of buf "fr_io fr"] byte_sink.write_ok[OF assms(1), of buf "fr_io fr"]
    by (cases q) (auto simp: fr_write_all_def lift_io_def same_reading_side_def)
qed

lemma fr_flush_ok:
  assumes "byte_sink tr sent" "fr_flush tr fr = (r :: (('r, 'x) error, unit) res, fr')"
  shows "r \<noteq> Panic \<and> same_reading_side fr fr' \<and> sent (fr_io fr') = sent (fr_io fr)"
proof -
  obtain q io where q: "io_flush tr (fr_io fr) = (q, io)" by (cases "io_flush tr (fr_io fr)")
  then show ?thesis
    using assms(2) byte_sink.flush_sent[OF assms(1), of "fr_io fr"]
    by (cases q) (auto simp: fr_flush_def lift_io_def same_reading_side_def)
qed

section \<open>The client\<close>

lemma client_accept_ok:
  assumes "http_laws ht" "sz \<le> length (fr_buffer fr)"
    and "client_accept ht vd config g sz resp fr = (r, fr')"
  shows "r \<noteq> Panic \<and> fr_io fr' = fr_io fr
    \<and> (\<forall>ws rsp. r = Ok (ws, rsp) \<longrightarrow> rsp = resp \<and> response_ok ht vd resp \<and> ws = from_framed_read fr' Client config g
         \<and> fr_buffer fr' = drop sz (fr_buffer fr))
    \<and> (rs_status resp \<noteq> 101 \<longrightarrow> r = Err (Http (resp\<lparr>rs_body := Some (drop sz (fr_buffer fr))\<rparr>)))"
proof (cases "verify_response ht vd resp")
  case (Ok q)
  then show ?thesis
    using assms(2,3) http_laws.verify_response_Ok[OF assms(1), of vd resp q]
    by (auto simp: client_accept_def Let_def response_ok_def)
next
  case (Err e)
  show ?thesis
  proof (cases "rs_status resp = 101")
    case True
    then have "\<forall>q. e \<noteq> Http q" using Err http_laws.verify_response_Http[OF assms(1)] by blast
    then have "r = Err e \<and> fr_io fr' = fr_io fr"
      using assms(2,3) Err by (cases e) (simp_all add: client_accept_def Let_def split: prod.splits, auto)
    then show ?thesis using True by simp
  next
    case False
    then have "e = Http resp" using Err http_laws.verify_response_Http[OF assms(1), of vd resp resp] by simp
    then show ?thesis using assms(2,3) Err by (auto simp: client_accept_def Let_def)
  qed
next
  case Panic
  then show ?thesis using http_laws.verify_response_no_panic[OF assms(1)] by blast
qed

text \<open>The answer of the transport, by the decoder of the response.\<close>

lemma response_arrives:
  fixes nx :: "('s, 'q, ('h, 'x) hs_error, nat \<times> 'h client_response) next_op"
  assumes "http_laws ht" "opening_io tr sent nx" "nx (response_decode ht) fr = (res, fr')"
  shows "res \<noteq> Some Panic" "res = Some (Ok (sz, resp)) \<Longrightarrow> sz \<le> length (fr_buffer fr')"
    "sent (fr_io fr') = sent (fr_io fr)"
proof -
  note spec = opening_io.nx_correct[OF assms(2,3)]
  show "res \<noteq> Some Panic"
    using next_spec_no_panic[OF spec] http_laws.response_decode_ok(1)[OF assms(1)] by blast
  show "sz \<le> length (fr_buffer fr')" if "res = Some (Ok (sz, resp))"
    using next_spec_yields[OF spec that] http_laws.response_decode_ok(2)[OF assms(1)] by blast
  show "sent (fr_io fr') = sent (fr_io fr)"
    using opening_io.nx_sent[OF assms(2), of "response_decode ht" fr] assms(3) by simp
qed

lemma client_handshake_ok:
  fixes nx :: "('s, 'q, ('h, 'x) hs_error, nat \<times> 'h client_response) next_op"
  assumes ht: "http_laws ht" and io: "opening_io tr sent nx"
    and run: "client_handshake ht tr nx req config g stream = (r, fr')"
  shows "r \<noteq> Panic \<and> (\<forall>ws resp. r = Ok (ws, resp) \<longrightarrow> request_ok ht req \<and> response_ok ht (expected_response ht req) resp
    \<and> ws = from_framed_read fr' Client config g
    \<and> (\<exists>buf. generate_request ht req = (Ok buf :: (('h, 'x) hs_error, bytes) res) \<and> sent (fr_io fr') = sent stream @ buf))"
proof -
  have sink: "byte_sink tr sent" using io by (simp add: opening_io_def frame_source_def)
  obtain c where c: "client_checks ht req = (c :: (('h, 'x) hs_error, verify_data) res)" by blast
  obtain b where b: "generate_request ht req = (b :: (('h, 'x) hs_error, bytes) res)" by blast
  have nopanic: "c \<noteq> Panic" "b \<noteq> Panic"
    using http_laws.client_checks_no_panic[OF ht, of req, where ?'r = "'h client_response"]
      http_laws.generate_request_no_panic[OF ht, of req, where ?'r = "'h client_response"] c b by simp_all
  show ?thesis
  proof (cases "\<exists>vd buf. c = Ok vd \<and> b = Ok buf")
    case False
    then show ?thesis
      using run nopanic unfolding client_handshake_def c b by (cases c; cases b; auto)
  next
    case True
    then obtain vd buf where ok: "c = Ok vd" "b = Ok buf" by blast
    have vd: "request_ok ht req" "vd = expected_response ht req"
      using http_laws.client_checks_Ok[OF ht] c ok(1) by blast+
    let ?fr0 = "framed_new tr stream ()"
    obtain w fr1 where w: "fr_write_all tr buf ?fr0 = (w :: (('h, 'x) hs_error, unit) res, fr1)" by force
    obtain f fr2 where f: "fr_flush tr fr1 = (f :: (('h, 'x) hs_error, unit) res, fr2)" by force
    obtain n fr3 where n: "nx (response_decode ht) fr2 = (n, fr3)" by force
    note steps = fr_write_all_ok[OF sink w] fr_flush_ok[OF sink f] response_arrives[OF ht io n]
    have step: "client_handshake ht tr nx req config g stream = bind_st (w, fr1) (\<lambda>_ fr1. bind_st (f, fr2) (\<lambda>_ fr2.
        case (n, fr3) of (Some (Ok (sz, resp)), fr) \<Rightarrow> client_accept ht vd config g sz resp fr
         | (Some (Err e), fr) \<Rightarrow> (Err e, fr) | (Some Panic, fr) \<Rightarrow> (Panic, fr)
         | (None, fr) \<Rightarrow> (Err (Protocol HandshakeIncomplete), fr)))"
      unfolding client_handshake_def c b ok by (cases w; cases f) (simp_all add: w f n)
    show ?thesis
    proof (cases "\<exists>sz resp. w = Ok () \<and> f = Ok () \<and> n = Some (Ok (sz, resp))")
      case True
      then obtain sz resp where yes: "w = Ok ()" "f = Ok ()" "n = Some (Ok (sz, resp))" by blast
      then have acc: "client_accept ht vd config g sz resp fr3 = (r, fr')" using run step by simp
      have "sent (fr_io fr3) = sent stream @ buf" using steps yes by (simp add: framed_new_def)
      then show ?thesis
        using client_accept_ok[OF ht steps(4)[OF yes(3)] acc] vd b ok(2) by auto
    next
      case False
      then show ?thesis
        using run step steps(1,2,3) by (cases w; cases f; cases n; cases "the n") auto
    qed
  qed
qed

section \<open>The server\<close>

definition callback_returns :: "('h, 'u) callback \<Rightarrow> bool" where
  "callback_returns cb \<longleftrightarrow> (\<forall>req resp. cb req resp \<noteq> Panic)"

lemma server_accept_ok:
  fixes r :: "(('h, 'x) hs_error, ('s, 'q, 'g) websocket) res"
  assumes "byte_sink tr sent" "server_accept ht tr config g resp fr = (r, fr')"
  shows "r \<noteq> Panic \<and> (\<forall>ws. r = Ok ws \<longrightarrow> ws = from_framed_read fr' Server config g \<and> fr_buffer fr' = []
    \<and> (\<exists>buf. generate_response ht resp = (Ok buf :: (('h, 'x) hs_error, bytes) res) \<and> sent (fr_io fr') = sent (fr_io fr) @ buf))"
proof -
  obtain buf where buf: "generate_response ht resp = (Ok buf :: (('h, 'x) hs_error, bytes) res)"
    by (simp add: generate_response_def)
  obtain w fr1 where w: "fr_write_all tr buf fr = (w :: (('h, 'x) hs_error, unit) res, fr1)" by force
  obtain f fr2 where f: "fr_flush tr fr1 = (f :: (('h, 'x) hs_error, unit) res, fr2)" by force
  show ?thesis
    using assms(2) fr_write_all_ok[OF assms(1) w] fr_flush_ok[OF assms(1) f]
    by (cases w; cases f) (auto simp: server_accept_def buf w f Let_def)
qed

lemma server_refuse_ok:
  fixes r :: "(('h, 'x) hs_error, ('s, 'q, 'g) websocket) res"
  assumes "byte_sink tr sent" "server_refuse ht tr resp fr = (r, fr')"
  shows "r \<noteq> Panic \<and> (\<forall>ws. r \<noteq> Ok ws)"
proof -
  obtain buf where buf: "generate_response ht resp = (Ok buf :: (('h, 'x) hs_error, bytes) res)"
    by (simp add: generate_response_def)
  obtain w fr1 where w: "fr_write_all tr buf fr = (w :: (('h, 'x) hs_error, unit) res, fr1)" by force
  obtain v fr2 where v: "(case rs_body resp of Some body \<Rightarrow> fr_write_all tr body fr1 | None \<Rightarrow> (Ok (), fr1))
      = (v :: (('h, 'x) hs_error, unit) res, fr2)" by force
  obtain f fr3 where f: "fr_flush tr fr2 = (f :: (('h, 'x) hs_error, unit) res, fr3)" by force
  have "v \<noteq> Panic"
    using v fr_write_all_ok[OF assms(1), of "the (rs_body resp)" fr1 v fr2] by (cases "rs_body resp") auto
  then show ?thesis
    using assms(2) fr_write_all_ok[OF assms(1) w] fr_flush_ok[OF assms(1) f]
    by (cases w; cases v; cases f) (auto simp: server_refuse_def buf w v f split: if_splits)
qed

text \<open>The answer to an accepted request, as the callback decides.\<close>

lemma server_decision_ok:
  fixes r :: "(('h, 'x) hs_error, ('s, 'q, 'g) websocket) res"
  assumes sink: "byte_sink tr sent" and cb: "callback_returns cb"
    and run: "(case cb req resp of
          Ok resp' \<Rightarrow> server_accept ht tr config g resp' fr
        | Err resp' \<Rightarrow> server_refuse ht tr resp' fr
        | Panic \<Rightarrow> (Panic, fr)) = (r, fr')"
  shows "r \<noteq> Panic \<and> (\<forall>ws. r = Ok ws \<longrightarrow> ws = from_framed_read fr' Server config g \<and> fr_buffer fr' = []
    \<and> (\<exists>resp' buf. cb req resp = Ok resp'
         \<and> generate_response ht resp' = (Ok buf :: (('h, 'x) hs_error, bytes) res) \<and> sent (fr_io fr') = sent (fr_io fr) @ buf))"
proof (cases "cb req resp")
  case (Ok resp')
  then show ?thesis using server_accept_ok[OF sink, of ht config g resp' fr r fr'] run by simp
next
  case (Err resp')
  then show ?thesis using server_refuse_ok[OF sink, of ht resp' fr r fr'] run by simp
next
  case Panic
  then show ?thesis using cb by (simp add: callback_returns_def)
qed

lemma server_handshake_ok:
  fixes nx :: "('s, 'q, ('h, 'x) hs_error, nat \<times> ('h, 'u) http_request) next_op"
  assumes ht: "http_messages ht" and io: "opening_io tr sent nx" and cb: "callback_returns cb"
    and run: "server_handshake ht tr nx cb stream config g = (r, fr')"
  shows "r \<noteq> Panic \<and> (\<forall>ws. r = Ok ws \<longrightarrow> ws = from_framed_read fr' Server config g \<and> fr_buffer fr' = []
    \<and> (\<exists>req resp resp' buf. upgrade_violation ht req = None \<and> accepting_response ht req resp \<and> cb req resp = Ok resp'
         \<and> generate_response ht resp' = (Ok buf :: (('h, 'x) hs_error, bytes) res) \<and> sent (fr_io fr') = sent stream @ buf))"
proof -
  have sink: "byte_sink tr sent" using io by (simp add: opening_io_def frame_source_def)
  obtain n fr1 where n: "nx (request_decode ht) (framed_new tr stream ()) = (n, fr1)" by force
  have laws: "http_laws ht" using ht by (rule http_messages.axioms(1))
  have np: "n \<noteq> Some Panic"
    using next_spec_no_panic[OF opening_io.nx_correct[OF io n]] http_laws.request_decode_ok[OF laws] by blast
  have s1: "sent (fr_io fr1) = sent stream"
    using opening_io.nx_sent[OF io, of "request_decode ht" "framed_new tr stream ()"] n by (simp add: framed_new_def)
  show ?thesis
  proof (cases "\<exists>sz req. n = Some (Ok (sz, req)) \<and> length (fr_buffer fr1) = sz")
    case False
    then show ?thesis
      using run np by (cases n; cases "the n") (auto simp: server_handshake_def n)
  next
    case True
    then obtain req where req: "n = Some (Ok (length (fr_buffer fr1), req))" by blast
    obtain q where q: "create_response ht req = (q :: (('h, 'x) hs_error, 'h server_response) res)" by blast
    have run': "bind_st (q, fr1) (\<lambda>resp fr. case cb req resp of
              Ok resp' \<Rightarrow> server_accept ht tr config g resp' fr
            | Err resp' \<Rightarrow> server_refuse ht tr resp' fr
            | Panic \<Rightarrow> (Panic, fr)) = (r, fr')"
      using run by (simp add: server_handshake_def n req q)
    show ?thesis
    proof (cases "upgrade_violation ht req")
      case (Some e)
      then show ?thesis
        using run' q http_messages.create_response_cases[OF ht, of req, where ?'r = "'h client_response"] by auto
    next
      case None
      then obtain resp where resp: "q = Ok resp" "accepting_response ht req resp"
        using q http_messages.create_response_cases[OF ht, of req, where ?'r = "'h client_response"] by auto
      have "(case cb req resp of Ok resp' \<Rightarrow> server_accept ht tr config g resp' fr1
          | Err resp' \<Rightarrow> server_refuse ht tr resp' fr1 | Panic \<Rightarrow> (Panic, fr1)) = (r, fr')"
        using run' resp(1) by simp
      from server_decision_ok[OF sink cb this] show ?thesis using None resp(2) s1 by metis
    qed
  qed
qed

section \<open>A message head over the in-memory transport\<close>

text \<open>
  A decoder that waits for a whole head and does not take it off the buffer: the head is
  yielded as soon as it is there, and no byte is lost.
\<close>

lemma mem_drive_head:
  assumes partial: "\<And>j. j < length msg \<Longrightarrow> dec () (take j msg) = (Ok Insufficient, (), take j msg)"
    and full: "\<And>rest. dec () (msg @ rest) = (Ok (Decoded x), (), msg @ rest)"
    and "b @ concat cs = msg @ tail"
  shows "\<exists>b' cs'. mem_drive dec () b cs = (Some (Ok x), (), b', cs') \<and> b' @ concat cs' = msg @ tail
    \<and> length msg \<le> length b'"
  using assms(3)
proof (induction cs arbitrary: b)
  case Nil
  then show ?case using full[of tail] by (subst mem_drive.simps) simp
next
  case (Cons c cs)
  show ?case
  proof (cases "length b < length msg")
    case True
    have "take (length b) (b @ concat (c # cs)) = take (length b) (msg @ tail)"
      using Cons.prems by (rule arg_cong)
    then have "b = take (length b) msg" using True by simp
    then have "dec () b = (Ok Insufficient, (), b)" using partial[OF True] by simp
    then have "mem_drive dec () b (c # cs) = mem_drive dec () (b @ c) cs" by (subst mem_drive.simps) simp
    then show ?thesis using Cons.IH[of "b @ c"] Cons.prems by simp
  next
    case False
    then obtain r where r: "b = msg @ r"
      using Cons.prems by (metis append_eq_append_conv_if append_take_drop_id linorder_not_less)
    then have "dec () b = (Ok (Decoded x), (), b)" using full by simp
    then have "mem_drive dec () b (c # cs) = (Some (Ok x), (), b, c # cs)" by (subst mem_drive.simps) simp
    then show ?thesis using Cons.prems r by auto
  qed
qed

text \<open>When the head ends with a piece, the pieces behind it stay where they are.\<close>

lemma mem_drive_exact:
  assumes partial: "\<And>j. j < length msg \<Longrightarrow> dec () (take j msg) = (Ok Insufficient, (), take j msg)"
    and full: "dec () msg = (Ok (Decoded x), (), msg)"
    and "b @ concat cs = msg"
  shows "\<exists>cs'. mem_drive dec () b (cs @ later) = (Some (Ok x), (), msg, cs' @ later) \<and> concat cs' = []"
  using assms(3)
proof (induction cs arbitrary: b)
  case Nil
  then show ?case using full by (intro exI[of _ "[]"]) (subst mem_drive.simps, simp)
next
  case (Cons c cs)
  show ?case
  proof (cases "length b < length msg")
    case True
    moreover have "b = take (length b) msg" using Cons.prems by (metis append_eq_conv_conj)
    ultimately have "dec () b = (Ok Insufficient, (), b)" using partial by metis
    then have "mem_drive dec () b ((c # cs) @ later) = mem_drive dec () (b @ c) (cs @ later)" by (subst mem_drive.simps) simp
    then show ?thesis using Cons.IH[of "b @ c"] Cons.prems by simp
  next
    case False
    moreover have "length b + length (concat (c # cs)) = length msg" using arg_cong[OF Cons.prems, of length] by simp
    ultimately have "length (concat (c # cs)) = 0" by linarith
    then have "concat (c # cs) = []" by (rule length_0_conv[THEN iffD1])
    moreover from this have "b = msg" using Cons.prems by (metis append_Nil2)
    moreover have "mem_drive dec () msg ((c # cs) @ later) = (Some (Ok x), (), msg, (c # cs) @ later)"
      by (subst mem_drive.simps) (simp add: full)
    ultimately show ?thesis by blast
  qed
qed

lemma mem_next_head:
  assumes "\<And>j. j < length msg \<Longrightarrow> dec () (take j msg) = (Ok Insufficient, (), take j msg)"
    and "\<And>rest. dec () (msg @ rest) = (Ok (Decoded x), (), msg @ rest)"
    and "fr_buffer fr @ concat (mem_in (fr_io fr)) = msg @ tail" "fr_decoder fr = ()"
  shows "\<exists>fr'. mem_next dec fr = (Some (Ok x), fr') \<and> mem_out (fr_io fr') = mem_out (fr_io fr)
    \<and> fr_buffer fr' @ concat (mem_in (fr_io fr')) = msg @ tail \<and> length msg \<le> length (fr_buffer fr')"
proof -
  obtain b' cs' where d: "mem_drive dec () (fr_buffer fr) (mem_in (fr_io fr)) = (Some (Ok x), (), b', cs')"
    "b' @ concat cs' = msg @ tail" "length msg \<le> length b'"
    using mem_drive_head[where msg = msg and dec = dec, OF assms(1,2,3)] by blast
  then show ?thesis by (simp add: mem_next_def assms(4))
qed

context http_messages
begin

lemma response_decode_status:
  assumes code: "100 \<le> code" "code \<le> 999" and fs: "\<forall>f \<in> set fs. field_ok f" "length fs \<le> max_headers"
  shows "\<exists>h. (headers_from_httparse ht fs :: (('r, 'x) error, 'h) res) = Ok h
    \<and> (\<forall>j < length (response_text (ht_show_status ht code) fs).
         response_decode ht () (take j (response_text (ht_show_status ht code) fs))
           = (Ok Insufficient :: (('r, 'x) error, _) res, (), take j (response_text (ht_show_status ht code) fs)))
    \<and> (\<forall>rest. response_decode ht () (response_text (ht_show_status ht code) fs @ rest)
           = (Ok (Decoded (length (response_text (ht_show_status ht code) fs),
                 \<lparr>rs_status = code, rs_version = HTTP_11, rs_headers = h, rs_body = None\<rparr>)) :: (('r, 'x) error, _) res,
              (), response_text (ht_show_status ht code) fs @ rest))"
proof -
  obtain h where h: "(headers_from_httparse ht fs :: (('r, 'x) error, 'h) res) = Ok h"
    using append_headers_ok[OF fs(1), of "hm_empty ht", where ?'r = 'r] by (auto simp: headers_from_httparse_def)
  then show ?thesis
    using response_parsed[OF code fs] response_partial[OF code fs] status_range[OF code]
    by (simp add: response_decode_def response_from_httparse_def)
qed

lemmas response_decode_text = response_decode_status[where code = 101, simplified]

lemma request_decode_text:
  assumes fs: "\<forall>f \<in> set fs. field_ok f" "length fs \<le> max_headers" and t: "target_ok t" "uri_parse ht t = Ok u"
  shows "\<exists>h. (headers_from_httparse ht fs :: (('r, 'x) error, 'h) res) = Ok h
    \<and> (\<forall>j < length (request_text t fs). request_decode ht () (take j (request_text t fs))
           = (Ok Insufficient :: (('r, 'x) error, _) res, (), take j (request_text t fs)))
    \<and> (\<forall>rest. request_decode ht () (request_text t fs @ rest)
           = (Ok (Decoded (length (request_text t fs),
                 \<lparr>rq_method = ascii ''GET'', rq_uri = u, rq_version = HTTP_11, rq_headers = h\<rparr>)) :: (('r, 'x) error, _) res,
              (), request_text t fs @ rest))"
proof -
  obtain h where h: "(headers_from_httparse ht fs :: (('r, 'x) error, 'h) res) = Ok h"
    using append_headers_ok[OF fs(1), of "hm_empty ht", where ?'r = 'r] by (auto simp: headers_from_httparse_def)
  then show ?thesis
    using request_parsed[OF t(1) fs] request_partial[OF t(1) fs] t(2)
    by (simp add: request_decode_def request_from_httparse_def)
qed

end

section \<open>The two sides\<close>

definition mem_stream :: "bytes list \<Rightarrow> mem_io" where
  "mem_stream chunks = \<lparr>mem_in = chunks, mem_out = []\<rparr>"

text \<open>The fields of the response to a request with the key \<open>k\<close>.\<close>

definition accept_fields :: "('h, 'u, 'x) http \<Rightarrow> bytes \<Rightarrow> raw_headers" where
  "accept_fields ht k = [(ascii ''connection'', ascii ''Upgrade''), (ascii ''upgrade'', ascii ''websocket''),
     (ascii ''sec-websocket-accept'', derive_accept_key ht k)]"

definition asks_upgrade :: "(bytes \<Rightarrow> bytes option) \<Rightarrow> bool" where
  "asks_upgrade get \<longleftrightarrow> (\<exists>v. get (ascii ''Connection'') = Some v \<and> visible v \<and> wants_upgrade v)
     \<and> (\<exists>v. get (ascii ''Upgrade'') = Some v \<and> visible v \<and> lower v = ascii ''websocket'')
     \<and> get (ascii ''Sec-WebSocket-Version'') = Some (ascii ''13'')"

lemma fr_mem_write: "fr_write_all mem_transport buf fr
    = (Ok () :: (('r, 'x) error, unit) res, fr\<lparr>fr_io := (fr_io fr)\<lparr>mem_out := mem_out (fr_io fr) @ buf\<rparr>\<rparr>)"
  "fr_flush mem_transport fr = (Ok () :: (('r, 'x) error, unit) res, fr)"
  by (simp_all add: fr_write_all_def fr_flush_def mem_transport_def lift_io_def)

context http_messages
begin

lemma accept_fields_ok:
  assumes "mset es = mset (accept_fields ht k)"
  shows "\<forall>f \<in> set es. field_ok f" "length es \<le> max_headers"
    "first_value n es = (if lower n = ascii ''connection'' then Some (ascii ''Upgrade'')
       else if lower n = ascii ''upgrade'' then Some (ascii ''websocket'')
       else if lower n = ascii ''sec-websocket-accept'' then Some (derive_accept_key ht k) else None)"
proof -
  let ?as = "accept_fields ht k"
  have set: "set es = set ?as" and len: "length es = length ?as"
    using assms by (metis set_mset_mset, metis size_mset)
  have last: "derive_accept_key ht k \<noteq> []" "\<not> is_ascii_space (hd (derive_accept_key ht k))"
    "\<not> is_ascii_space (last (derive_accept_key ht k))"
    using accept_key_visible(2,3) by (auto intro: hd_in_set last_in_set)
  have "\<forall>f \<in> set ?as. field_ok f"
    using last accept_key_visible(1) visible_literals
    by (simp add: accept_fields_def field_ok_def token_def token_char_def ascii_def is_ascii_space_def)
  then show "\<forall>f \<in> set es. field_ok f" using set by simp
  show "length es \<le> max_headers" using len by (simp add: accept_fields_def max_headers_def)
  have low: "lower (ascii ''connection'') = ascii ''connection''" "lower (ascii ''upgrade'') = ascii ''upgrade''"
    "lower (ascii ''sec-websocket-accept'') = ascii ''sec-websocket-accept''"
    using response_names(4-6) lower_idem by metis+
  have "map (\<lambda>(m, v). (lower m, v)) es = es"
    using set low by (intro map_idI) (auto simp: accept_fields_def)
  moreover have "distinct (map fst ?as)" by (simp add: accept_fields_def)
  moreover have "mset (map fst es) = mset (map fst ?as)" using assms by simp
  ultimately have "map_of es = map_of ?as" "first_value n es = map_of es (lower n)"
    using set map_of_inject_set[of es ?as] mset_eq_imp_distinct_iff by (auto simp: first_value_def simp del: mset_map)
  then show "first_value n es = (if lower n = ascii ''connection'' then Some (ascii ''Upgrade'')
       else if lower n = ascii ''upgrade'' then Some (ascii ''websocket'')
       else if lower n = ascii ''sec-websocket-accept'' then Some (derive_accept_key ht k) else None)"
    by (auto simp: accept_fields_def)
qed

lemma request_arrives:
  assumes chunks: "concat chunks = request_text t fs"
    and fs: "\<forall>f \<in> set fs. field_ok f" "length fs \<le> max_headers" and t: "target_ok t" "uri_parse ht t = Ok u"
  shows "\<exists>h fr. (headers_from_httparse ht fs :: (('h, 'x) hs_error, 'h) res) = Ok h
    \<and> mem_next (request_decode ht :: (unit, ('h, 'x) hs_error, _) decoding)
        (framed_new (mem_transport :: (mem_io, unit, ('h, 'x) hs_error) transport) (mem_stream (chunks @ later)) ())
      = (Some (Ok (length (fr_buffer fr), \<lparr>rq_method = ascii ''GET'', rq_uri = u, rq_version = HTTP_11, rq_headers = h\<rparr>)), fr)
    \<and> mem_out (fr_io fr) = [] \<and> concat (mem_in (fr_io fr)) = concat later"
proof -
  let ?msg = "request_text t fs"
  obtain h where h: "(headers_from_httparse ht fs :: (('h, 'x) hs_error, 'h) res) = Ok h"
    and partial: "\<And>j. j < length ?msg \<Longrightarrow> request_decode ht () (take j ?msg) = (Ok Insufficient :: (('h, 'x) hs_error, _) res, (), take j ?msg)"
    and full: "\<And>rest. request_decode ht () (?msg @ rest)
           = (Ok (Decoded (length ?msg, \<lparr>rq_method = ascii ''GET'', rq_uri = u, rq_version = HTTP_11, rq_headers = h\<rparr>)) :: (('h, 'x) hs_error, _) res,
              (), ?msg @ rest)"
    using request_decode_text[OF fs t, where ?'r = "'h client_response"] by blast
  from mem_drive_exact[where dec = "request_decode ht :: (unit, ('h, 'x) hs_error, _) decoding" and msg = ?msg and b = "[]" and cs = chunks
      and later = later, OF partial full[of "[]", simplified]] chunks
  show ?thesis using h by (auto simp: mem_next_def framed_new_def mem_stream_def mem_transport_def)
qed

text \<open>A server that answers as its callback decides; \<open>es\<close> are the fields of the response.\<close>

lemma server_answers_first:
  assumes chunks: "concat chunks = request_text t fs"
    and fs: "\<forall>f \<in> set fs. field_ok f" "length fs \<le> max_headers" and t: "target_ok t" "uri_parse ht t = Ok u"
    and asks: "asks_upgrade (\<lambda>n. first_value n fs)" and key: "first_value key_headername fs = Some k"
  shows "\<exists>req resp es fr0. mset es = mset (accept_fields ht k) \<and> accepting_response ht req resp
    \<and> hm_entries ht (rs_headers resp) = es \<and> rs_version resp = HTTP_11
    \<and> mem_out (fr_io fr0) = [] \<and> concat (mem_in (fr_io fr0)) = concat later
    \<and> (\<forall>cb :: ('h, 'u) callback. server_handshake ht (mem_transport :: (mem_io, unit, ('h, 'x) hs_error) transport) mem_next cb
          (mem_stream (chunks @ later)) config g
        = (case cb req resp of Ok resp' \<Rightarrow> server_accept ht (mem_transport :: (mem_io, unit, ('h, 'x) hs_error) transport) config g resp' fr0
          | Err resp' \<Rightarrow> server_refuse ht (mem_transport :: (mem_io, unit, ('h, 'x) hs_error) transport) resp' fr0 | Panic \<Rightarrow> (Panic, fr0)))"
proof -
  let ?tr = "mem_transport :: (mem_io, unit, ('h, 'x) hs_error) transport"
  obtain h fr where h: "(headers_from_httparse ht fs :: (('h, 'x) hs_error, 'h) res) = Ok h"
    and n: "mem_next (request_decode ht :: (unit, ('h, 'x) hs_error, _) decoding) (framed_new ?tr (mem_stream (chunks @ later)) ())
      = (Some (Ok (length (fr_buffer fr), \<lparr>rq_method = ascii ''GET'', rq_uri = u, rq_version = HTTP_11, rq_headers = h\<rparr>)), fr)"
    and fr: "mem_out (fr_io fr) = []" "concat (mem_in (fr_io fr)) = concat later"
    using request_arrives[OF chunks fs t] by blast
  let ?req = "\<lparr>rq_method = ascii ''GET'', rq_uri = u, rq_version = HTTP_11, rq_headers = h\<rparr>"
  have get: "hm_get ht n h = first_value n fs" for n by (rule headers_from_httparse_get[OF h])
  have "upgrade_violation ht ?req = None"
    using asks key by (auto simp: upgrade_violation_def asks_upgrade_def get key_headername_def Let_def)
  then obtain resp where resp: "(create_response ht ?req :: (('h, 'x) hs_error, 'h server_response) res) = Ok resp"
    "accepting_response ht ?req resp"
    using create_response_cases[of ?req, where ?'r = "'h client_response"] by auto
  have "mset (hm_entries ht (rs_headers resp)) = mset (accept_fields ht k)" "rs_version resp = HTTP_11"
    using resp(2) key get by (simp_all add: accepting_response_def accept_fields_def key_headername_def add_mset_commute)
  then show ?thesis
    using fr resp by (intro exI[of _ ?req] exI[of _ resp] exI[of _ "hm_entries ht (rs_headers resp)"] exI[of _ fr])
      (simp add: server_handshake_def n)
qed

lemma server_answers_then:
  assumes chunks: "concat chunks = request_text t fs"
    and fs: "\<forall>f \<in> set fs. field_ok f" "length fs \<le> max_headers" and t: "target_ok t" "uri_parse ht t = Ok u"
    and asks: "asks_upgrade (\<lambda>n. first_value n fs)" and key: "first_value key_headername fs = Some k"
  shows "\<exists>fr es. server_handshake ht (mem_transport :: (mem_io, unit, ('h, 'x) hs_error) transport) mem_next no_callback
        (mem_stream (chunks @ later)) config g
      = (Ok (from_framed_read fr Server config g) :: (('h, 'x) hs_error, (mem_io, unit, 'g) websocket) res, fr)
    \<and> fr_buffer fr = [] \<and> concat (mem_in (fr_io fr)) = concat later
    \<and> mset es = mset (accept_fields ht k) \<and> mem_out (fr_io fr) = response_text (ht_show_status ht 101) es"
proof -
  obtain req resp es fr0 where es: "mset es = mset (accept_fields ht k)" "accepting_response ht req resp"
    "hm_entries ht (rs_headers resp) = es" "rs_version resp = HTTP_11"
    and fr0: "mem_out (fr_io fr0) = []" "concat (mem_in (fr_io fr0)) = concat later"
    and run: "\<And>cb :: ('h, 'u) callback. server_handshake ht (mem_transport :: (mem_io, unit, ('h, 'x) hs_error) transport) mem_next cb
          (mem_stream (chunks @ later)) config g
        = (case cb req resp of Ok resp' \<Rightarrow> server_accept ht (mem_transport :: (mem_io, unit, ('h, 'x) hs_error) transport) config g resp' fr0
          | Err resp' \<Rightarrow> server_refuse ht (mem_transport :: (mem_io, unit, ('h, 'x) hs_error) transport) resp' fr0 | Panic \<Rightarrow> (Panic, fr0))"
    using server_answers_first[OF assms, of later config g] by blast
  have "(generate_response ht resp :: (('h, 'x) hs_error, bytes) res) = Ok (response_text (ht_show_status ht 101) es)"
    using es show_version by (simp add: generate_response_def accepting_response_def response_text_def fields_text_def ascii_def)
  then show ?thesis
    using es(1) fr0 by (simp add: run no_callback_def server_accept_def fr_mem_write Let_def) blast
qed

lemmas server_answers = server_answers_then[where later = "[]", unfolded append_Nil2 concat.simps(1)]

text \<open>The client against a response with these fields, and more bytes behind it.\<close>

lemma client_completes:
  assumes req: "request_ok ht req" "hm_get ht (ascii ''Sec-WebSocket-Protocol'') (rq_headers req) = None"
    and key: "hm_get ht key_headername (rq_headers req) = Some k"
    and buf: "(generate_request ht req :: (('h, 'x) hs_error, bytes) res) = Ok buf"
    and es: "mset es = mset (accept_fields ht k)"
    and chunks: "concat chunks = response_text (ht_show_status ht 101) es @ tail"
  shows "\<exists>fr resp. client_handshake ht (mem_transport :: (mem_io, unit, ('h, 'x) hs_error) transport) mem_next req config g (mem_stream chunks)
      = (Ok (from_framed_read fr Client config g, resp) :: (('h, 'x) hs_error, (mem_io, unit, 'g) websocket \<times> 'h client_response) res, fr)
    \<and> mem_out (fr_io fr) = buf \<and> fr_buffer fr @ concat (mem_in (fr_io fr)) = tail"
proof -
  let ?tr = "mem_transport :: (mem_io, unit, ('h, 'x) hs_error) transport"
  let ?msg = "response_text (ht_show_status ht 101) es"
  note fields = accept_fields_ok[OF es]
  obtain h where h: "(headers_from_httparse ht es :: (('h, 'x) hs_error, 'h) res) = Ok h"
    and partial: "\<And>j. j < length ?msg \<Longrightarrow> response_decode ht () (take j ?msg)
           = (Ok Insufficient :: (('h, 'x) hs_error, _) res, (), take j ?msg)"
    and full: "\<And>rest. response_decode ht () (?msg @ rest)
           = (Ok (Decoded (length ?msg, \<lparr>rs_status = 101, rs_version = HTTP_11, rs_headers = h, rs_body = None\<rparr>)) :: (('h, 'x) hs_error, _) res,
              (), ?msg @ rest)"
    using response_decode_text[OF fields(1,2), where ?'r = "'h client_response"] by blast
  let ?resp = "\<lparr>rs_status = 101, rs_version = HTTP_11, rs_headers = h, rs_body = None\<rparr>"
  let ?fr0 = "framed_new ?tr (mem_stream chunks) ()"
  let ?fr1 = "?fr0\<lparr>fr_io := (fr_io ?fr0)\<lparr>mem_out := buf\<rparr>\<rparr>"
  have "fr_buffer ?fr1 @ concat (mem_in (fr_io ?fr1)) = ?msg @ tail"
    using chunks by (simp add: framed_new_def mem_stream_def)
  from mem_next_head[where dec = "response_decode ht :: (unit, ('h, 'x) hs_error, _) decoding" and msg = ?msg, OF partial full this]
  obtain fr2 where n: "mem_next (response_decode ht :: (unit, ('h, 'x) hs_error, _) decoding) ?fr1 = (Some (Ok (length ?msg, ?resp)), fr2)"
      and fr2: "mem_out (fr_io fr2) = buf" "fr_buffer fr2 @ concat (mem_in (fr_io fr2)) = ?msg @ tail"
        "length ?msg \<le> length (fr_buffer fr2)"
    by (auto simp: framed_new_def mem_stream_def)
  have left: "drop (length ?msg) (fr_buffer fr2) @ concat (mem_in (fr_io fr2)) = tail"
    using arg_cong[OF fr2(2), of "drop (length ?msg)"] fr2(3) by simp
  have get: "hm_get ht n h = first_value n es" for n by (rule headers_from_httparse_get[OF h])
  have "response_ok ht (expected_response ht req) ?resp"
    using req(2) key visible_literals response_names(4-7)
    by (simp add: response_ok_def header_is_def expected_response_def get fields(3) subprotocol_ok_def key_headername_def)
      (simp add: lower_def ascii_def to_lower_def)
  then have ver: "verify_response ht (expected_response ht req) ?resp = Ok ?resp" by (simp add: verify_response_Ok)
  have chk: "(client_checks ht req :: (('h, 'x) hs_error, verify_data) res) = Ok (expected_response ht req)"
    using req(1) by (simp add: client_checks_Ok)
  have w: "fr_write_all ?tr buf ?fr0 = (Ok () :: (('h, 'x) hs_error, unit) res, ?fr1)"
    by (simp add: fr_mem_write framed_new_def mem_stream_def)
  have f: "fr_flush ?tr ?fr1 = (Ok () :: (('h, 'x) hs_error, unit) res, ?fr1)" by (rule fr_mem_write(2))
  show ?thesis
    using fr2(1,3) left
    by (simp add: client_handshake_def chk buf w f n client_accept_def ver Let_def)
qed

end

end
