(* ===== verification/Client_Connect.thy ===== *)
theory Client_Connect
  imports Client_Handshake Server_Handshake
begin

text \<open>
  Connecting as a client, from \<open>src/client.rs\<close>, \<open>src/stream.rs\<close> and \<open>src/tls.rs\<close> with its
  submodules: the request for what the user gives, the request builder, the stream that may
  be protected by TLS, and the entry points. TCP and the TLS crates are parameters; the
  cargo features the code is compiled with are flags.
\<close>

section \<open>Requests\<close>

text \<open>What follows the user information of an authority.\<close>

fun after_at :: "bytes \<Rightarrow> bytes option" where
  "after_at [] = None"
| "after_at (b # bs) = (if b = 64 then Some bs else after_at bs)"

definition authority_host :: "bytes \<Rightarrow> bytes" where
  "authority_host a = (case after_at a of Some h \<Rightarrow> h | None \<Rightarrow> a)"

definition client_headers :: "('h, 'u, 'x) http \<Rightarrow> bytes \<Rightarrow> bytes \<Rightarrow> (bytes \<times> bytes) list" where
  "client_headers ht r host = [(ascii ''Host'', host), (ascii ''Connection'', ascii ''Upgrade''),
     (ascii ''Upgrade'', ascii ''websocket''), (ascii ''Sec-WebSocket-Version'', ascii ''13''),
     (ascii ''Sec-WebSocket-Key'', generate_key ht r)]"

definition request_of_uri :: "('h, 'u, 'x) http \<Rightarrow> bytes \<Rightarrow> 'u \<Rightarrow> (('r, 'x) error, ('h, 'u) http_request) res" where
  "request_of_uri ht r u = (case uri_authority ht u of
     None \<Rightarrow> Err (Url NoHostName)
   | Some a \<Rightarrow>
       let host = authority_host a in
       if host = [] then Err (Url EmptyHostName)
       else bind_res (http_question (build_headers ht (client_headers ht r host) (hm_empty ht))) (\<lambda>h.
         Ok \<lparr>rq_method = ascii ''GET'', rq_uri = u, rq_version = HTTP_11, rq_headers = h\<rparr>))"

definition request_of_str :: "('h, 'u, 'x) http \<Rightarrow> bytes \<Rightarrow> bytes \<Rightarrow> (('r, 'x) error, ('h, 'u) http_request) res" where
  "request_of_str ht r s = bind_res (http_question (uri_parse ht s)) (\<lambda>u. request_of_uri ht r u)"

text \<open>\<open>String\<close>, \<open>&String\<close> and \<open>&Uri\<close>; and with the feature \<open>url\<close> a URL, by its text.\<close>

definition request_of_string_ref :: "('h, 'u, 'x) http \<Rightarrow> bytes \<Rightarrow> bytes \<Rightarrow> (('r, 'x) error, ('h, 'u) http_request) res" where
  "request_of_string_ref ht r s = request_of_str ht r s"

definition request_of_string :: "('h, 'u, 'x) http \<Rightarrow> bytes \<Rightarrow> bytes \<Rightarrow> (('r, 'x) error, ('h, 'u) http_request) res" where
  "request_of_string ht r s = request_of_str ht r s"

definition request_of_uri_ref :: "('h, 'u, 'x) http \<Rightarrow> bytes \<Rightarrow> 'u \<Rightarrow> (('r, 'x) error, ('h, 'u) http_request) res" where
  "request_of_uri_ref ht r u = request_of_uri ht r u"

definition request_of_url_ref ::
  "('url \<Rightarrow> bytes) \<Rightarrow> ('h, 'u, 'x) http \<Rightarrow> bytes \<Rightarrow> 'url \<Rightarrow> (('r, 'x) error, ('h, 'u) http_request) res" where
  "request_of_url_ref url_as_str ht r u = request_of_str ht r (url_as_str u)"

definition request_of_url ::
  "('url \<Rightarrow> bytes) \<Rightarrow> ('h, 'u, 'x) http \<Rightarrow> bytes \<Rightarrow> 'url \<Rightarrow> (('r, 'x) error, ('h, 'u) http_request) res" where
  "request_of_url url_as_str ht r u = request_of_str ht r (url_as_str u)"

record 'u client_request_builder =
  crb_uri :: 'u
  crb_headers :: "(bytes \<times> bytes) list"
  crb_subprotocols :: "bytes list"

definition builder_new :: "'u \<Rightarrow> 'u client_request_builder" where
  "builder_new u = \<lparr>crb_uri = u, crb_headers = [], crb_subprotocols = []\<rparr>"

definition builder_with_header :: "bytes \<Rightarrow> bytes \<Rightarrow> 'u client_request_builder \<Rightarrow> 'u client_request_builder" where
  "builder_with_header k v b = b\<lparr>crb_headers := crb_headers b @ [(k, v)]\<rparr>"

definition builder_with_sub_protocol :: "bytes \<Rightarrow> 'u client_request_builder \<Rightarrow> 'u client_request_builder" where
  "builder_with_sub_protocol p b = b\<lparr>crb_subprotocols := crb_subprotocols b @ [p]\<rparr>"

fun append_custom :: "('h, 'u, 'x) http \<Rightarrow> (bytes \<times> bytes) list \<Rightarrow> 'h \<Rightarrow> (('r, 'x) error, 'h) res" where
  "append_custom ht [] h = Ok h"
| "append_custom ht ((k, v) # fs) h =
     bind_res (http_question (ht_header_name ht k)) (\<lambda>key.
     bind_res (http_question (ht_parse_value ht v)) (\<lambda>val. append_custom ht fs (hm_append ht key val h)))"

definition request_of_builder ::
  "('h, 'u, 'x) http \<Rightarrow> bytes \<Rightarrow> 'u client_request_builder \<Rightarrow> (('r, 'x) error, ('h, 'u) http_request) res" where
  "request_of_builder ht r b =
     bind_res (request_of_uri ht r (crb_uri b)) (\<lambda>req.
     bind_res (append_custom ht (crb_headers b) (rq_headers req)) (\<lambda>h.
       if crb_subprotocols b = [] then Ok (req\<lparr>rq_headers := h\<rparr>)
       else bind_res (http_question (ht_parse_value ht (join_with (ascii '', '') (crb_subprotocols b)))) (\<lambda>protocols.
         Ok (req\<lparr>rq_headers := hm_append ht (ascii ''Sec-WebSocket-Protocol'') protocols h\<rparr>))))"

text \<open>\<open>IntoClientRequest\<close>, by the types that implement it; a URL goes through its text.\<close>

datatype ('h, 'u) request_source =
    From_Str bytes
  | From_String_Ref bytes
  | From_String bytes
  | From_Uri_Ref 'u
  | From_Uri 'u
  | From_Request "('h, 'u) http_request"
  | From_Httparse raw_request
  | From_Builder "'u client_request_builder"

fun into_client_request ::
  "('h, 'u, 'x) http \<Rightarrow> bytes \<Rightarrow> ('h, 'u) request_source \<Rightarrow> (('r, 'x) error, ('h, 'u) http_request) res" where
  "into_client_request ht r (From_Str s) = request_of_str ht r s"
| "into_client_request ht r (From_String_Ref s) = request_of_string_ref ht r s"
| "into_client_request ht r (From_String s) = request_of_string ht r s"
| "into_client_request ht r (From_Uri_Ref u) = request_of_uri_ref ht r u"
| "into_client_request ht r (From_Uri u) = request_of_uri ht r u"
| "into_client_request ht r (From_Request req) = Ok req"
| "into_client_request ht r (From_Httparse raw) = request_from_httparse ht raw"
| "into_client_request ht r (From_Builder b) = request_of_builder ht r b"

section \<open>Streams\<close>

text \<open>The I/O operations of a stream: a buffer goes in and comes back with the result.\<close>

record 's rent_io =
  ri_read :: "bytes \<Rightarrow> 's \<Rightarrow> ((io_error, usize) res \<times> bytes) \<times> 's"
  ri_readv :: "bytes list \<Rightarrow> 's \<Rightarrow> ((io_error, usize) res \<times> bytes list) \<times> 's"
  ri_write :: "bytes \<Rightarrow> 's \<Rightarrow> ((io_error, usize) res \<times> bytes) \<times> 's"
  ri_writev :: "bytes list \<Rightarrow> 's \<Rightarrow> ((io_error, usize) res \<times> bytes list) \<times> 's"
  ri_flush :: "'s \<Rightarrow> (io_error, unit) res \<times> 's"
  ri_shutdown :: "'s \<Rightarrow> (io_error, unit) res \<times> 's"

datatype ('s, 'n, 't) maybe_tls_stream = Plain_Stream 's | Native_Tls_Stream 'n | Rustls_Stream 't

text \<open>An operation on the stream that is there.\<close>

fun on_inner ::
  "('s \<Rightarrow> 'a \<times> 's) \<Rightarrow> ('n \<Rightarrow> 'a \<times> 'n) \<Rightarrow> ('t \<Rightarrow> 'a \<times> 't) \<Rightarrow> ('s, 'n, 't) maybe_tls_stream \<Rightarrow> 'a \<times> ('s, 'n, 't) maybe_tls_stream" where
  "on_inner f g k (Plain_Stream s) = (case f s of (a, s') \<Rightarrow> (a, Plain_Stream s'))"
| "on_inner f g k (Native_Tls_Stream s) = (case g s of (a, s') \<Rightarrow> (a, Native_Tls_Stream s'))"
| "on_inner f g k (Rustls_Stream s) = (case k s of (a, s') \<Rightarrow> (a, Rustls_Stream s'))"

definition maybe_tls_read ::
  "'s rent_io \<Rightarrow> 'n rent_io \<Rightarrow> 't rent_io \<Rightarrow> bytes \<Rightarrow> ('s, 'n, 't) maybe_tls_stream
     \<Rightarrow> ((io_error, usize) res \<times> bytes) \<times> ('s, 'n, 't) maybe_tls_stream" where
  "maybe_tls_read p n t buf = on_inner (ri_read p buf) (ri_read n buf) (ri_read t buf)"

definition maybe_tls_readv ::
  "'s rent_io \<Rightarrow> 'n rent_io \<Rightarrow> 't rent_io \<Rightarrow> bytes list \<Rightarrow> ('s, 'n, 't) maybe_tls_stream
     \<Rightarrow> ((io_error, usize) res \<times> bytes list) \<times> ('s, 'n, 't) maybe_tls_stream" where
  "maybe_tls_readv p n t buf = on_inner (ri_readv p buf) (ri_readv n buf) (ri_readv t buf)"

definition maybe_tls_write ::
  "'s rent_io \<Rightarrow> 'n rent_io \<Rightarrow> 't rent_io \<Rightarrow> bytes \<Rightarrow> ('s, 'n, 't) maybe_tls_stream
     \<Rightarrow> ((io_error, usize) res \<times> bytes) \<times> ('s, 'n, 't) maybe_tls_stream" where
  "maybe_tls_write p n t buf = on_inner (ri_write p buf) (ri_write n buf) (ri_write t buf)"

definition maybe_tls_writev ::
  "'s rent_io \<Rightarrow> 'n rent_io \<Rightarrow> 't rent_io \<Rightarrow> bytes list \<Rightarrow> ('s, 'n, 't) maybe_tls_stream
     \<Rightarrow> ((io_error, usize) res \<times> bytes list) \<times> ('s, 'n, 't) maybe_tls_stream" where
  "maybe_tls_writev p n t buf = on_inner (ri_writev p buf) (ri_writev n buf) (ri_writev t buf)"

definition maybe_tls_flush ::
  "'s rent_io \<Rightarrow> 'n rent_io \<Rightarrow> 't rent_io \<Rightarrow> ('s, 'n, 't) maybe_tls_stream
     \<Rightarrow> (io_error, unit) res \<times> ('s, 'n, 't) maybe_tls_stream" where
  "maybe_tls_flush p n t = on_inner (ri_flush p) (ri_flush n) (ri_flush t)"

definition maybe_tls_shutdown ::
  "'s rent_io \<Rightarrow> 'n rent_io \<Rightarrow> 't rent_io \<Rightarrow> ('s, 'n, 't) maybe_tls_stream
     \<Rightarrow> (io_error, unit) res \<times> ('s, 'n, 't) maybe_tls_stream" where
  "maybe_tls_shutdown p n t = on_inner (ri_shutdown p) (ri_shutdown n) (ri_shutdown t)"

section \<open>TLS\<close>

record features =
  ft_native_tls :: bool
  ft_rustls :: bool
  ft_native_roots :: bool
  ft_webpki_roots :: bool

definition any_tls :: "features \<Rightarrow> bool" where
  "any_tls ft \<longleftrightarrow> ft_native_tls ft \<or> ft_rustls ft"

datatype ('nc, 'tc) connector = Conn_Plain | Conn_Native 'nc | Conn_Rustls 'tc

definition connector_of_native :: "'nc \<Rightarrow> ('nc, 'tc) connector" where
  "connector_of_native c = Conn_Native c"

definition connector_of_rustls :: "'tc \<Rightarrow> ('nc, 'tc) connector" where
  "connector_of_rustls c = Conn_Rustls c"

text \<open>What the code calls of \<open>native-tls\<close>, \<open>rustls\<close> and the root certificate crates.\<close>

record ('s, 'n, 't, 'nc, 'tc, 'dn, 'cert, 'x) tls =
  native_new :: "('x, 'nc) res"
  native_connect :: "'nc \<Rightarrow> bytes \<Rightarrow> 's \<Rightarrow> ('x, 'n) res"
  load_native_certs :: "'cert list \<times> bytes"
  webpki_roots :: "'cert list"
  parsable_certs :: "'cert list \<Rightarrow> 'cert list"
  rustls_of_roots :: "'cert list \<Rightarrow> 'tc"
  server_name :: "bytes \<Rightarrow> 'dn option"
  rustls_connect :: "'tc \<Rightarrow> 'dn \<Rightarrow> 's \<Rightarrow> ('x, 't) res"

definition plain_wrap_stream :: "'s \<Rightarrow> mode \<Rightarrow> (('r, 'x) error, ('s, 'n, 't) maybe_tls_stream) res" where
  "plain_wrap_stream socket m = (case m of
     Mode_Plain \<Rightarrow> Ok (Plain_Stream socket)
   | Mode_Tls \<Rightarrow> Err (Url TlsFeatureNotEnabled))"

definition native_default_connector :: "('s, 'n, 't, 'nc, 'tc, 'dn, 'cert, 'x) tls \<Rightarrow> (('r, 'x) error, 'nc) res" where
  "native_default_connector ta = map_res (\<lambda>e. Tls (Tls_Native e)) id (native_new ta)"

definition native_wrap_stream ::
  "('s, 'n, 't, 'nc, 'tc, 'dn, 'cert, 'x) tls \<Rightarrow> 's \<Rightarrow> bytes \<Rightarrow> mode \<Rightarrow> 'nc option
     \<Rightarrow> (('r, 'x) error, ('s, 'n, 't) maybe_tls_stream) res" where
  "native_wrap_stream ta socket domain m conn = (case m of
     Mode_Plain \<Rightarrow> Ok (Plain_Stream socket)
   | Mode_Tls \<Rightarrow>
       bind_res (case conn of Some c \<Rightarrow> Ok c | None \<Rightarrow> native_default_connector ta) (\<lambda>c.
         map_res (\<lambda>e. Tls (tls_error_of_native e)) Native_Tls_Stream (native_connect ta c domain socket)))"

definition rustls_default_connector ::
  "features \<Rightarrow> ('s, 'n, 't, 'nc, 'tc, 'dn, 'cert, 'x) tls \<Rightarrow> (('r, 'x) error, 'tc) res" where
  "rustls_default_connector ft ta =
     (let (certs, errors) = load_native_certs ta in
      if ft_native_roots ft \<and> \<not> ft_webpki_roots ft \<and> certs = []
      then Err (Io (Io_Error NotFound (ascii ''no native root CA certificates found (errors: '' @ errors @ ascii '')'')))
      else Ok (rustls_of_roots ta
        ((if ft_native_roots ft then parsable_certs ta certs else []) @ (if ft_webpki_roots ft then webpki_roots ta else []))))"

definition rustls_wrap_stream ::
  "features \<Rightarrow> ('s, 'n, 't, 'nc, 'tc, 'dn, 'cert, 'x) tls \<Rightarrow> 's \<Rightarrow> bytes \<Rightarrow> mode \<Rightarrow> 'tc option
     \<Rightarrow> (('r, 'x) error, ('s, 'n, 't) maybe_tls_stream) res" where
  "rustls_wrap_stream ft ta socket domain m conn = (case m of
     Mode_Plain \<Rightarrow> Ok (Plain_Stream socket)
   | Mode_Tls \<Rightarrow>
       bind_res (case conn of Some c \<Rightarrow> Ok c | None \<Rightarrow> rustls_default_connector ft ta) (\<lambda>c.
       bind_res (case server_name ta domain of Some d \<Rightarrow> Ok d | None \<Rightarrow> Err (Tls InvalidDnsName)) (\<lambda>d.
         map_res (\<lambda>e. Tls (tls_error_of_rustls e)) Rustls_Stream (rustls_connect ta c d socket))))"

text \<open>The connector the user gave, or the default of the features.\<close>

definition wrap_stream ::
  "features \<Rightarrow> ('s, 'n, 't, 'nc, 'tc, 'dn, 'cert, 'x) tls \<Rightarrow> ('nc, 'tc) connector option \<Rightarrow> 's \<Rightarrow> bytes \<Rightarrow> mode
     \<Rightarrow> (('r, 'x) error, ('s, 'n, 't) maybe_tls_stream) res" where
  "wrap_stream ft ta conn socket domain m = (case conn of
     Some Conn_Plain \<Rightarrow> plain_wrap_stream socket m
   | Some (Conn_Native c) \<Rightarrow> native_wrap_stream ta socket domain m (Some c)
   | Some (Conn_Rustls c) \<Rightarrow> rustls_wrap_stream ft ta socket domain m (Some c)
   | None \<Rightarrow>
       if ft_native_tls ft then native_wrap_stream ta socket domain m None
       else if ft_rustls ft then rustls_wrap_stream ft ta socket domain m None
       else plain_wrap_stream socket m)"

section \<open>Entry points\<close>

text \<open>What a client needs of its surroundings: the HTTP crates, the transport, randomness.\<close>

record ('h, 'u, 's, 'q, 'x) client_env =
  ce_http :: "('h, 'u, 'x) http"
  ce_transport :: "('s, 'q, ('h, 'x) hs_error) transport"
  ce_next :: "('s, 'q, ('h, 'x) hs_error, nat \<times> 'h client_response) next_op"
  ce_random :: bytes

type_synonym ('h, 's, 'q, 'g, 'x) connected =
  "(('h, 'x) hs_error, ('s, 'q, 'g) websocket \<times> 'h client_response) res"

definition client_with_config ::
  "('h, 'u, 's, 'q, 'x) client_env \<Rightarrow> ('h, 'u) request_source \<Rightarrow> 's \<Rightarrow> websocket_config option \<Rightarrow> 'g
     \<Rightarrow> ('h, 's, 'q, 'g, 'x) connected" where
  "client_with_config ce src stream config g =
     bind_res (into_client_request (ce_http ce) (ce_random ce) src) (\<lambda>req.
       fst (client_handshake (ce_http ce) (ce_transport ce) (ce_next ce) req config g stream))"

definition client_connect ::
  "('h, 'u, 's, 'q, 'x) client_env \<Rightarrow> ('h, 'u) request_source \<Rightarrow> 's \<Rightarrow> 'g \<Rightarrow> ('h, 's, 'q, 'g, 'x) connected" where
  "client_connect ce src stream g = client_with_config ce src stream None g"

definition client_tls_with_config ::
  "features \<Rightarrow> ('s, 'n, 't, 'nc, 'tc, 'dn, 'cert, 'x) tls \<Rightarrow> ('h, 'u, ('s, 'n, 't) maybe_tls_stream, 'q, 'x) client_env
     \<Rightarrow> ('h, 'u) request_source \<Rightarrow> 's \<Rightarrow> websocket_config option \<Rightarrow> ('nc, 'tc) connector option \<Rightarrow> 'g
     \<Rightarrow> ('h, ('s, 'n, 't) maybe_tls_stream, 'q, 'g, 'x) connected" where
  "client_tls_with_config ft ta ce src stream config conn g =
     bind_res (into_client_request (ce_http ce) (ce_random ce) src) (\<lambda>req.
     bind_res (case uri_host (ce_http ce) (rq_uri req) of
         Some d \<Rightarrow> Ok d
       | None \<Rightarrow> if any_tls ft then Err (Url NoHostName) else Ok []) (\<lambda>domain.
     bind_res (uri_mode (ce_http ce) (rq_uri req)) (\<lambda>m.
     bind_res (wrap_stream ft ta conn stream domain m) (\<lambda>s.
       client_with_config ce (From_Request req) s config g))))"

definition client_tls ::
  "features \<Rightarrow> ('s, 'n, 't, 'nc, 'tc, 'dn, 'cert, 'x) tls \<Rightarrow> ('h, 'u, ('s, 'n, 't) maybe_tls_stream, 'q, 'x) client_env
     \<Rightarrow> ('h, 'u) request_source \<Rightarrow> 's \<Rightarrow> 'g \<Rightarrow> ('h, ('s, 'n, 't) maybe_tls_stream, 'q, 'g, 'x) connected" where
  "client_tls ft ta ce src stream g = client_tls_with_config ft ta ce src stream None None g"

record 's tcp =
  tcp_connect :: "bytes \<Rightarrow> u16 \<Rightarrow> (io_error, 's) res"
  tcp_set_nodelay :: "'s \<Rightarrow> (io_error, 's) res"

text \<open>The brackets of an IPv6 host are no part of the address.\<close>

definition strip_brackets :: "bytes \<Rightarrow> bytes" where
  "strip_brackets d = (if d \<noteq> [] \<and> hd d = 91 \<and> last d = 93 then butlast (tl d) else d)"

definition prepare_tcp_stream ::
  "features \<Rightarrow> ('h, 'u, 'x) http \<Rightarrow> 's tcp \<Rightarrow> ('h, 'u) http_request \<Rightarrow> bool \<Rightarrow> (('r, 'x) error, 's) res" where
  "prepare_tcp_stream ft ht net req disable_nagle =
     bind_res (uri_mode ht (rq_uri req)) (\<lambda>m.
       if \<not> any_tls ft \<and> m = Mode_Tls then Err (Url TlsFeatureNotEnabled)
       else (case uri_host ht (rq_uri req) of
         None \<Rightarrow> Err (Url NoHostName)
       | Some d \<Rightarrow>
           let port = (case uri_port ht (rq_uri req) of Some p \<Rightarrow> p | None \<Rightarrow> (case m of Mode_Plain \<Rightarrow> 80 | Mode_Tls \<Rightarrow> 443))
           in bind_res (map_res Io id (tcp_connect net (strip_brackets d) port)) (\<lambda>s.
             if disable_nagle then map_res Io id (tcp_set_nodelay net s) else Ok s)))"

definition connect_tls_with_config ::
  "features \<Rightarrow> ('s, 'n, 't, 'nc, 'tc, 'dn, 'cert, 'x) tls \<Rightarrow> ('h, 'u, ('s, 'n, 't) maybe_tls_stream, 'q, 'x) client_env \<Rightarrow> 's tcp
     \<Rightarrow> ('h, 'u) request_source \<Rightarrow> websocket_config option \<Rightarrow> bool \<Rightarrow> ('nc, 'tc) connector option \<Rightarrow> 'g
     \<Rightarrow> ('h, ('s, 'n, 't) maybe_tls_stream, 'q, 'g, 'x) connected" where
  "connect_tls_with_config ft ta ce net src config disable_nagle conn g =
     bind_res (into_client_request (ce_http ce) (ce_random ce) src) (\<lambda>req.
     bind_res (prepare_tcp_stream ft (ce_http ce) net req disable_nagle) (\<lambda>s.
       client_tls_with_config ft ta ce (From_Request req) s config conn g))"

definition connect_with_config ::
  "features \<Rightarrow> ('s, 'n, 't, 'nc, 'tc, 'dn, 'cert, 'x) tls \<Rightarrow> ('h, 'u, ('s, 'n, 't) maybe_tls_stream, 'q, 'x) client_env \<Rightarrow> 's tcp
     \<Rightarrow> ('h, 'u) request_source \<Rightarrow> websocket_config option \<Rightarrow> bool \<Rightarrow> 'g
     \<Rightarrow> ('h, ('s, 'n, 't) maybe_tls_stream, 'q, 'g, 'x) connected" where
  "connect_with_config ft ta ce net src config disable_nagle g =
     bind_res (into_client_request (ce_http ce) (ce_random ce) src) (\<lambda>req.
     bind_res (prepare_tcp_stream ft (ce_http ce) net req disable_nagle) (\<lambda>s.
       if any_tls ft then client_tls_with_config ft ta ce (From_Request req) s config None g
       else client_with_config ce (From_Request req) (Plain_Stream s) config g))"

definition connect_default ::
  "features \<Rightarrow> ('s, 'n, 't, 'nc, 'tc, 'dn, 'cert, 'x) tls \<Rightarrow> ('h, 'u, ('s, 'n, 't) maybe_tls_stream, 'q, 'x) client_env \<Rightarrow> 's tcp
     \<Rightarrow> ('h, 'u) request_source \<Rightarrow> 'g \<Rightarrow> ('h, ('s, 'n, 't) maybe_tls_stream, 'q, 'g, 'x) connected" where
  "connect_default ft ta ce net src g = connect_with_config ft ta ce net src None False g"

section \<open>The request of a URI\<close>

context http_laws
begin

lemma build_headers_ok:
  "\<forall>(n, v) \<in> set fs. token n \<and> visible v \<Longrightarrow>
     \<exists>h'. build_headers ht fs h = Ok h'
       \<and> mset (hm_entries ht h') = mset (hm_entries ht h) + mset (map (\<lambda>(n, v). (lower n, v)) fs)
       \<and> (\<forall>n. hm_get ht n h' = (case hm_get ht n h of None \<Rightarrow> first_value n fs | Some v \<Rightarrow> Some v))"
proof (induction fs arbitrary: h)
  case Nil
  show ?case by (simp add: first_value_def split: option.split)
next
  case (Cons f fs)
  obtain n v where f: "f = (n, v)" by force
  then have conv: "ht_header_name ht n = Ok (lower n)" "ht_parse_value ht v = Ok v"
    using Cons.prems name_token value_visible(2) by simp_all
  obtain h' where h': "build_headers ht fs (hm_append ht (lower n) v h) = Ok h'"
    "mset (hm_entries ht h') = mset (hm_entries ht (hm_append ht (lower n) v h)) + mset (map (\<lambda>(n, v). (lower n, v)) fs)"
    "\<forall>m. hm_get ht m h' = (case hm_get ht m (hm_append ht (lower n) v h) of None \<Rightarrow> first_value m fs | Some w \<Rightarrow> Some w)"
    using Cons.IH[of "hm_append ht (lower n) v h"] Cons.prems by auto
  have "hm_get ht m h' = (case hm_get ht m h of None \<Rightarrow> first_value m (f # fs) | Some w \<Rightarrow> Some w)" for m
    using h'(3) f by (auto simp: get_append first_value_def split: option.split)
  then show ?case using h'(1,2) f conv by (simp add: entries_append)
qed

end

text \<open>The host a URI names, as it is written in a \<open>Host\<close> field.\<close>

definition uri_names_host :: "('h, 'u, 'x) http \<Rightarrow> 'u \<Rightarrow> bytes \<Rightarrow> bool" where
  "uri_names_host ht u host \<longleftrightarrow> (\<exists>a. uri_authority ht u = Some a \<and> authority_host a = host) \<and> field_ok (ascii ''Host'', host)"

definition ws_scheme :: "('h, 'u, 'x) http \<Rightarrow> 'u \<Rightarrow> bool" where
  "ws_scheme ht u \<longleftrightarrow> uri_scheme ht u = Some (ascii ''ws'') \<or> uri_scheme ht u = Some (ascii ''wss'')"

lemma client_literals:
  "field_ok (ascii ''Connection'', ascii ''Upgrade'')" "field_ok (ascii ''Upgrade'', ascii ''websocket'')"
  "field_ok (ascii ''Sec-WebSocket-Version'', ascii ''13'')" "token key_headername"
  by (simp_all add: field_ok_def token_def token_char_def visible_def ascii_def is_ascii_space_def key_headername_def)

lemma lower_field: "field_ok (n, v) \<Longrightarrow> field_ok (lower n, v)"
  by (auto simp: field_ok_def token_def lower_def token_lower_char)

lemma client_headers_names: "map fst (client_headers ht r host) = websocket_headers"
  by (simp add: client_headers_def websocket_headers_def key_headername_def)

lemma map_of_lower_names:
  "map_of (map (\<lambda>(m, v). (lower m, v)) fs) k = None \<longleftrightarrow> k \<notin> set (map lower (map fst fs))"
  by (induction fs) (auto split: prod.split)

context http_messages
begin

lemma client_headers_field:
  assumes "field_ok (ascii ''Host'', host)" "r \<noteq> []"
  shows "\<forall>f \<in> set (client_headers ht r host). field_ok f"
proof -
  have range: "33 \<le> b \<and> b \<le> 126" if "b \<in> set (generate_key ht r)" for b
    using base64_text(1) that by (simp add: generate_key_def)
  then have "32 \<le> b \<and> b \<le> 126 \<and> \<not> is_ascii_space b" if "b \<in> set (generate_key ht r)" for b
    using that by (force simp: word_le_nat_alt is_ascii_space_def)
  moreover have "generate_key ht r \<noteq> []" using base64_text(2)[OF assms(2)] by (simp add: generate_key_def)
  ultimately have "field_ok (key_headername, generate_key ht r)"
    using client_literals(4) by (simp add: field_ok_def visible_def)
  then show ?thesis
    using assms(1) client_literals by (simp add: client_headers_def key_headername_def)
qed

lemma request_of_uri_ok:
  assumes "uri_names_host ht u host" "r \<noteq> []"
  shows "\<exists>h. (request_of_uri ht r u :: (('r, 'x) error, ('h, 'u) http_request) res)
      = Ok \<lparr>rq_method = ascii ''GET'', rq_uri = u, rq_version = HTTP_11, rq_headers = h\<rparr>
    \<and> headers_ok ht h \<and> length (hm_entries ht h) = 5
    \<and> mset (hm_entries ht h) = mset (map (\<lambda>(n, v). (lower n, v)) (client_headers ht r host))
    \<and> (\<forall>n. hm_get ht n h = first_value n (client_headers ht r host))"
proof -
  let ?fs = "client_headers ht r host"
  obtain a where a: "uri_authority ht u = Some a" "authority_host a = host" "host \<noteq> []"
    using assms(1) by (auto simp: uri_names_host_def field_ok_def)
  have ok: "\<forall>f \<in> set ?fs. field_ok f"
    using assms by (intro client_headers_field) (simp_all add: uri_names_host_def)
  then have "\<forall>(n, v) \<in> set ?fs. token n \<and> visible v" by (auto simp: field_ok_def)
  from build_headers_ok[OF this, of "hm_empty ht"] obtain h where h: "build_headers ht ?fs (hm_empty ht) = Ok h"
    "mset (hm_entries ht h) = mset (map (\<lambda>(n, v). (lower n, v)) ?fs)" "\<forall>n. hm_get ht n h = first_value n ?fs"
    by (auto simp: get_empty entries_empty)
  have "set (hm_entries ht h) = set (map (\<lambda>(n, v). (lower n, v)) ?fs)" using h(2) by (rule mset_eq_setD)
  then have "headers_ok ht h" using ok by (auto simp: headers_ok_def intro: lower_field)
  moreover have "length (hm_entries ht h) = 5"
    using h(2) by (metis (no_types, lifting) client_headers_names length_map size_mset websocket_headers_facts(3))
  ultimately show ?thesis using a h by (simp add: request_of_uri_def)
qed

end

section \<open>Subprotocols\<close>

text \<open>Names that can be listed in one value: nothing but visible characters, and no comma.\<close>

definition listable :: "bytes \<Rightarrow> bool" where
  "listable p \<longleftrightarrow> p \<noteq> [] \<and> (\<forall>b \<in> set p. 33 \<le> b \<and> b \<le> 126 \<and> b \<noteq> 44)"

lemma dropWhile_none: "bs \<noteq> [] \<Longrightarrow> \<not> P (hd bs) \<Longrightarrow> dropWhile P bs = bs"
  by (cases bs) simp_all

lemma trim_listable: "listable p \<Longrightarrow> trim p = p" "listable p \<Longrightarrow> trim (32 # p) = p"
proof -
  assume p: "listable p"
  then have ends: "\<not> is_ascii_space b" if "b \<in> set p" for b
    using that by (auto simp: listable_def is_ascii_space_def word_le_nat_alt)
  have "dropWhile is_ascii_space p = p" "dropWhile is_ascii_space (rev p) = rev p"
    using p ends by (auto intro!: dropWhile_none simp: listable_def hd_rev)
  then show "trim p = p" "trim (32 # p) = p" by (simp_all add: trim_def is_ascii_space_def)
qed

lemma listable_visible: "listable p \<Longrightarrow> visible p"
  by (force simp: listable_def visible_def word_le_nat_alt)

lemma split_joined:
  "ps \<noteq> [] \<Longrightarrow> \<forall>p \<in> set ps. listable p \<Longrightarrow>
     map trim (split_on (\<lambda>b. b = 44) (join_with (ascii '', '') ps)) = ps"
proof -
  have sep: "ascii '', '' = [44, 32]" by (simp add: ascii_def)
  have rest: "map trim (split_on (\<lambda>b. b = 44) (32 # join_with [44, 32] ps)) = ps"
    if "ps \<noteq> []" "\<forall>p \<in> set ps. listable p" for ps
    using that
  proof (induction ps rule: induct_list012)
    case (2 p)
    then have "split_on (\<lambda>b. b = 44) (32 # p) = [32 # p]" by (intro split_on_none) (auto simp: listable_def)
    then show ?case using 2 trim_listable(2) by simp
  next
    case (3 p q ps)
    then have "split_on (\<lambda>b. b = 44) (32 # p) = [32 # p]" by (intro split_on_none) (auto simp: listable_def)
    then show ?case
      using 3 trim_listable(2) split_on_append[of "\<lambda>b. b = 44" 44 "32 # p" "32 # join_with [44, 32] (q # ps)"]
      by simp
  qed simp
  assume ps: "ps \<noteq> []" "\<forall>p \<in> set ps. listable p"
  then obtain p qs where p: "ps = p # qs" by (cases ps) auto
  then have one: "split_on (\<lambda>b. b = 44) p = [p]" using ps by (intro split_on_none) (auto simp: listable_def)
  show "map trim (split_on (\<lambda>b. b = 44) (join_with (ascii '', '') ps)) = ps"
  proof (cases qs)
    case Nil
    then show ?thesis using p one ps trim_listable(1) by (simp add: sep)
  next
    case (Cons q qs')
    then show ?thesis
      using p one ps trim_listable(1) rest[of qs] split_on_append[of "\<lambda>b. b = 44" 44 p "32 # join_with [44, 32] qs"]
      by (simp add: sep)
  qed
qed

lemma join_visible: "\<forall>p \<in> set ps. visible p \<Longrightarrow> visible (join_with (ascii '', '') ps)"
  by (auto simp: join_with_def visible_def ascii_def split: list.split)

text \<open>Custom fields the user adds, none of which is a list of subprotocols.\<close>

definition custom_ok :: "(bytes \<times> bytes) list \<Rightarrow> bool" where
  "custom_ok fs \<longleftrightarrow> (\<forall>(n, v) \<in> set fs. token n \<and> visible v \<and> lower n \<noteq> ascii ''sec-websocket-protocol'')"

context http_laws
begin

lemma append_custom_ok:
  "\<forall>(n, v) \<in> set fs. token n \<and> visible v \<Longrightarrow>
     \<exists>h'. (append_custom ht fs h :: (('r, 'x) error, 'h) res) = Ok h'
       \<and> (\<forall>m. hm_get ht m h' = (case hm_get ht m h of None \<Rightarrow> first_value m fs | Some v \<Rightarrow> Some v))"
proof (induction fs arbitrary: h)
  case Nil
  show ?case by (simp add: first_value_def split: option.split)
next
  case (Cons f fs)
  obtain n v where f: "f = (n, v)" by force
  then have conv: "ht_header_name ht n = Ok (lower n)" "ht_parse_value ht v = Ok v"
    using Cons.prems name_token value_visible(2) by simp_all
  obtain h' where h': "(append_custom ht fs (hm_append ht (lower n) v h) :: (('r, 'x) error, 'h) res) = Ok h'"
    "\<forall>m. hm_get ht m h' = (case hm_get ht m (hm_append ht (lower n) v h) of None \<Rightarrow> first_value m fs | Some w \<Rightarrow> Some w)"
    using Cons.IH[of "hm_append ht (lower n) v h"] Cons.prems by auto
  have "hm_get ht m h' = (case hm_get ht m h of None \<Rightarrow> first_value m (f # fs) | Some w \<Rightarrow> Some w)" for m
    using h'(2) f by (auto simp: get_append first_value_def split: option.split)
  then show ?case using h'(1) f conv by simp
qed

end

lemma protocol_name: "lower (ascii ''Sec-WebSocket-Protocol'') = ascii ''sec-websocket-protocol''"
  by (simp add: lower_def ascii_def to_lower_def)

lemma custom_no_protocol: "custom_ok fs \<Longrightarrow> first_value (ascii ''Sec-WebSocket-Protocol'') fs = None"
  unfolding first_value_def map_of_lower_names protocol_name by (auto simp: custom_ok_def)

context http_messages
begin

text \<open>The subprotocols given to the builder are those the response is compared with.\<close>

lemma builder_subprotocols:
  assumes "uri_names_host ht (crb_uri b) host" "r \<noteq> []" "custom_ok (crb_headers b)" "\<forall>p \<in> set (crb_subprotocols b). listable p"
  shows "\<exists>req. request_of_builder ht r b = (Ok req :: (('r, 'x) error, ('h, 'u) http_request) res)
    \<and> rq_method req = ascii ''GET'' \<and> rq_version req = HTTP_11 \<and> rq_uri req = crb_uri b
    \<and> (\<forall>n \<in> set websocket_headers. hm_get ht n (rq_headers req) = first_value n (client_headers ht r host))
    \<and> extract_subprotocols ht req
        = (Ok (if crb_subprotocols b = [] then None else Some (crb_subprotocols b)) :: (('r, 'x) error, bytes list option) res)"
proof -
  let ?fs = "client_headers ht r host" and ?proto = "ascii ''Sec-WebSocket-Protocol''"
  obtain h where h: "(request_of_uri ht r (crb_uri b) :: (('r, 'x) error, ('h, 'u) http_request) res)
      = Ok \<lparr>rq_method = ascii ''GET'', rq_uri = crb_uri b, rq_version = HTTP_11, rq_headers = h\<rparr>"
    "\<And>n. hm_get ht n h = first_value n ?fs"
    using request_of_uri_ok[OF assms(1,2), where ?'r = 'r] by blast
  have "\<forall>(n, v) \<in> set (crb_headers b). token n \<and> visible v" using assms(3) by (auto simp: custom_ok_def)
  from append_custom_ok[OF this, of h, where ?'r = 'r] obtain h1
    where h1: "(append_custom ht (crb_headers b) h :: (('r, 'x) error, 'h) res) = Ok h1"
      "\<And>n. hm_get ht n h1 = (case hm_get ht n h of None \<Rightarrow> first_value n (crb_headers b) | Some v \<Rightarrow> Some v)"
    by blast
  have present: "first_value n ?fs \<noteq> None" if "n \<in> set websocket_headers" for n
    using that unfolding first_value_def map_of_lower_names client_headers_names by (metis image_eqI list.set_map)
  have kept: "hm_get ht n h1 = first_value n ?fs" if "n \<in> set websocket_headers" for n
    using h1(2)[of n] h(2)[of n] present[OF that] by (cases "first_value n ?fs") auto
  have "first_value ?proto ?fs = None"
    by (simp add: first_value_def client_headers_def lower_def ascii_def to_lower_def)
  then have none: "hm_get ht ?proto h1 = None"
    using h1(2) h(2) custom_no_protocol[OF assms(3)] by simp
  show ?thesis
  proof (cases "crb_subprotocols b = []")
    case True
    then show ?thesis using h h1(1) kept none by (simp add: request_of_builder_def extract_subprotocols_def)
  next
    case False
    let ?v = "join_with (ascii '', '') (crb_subprotocols b)"
    have v: "visible ?v" using assms(4) listable_visible by (intro join_visible) blast
    have "hm_get ht ?proto (hm_append ht ?proto ?v h1) = Some ?v" using none by (simp add: get_append)
    moreover have "hm_get ht n (hm_append ht ?proto ?v h1) = first_value n ?fs" if "n \<in> set websocket_headers" for n
      using kept[OF that] present[OF that] by (simp add: get_append)
    ultimately show ?thesis
      using False h(1) h1(1) v split_joined[OF False assms(4)] value_visible(2)[OF v]
      by (simp add: request_of_builder_def extract_subprotocols_def)
  qed
qed

end

section \<open>Protection\<close>

fun protected :: "('s, 'n, 't) maybe_tls_stream \<Rightarrow> bool" where
  "protected (Plain_Stream s) = False"
| "protected (Native_Tls_Stream s) = True"
| "protected (Rustls_Stream s) = True"

lemma on_inner_protected: "protected (snd (on_inner f g k s)) = protected s"
  by (cases s) (simp_all split: prod.split)

lemma map_res_Ok: "map_res f g r = Ok b \<longleftrightarrow> (\<exists>a. r = Ok a \<and> b = g a)"
  by (cases r) auto

lemma wrap_stream_protects:
  "(wrap_stream ft ta conn socket d m :: (('r, 'x) error, ('s, 'n, 't) maybe_tls_stream) res) = Ok s
     \<Longrightarrow> protected s \<longleftrightarrow> m = Mode_Tls"
  by (cases m)
    (auto simp: wrap_stream_def plain_wrap_stream_def native_wrap_stream_def rustls_wrap_stream_def outcome_simps map_res_Ok
      split: option.splits connector.splits if_splits)

text \<open>A handshake that has completed ran over a stream that is protected exactly for \<open>wss\<close>.\<close>

definition completed_over ::
  "('h, 'u, ('s, 'n, 't) maybe_tls_stream, 'q, 'x) client_env \<Rightarrow> ('h, 'u) request_source \<Rightarrow> websocket_config option \<Rightarrow> 'g
     \<Rightarrow> ('s, 'n, 't) maybe_tls_stream \<Rightarrow> ('h, ('s, 'n, 't) maybe_tls_stream, 'q, 'g, 'x) connected \<Rightarrow> bool" where
  "completed_over ce src config g s res \<longleftrightarrow>
     (\<exists>req m. into_client_request (ce_http ce) (ce_random ce) src = (Ok req :: (('h, 'x) hs_error, _) res)
        \<and> uri_mode (ce_http ce) (rq_uri req) = (Ok m :: (('h, 'x) hs_error, mode) res) \<and> (protected s \<longleftrightarrow> m = Mode_Tls)
        \<and> fst (client_handshake (ce_http ce) (ce_transport ce) (ce_next ce) req config g s) = res)"

lemma completed_request:
  assumes "into_client_request (ce_http ce) (ce_random ce) src = (Ok req :: (('h, 'x) hs_error, ('h, 'u) http_request) res)"
    and "completed_over ce (From_Request req) config g s c"
  shows "completed_over ce src config g s c"
  using assms by (auto simp: completed_over_def)

lemma client_tls_over:
  assumes "client_tls_with_config ft ta ce src stream config conn g = Ok c"
  shows "\<exists>s. completed_over ce src config g s (Ok c)"
proof -
  obtain req d m s where steps: "into_client_request (ce_http ce) (ce_random ce) src = (Ok req :: (('a, 'b) hs_error, _) res)"
    "uri_mode (ce_http ce) (rq_uri req) = (Ok m :: (('a, 'b) hs_error, mode) res)"
    "wrap_stream ft ta conn stream d m = (Ok s :: (('a, 'b) hs_error, _) res)"
    "client_with_config ce (From_Request req) s config g = Ok c"
    using assms by (auto simp: client_tls_with_config_def outcome_simps split: option.splits)
  then have "completed_over ce src config g s (Ok c)"
    using wrap_stream_protects[OF steps(3)] by (auto simp: completed_over_def client_with_config_def)
  then show ?thesis ..
qed

lemma connect_over:
  "connect_tls_with_config ft ta ce net src config nd conn g = Ok c \<Longrightarrow> \<exists>s. completed_over ce src config g s (Ok c)"
  "connect_with_config ft ta ce net src config nd g = Ok c \<Longrightarrow> \<exists>s. completed_over ce src config g s (Ok c)"
proof -
  show "\<exists>s. completed_over ce src config g s (Ok c)" if "connect_tls_with_config ft ta ce net src config nd conn g = Ok c"
    using that completed_request by (fastforce simp: connect_tls_with_config_def outcome_simps dest!: client_tls_over)
  assume run: "connect_with_config ft ta ce net src config nd g = Ok c"
  then obtain req s where r: "into_client_request (ce_http ce) (ce_random ce) src = (Ok req :: (('a, 'b) hs_error, _) res)"
    and s: "prepare_tcp_stream ft (ce_http ce) net req nd = (Ok s :: (('a, 'b) hs_error, _) res)"
    and over: "(if any_tls ft then client_tls_with_config ft ta ce (From_Request req) s config None g
       else client_with_config ce (From_Request req) (Plain_Stream s) config g) = Ok c"
    by (auto simp: connect_with_config_def outcome_simps)
  show "\<exists>s. completed_over ce src config g s (Ok c)"
  proof (cases "any_tls ft")
    case True
    then show ?thesis using over client_tls_over completed_request[OF r] by (metis (full_types))
  next
    case False
    obtain m where "uri_mode (ce_http ce) (rq_uri req) = (Ok m :: (('a, 'b) hs_error, mode) res)" "m \<noteq> Mode_Tls"
      using s False by (auto simp: prepare_tcp_stream_def outcome_simps split: if_splits)
    then have "completed_over ce src config g (Plain_Stream s) (Ok c)"
      using over r False by (simp add: completed_over_def client_with_config_def)
    then show ?thesis ..
  qed
qed

end
