(* ===== verification/Opening.thy ===== *)
theory Opening
  imports Fragmentation Handshake_Session Client_Connect
begin

text \<open>
  The entry points of both sides against each other over the in-memory transport: the request
  of a URI is accepted by a server without a callback, whose response the client accepts; the
  connections that come out are new, and what the server sends behind its response is still
  to be read.
\<close>

section \<open>New connections\<close>

definition on_the_wire :: "mem_socket \<Rightarrow> bytes" where
  "on_the_wire s = mem_out (codec_get_io (ws_codec s))"

definition opened :: "role \<Rightarrow> websocket_config option \<Rightarrow> bytes \<Rightarrow> mem_socket \<Rightarrow> bool" where
  "opened rl c unread s \<longleftrightarrow> ws_role s = rl \<and> ws_config s = config_or_default c \<and> ws_conn s = Active
     \<and> ws_incomplete s = None \<and> dec_header (ws_decoder s) = None \<and> fc_write_buf (ws_codec s) = []
     \<and> pending_input s = unread \<and> ws_outgoing mem_out s = on_the_wire s
     \<and> (limits_ok (config_or_default c) \<longrightarrow> ws_inv s)"

lemma opened_framed:
  "fr_buffer fr @ concat (mem_in (fr_io fr)) = unread \<Longrightarrow> opened rl c unread (from_framed_read fr rl c g)"
  by (simp add: opened_def from_framed_read_simps pending_input_def on_the_wire_def codec_get_io_def new_connection_inv(2))

lemma opened_reading:
  assumes "opened rl c (concat (map (frame_bytes aligned_le) fs)) s" "limits_ok (config_or_default c)"
  shows "reading_at None s fs"
  using assms by (simp add: opened_def reading_at_def)

text \<open>Messages written and flushed, and the frames they become.\<close>

lemma wire_outgoing: "fc_write_buf (ws_codec s) = [] \<Longrightarrow> on_the_wire s = ws_outgoing mem_out s"
  by (simp add: on_the_wire_def ws_outgoing_def outgoing_def)

lemma mem_write_flush:
  fixes s :: mem_socket
  assumes "ws_conn s = Active" "\<forall>m \<in> set ms. transferable c m"
  shows "\<exists>s1 s2 fs. write_all (mem_env :: (mem_io, unit, mask4, 'r, 'x) env) ms s = (Ok (), s1)
    \<and> ws_flush (mem_env :: (mem_io, unit, mask4, 'r, 'x) env) s1 = (Ok (), s2)
    \<and> ws_conn s2 = Active \<and> same_reading s s2 \<and> pending_input s2 = pending_input s \<and> fc_write_buf (ws_codec s2) = []
    \<and> list_all2 (\<lambda>m. sent_as (ws_role s) (frame_of_message m)) ms fs
    \<and> on_the_wire s2 = ws_outgoing mem_out s @ concat (map (frame_bytes aligned_le) fs)"
proof -
  let ?env = "mem_env :: (mem_io, unit, mask4, 'r, 'x) env"
  have env: "env_transport ?env = mem_transport" by (simp add: mem_env_def)
  have "\<forall>m \<in> set ms. \<not> message_is_close m" using assms(2) by (metis message_is_close.elims(2) transferable.simps(5))
  then obtain s1 fs where w: "write_all ?env ms s = (Ok (), s1)" "ws_conn s1 = Active" "same_reading s s1" "pending_input s1 = pending_input s"
    "list_all2 (\<lambda>m. sent_as (ws_role s) (frame_of_message m)) ms fs"
    "ws_outgoing mem_out s1 = ws_outgoing mem_out s @ concat (map (frame_bytes aligned_le) fs)"
    using mem_write_all[of s ms, where ?'r = 'r and ?'x = 'x] assms(1) by auto
  obtain f s2 where f: "ws_flush ?env s1 = (f, s2)" by (cases "ws_flush ?env s1")
  then have "f = Ok () \<and> fc_write_buf (ws_codec s2) = [] \<and> ws_outgoing mem_out s2 = ws_outgoing mem_out s1
      \<and> same_reading s1 s2 \<and> ws_conn s2 = ws_conn s1 \<and> pending_input s2 = pending_input s1"
    using mem_flush[of s1, where ?'r = 'r and ?'x = 'x] w(2) by (auto simp: ws_flush_def can_read_def env)
  then show ?thesis using w f same_reading_trans[OF w(3)] by (auto simp: wire_outgoing)
qed

section \<open>The exchange\<close>

definition mem_client :: "('h, 'u, 'x) http \<Rightarrow> bytes \<Rightarrow> ('h, 'u, mem_io, unit, 'x) client_env" where
  "mem_client ht r = \<lparr>ce_http = ht, ce_transport = mem_transport, ce_next = mem_next, ce_random = r\<rparr>"

definition mem_accept ::
  "('h, 'u, 'x) http \<Rightarrow> bytes list \<Rightarrow> websocket_config option \<Rightarrow> mask4 \<Rightarrow> (('h, 'x) hs_error, mem_socket) res" where
  "mem_accept ht chunks c g = fst (accept_with_config ht (mem_transport :: (mem_io, unit, ('h, 'x) hs_error) transport) mem_next (mem_stream chunks) c g)"

text \<open>A URI a client can connect to.\<close>

definition connectable :: "('h, 'u, 'x) http \<Rightarrow> 'u \<Rightarrow> bool" where
  "connectable ht u \<longleftrightarrow> ws_scheme ht u \<and> (\<exists>host. uri_names_host ht u host)
     \<and> (\<exists>path u'. uri_path_and_query ht u = Some path \<and> target_ok path \<and> uri_parse ht path = Ok u')"

lemma wants_upgrade_literal: "wants_upgrade (ascii ''Upgrade'')"
  by (simp add: wants_upgrade_def ascii_def eq_ignore_ascii_case_def)

lemma client_headers_values:
  "first_value (ascii ''Connection'') (client_headers ht r host) = Some (ascii ''Upgrade'')"
  "first_value (ascii ''Upgrade'') (client_headers ht r host) = Some (ascii ''websocket'')"
  "first_value (ascii ''Sec-WebSocket-Version'') (client_headers ht r host) = Some (ascii ''13'')"
  "first_value key_headername (client_headers ht r host) = Some (generate_key ht r)"
  "first_value (ascii ''Sec-WebSocket-Protocol'') (client_headers ht r host) = None"
  by (simp_all add: first_value_def client_headers_def key_headername_def lower_def ascii_def to_lower_def)

context http_messages
begin

text \<open>The text of the request of a URI has its fields and no others.\<close>

lemma client_headers_text:
  assumes path: "uri_path_and_query ht (rq_uri req) = Some path" and version: "rq_version req = HTTP_11"
    and hm: "headers_ok ht (rq_headers req)" "mset (hm_entries ht (rq_headers req)) = mset (map (\<lambda>(n, v). (lower n, v)) (client_headers ht r host))"
    and vals: "\<And>n. hm_get ht n (rq_headers req) = first_value n (client_headers ht r host)"
  shows "(generate_request ht req :: (('r, 'x) error, bytes) res) = Ok (request_text path (client_headers ht r host))"
proof -
  have host: "first_value (ascii ''Host'') (client_headers ht r host) = Some host"
    by (simp add: first_value_def client_headers_def)
  have "\<forall>n \<in> set websocket_headers. hm_get ht n (rq_headers req) \<noteq> None"
    using client_headers_values[of ht r host] host by (simp add: websocket_headers_def vals)
  from generate_request_ok[OF path version this hm(1), where ?'r = 'r] obtain es
    where es: "mset es = filter_mset (\<lambda>(m, v). m \<notin> set (map lower websocket_headers)) (mset (hm_entries ht (rq_headers req)))"
      "(generate_request ht req :: (('r, 'x) error, bytes) res) = Ok (request_text path
         (map (\<lambda>n. (n, the (hm_get ht n (rq_headers req)))) websocket_headers @ map (\<lambda>(k, v). (usual_case k, v)) es))"
    by blast
  have "\<forall>(m, v) \<in> set (map (\<lambda>(n, v). (lower n, v)) (client_headers ht r host)). m \<in> set (map lower websocket_headers)"
    by (simp add: client_headers_def websocket_headers_def key_headername_def)
  then have "filter (\<lambda>(m, v). m \<notin> set (map lower websocket_headers)) (map (\<lambda>(n, v). (lower n, v)) (client_headers ht r host)) = []"
    unfolding filter_empty_conv by auto
  then have "mset es = {#}" unfolding es(1) hm(2) by (metis mset.simps(1) mset_filter)
  moreover have "map (\<lambda>n. (n, the (hm_get ht n (rq_headers req)))) websocket_headers = client_headers ht r host"
    using client_headers_values[of ht r host] host
    by (simp add: websocket_headers_def vals) (simp add: client_headers_def key_headername_def)
  ultimately show ?thesis using es(2) by simp
qed

text \<open>The request of such a URI, and the text of it.\<close>

lemma uri_request_facts:
  assumes "connectable ht u" "r \<noteq> []"
  shows "\<exists>req path u' fs. (request_of_uri ht r u :: (('r, 'x) error, ('h, 'u) http_request) res) = Ok req
    \<and> request_ok ht req \<and> rq_uri req = u
    \<and> hm_get ht key_headername (rq_headers req) = Some (generate_key ht r)
    \<and> hm_get ht (ascii ''Sec-WebSocket-Protocol'') (rq_headers req) = None
    \<and> (generate_request ht req :: (('r, 'x) error, bytes) res) = Ok (request_text path fs)
    \<and> target_ok path \<and> uri_parse ht path = Ok u' \<and> (\<forall>f \<in> set fs. field_ok f) \<and> length fs \<le> max_headers
    \<and> asks_upgrade (\<lambda>n. first_value n fs) \<and> first_value key_headername fs = Some (generate_key ht r)"
proof -
  obtain host path u' where u: "uri_names_host ht u host" "ws_scheme ht u"
    "uri_path_and_query ht u = Some path" "target_ok path" "uri_parse ht path = Ok u'"
    using assms(1) by (auto simp: connectable_def)
  obtain hm where hm: "(request_of_uri ht r u :: (('r, 'x) error, ('h, 'u) http_request) res)
      = Ok \<lparr>rq_method = ascii ''GET'', rq_uri = u, rq_version = HTTP_11, rq_headers = hm\<rparr>"
    "headers_ok ht hm" "length (hm_entries ht hm) = 5" "\<And>n. hm_get ht n hm = first_value n (client_headers ht r host)"
    using request_of_uri_ok[OF u(1) assms(2), where ?'r = 'r] by blast
  let ?req = "\<lparr>rq_method = ascii ''GET'', rq_uri = u, rq_version = HTTP_11, rq_headers = hm\<rparr>"
  note vals = client_headers_values[of ht r host, folded hm(4)]
  have key: "visible (generate_key ht r)"
    using hm(2) get_entry[OF vals(4)] by (auto simp: headers_ok_def field_ok_def)
  have host: "hm_get ht (ascii ''Host'') hm = Some host"
    by (simp add: hm(4) first_value_def client_headers_def)
  have req: "request_ok ht ?req"
    using u(2) vals key
    by (simp add: request_ok_def ws_scheme_def header_is_def key_headername_def)
  have "\<forall>n \<in> set websocket_headers. hm_get ht n hm \<noteq> None"
    using vals host by (simp add: websocket_headers_def)
  from generate_request_ok[of ?req path, where ?'r = 'r, OF _ _ _ _] u(3) this hm(2)
  obtain fs where fs: "(generate_request ht ?req :: (('r, 'x) error, bytes) res) = Ok (request_text path fs)"
    "\<forall>f \<in> set fs. field_ok f" "length fs \<le> 10" "\<forall>n \<in> set websocket_headers. first_value n fs = hm_get ht n hm"
    using hm(3) by auto
  have few: "length fs \<le> max_headers" using fs(3) by (simp add: max_headers_def)
  have asks: "asks_upgrade (\<lambda>n. first_value n fs)" and k: "first_value key_headername fs = Some (generate_key ht r)"
    using fs(4) vals wants_upgrade_literal visible_literals by (simp_all add: asks_upgrade_def websocket_headers_def)
  show ?thesis
    using hm(1) req vals(4,5) fs(1,2) u(4,5) few asks k
    by (intro exI[of _ ?req] exI[of _ path] exI[of _ u'] exI[of _ fs]) simp
qed

lemma opening_exchange_behind:
  assumes "connectable ht u" "r \<noteq> []"
  shows "\<exists>buf. \<forall>chunks later. concat chunks = buf \<longrightarrow>
    (\<exists>server. mem_accept ht (chunks @ later) sc h = Ok server \<and> opened Server sc (concat later) server
      \<and> (\<forall>chunks' unread. concat chunks' = on_the_wire server @ unread \<longrightarrow>
           (\<exists>client resp. client_with_config (mem_client ht r) (From_Uri u) (mem_stream chunks') cc g = Ok (client, resp)
              \<and> opened Client cc unread client \<and> on_the_wire client = buf)))"
proof -
  obtain req path u' fs where rq: "(request_of_uri ht r u :: (('h, 'x) hs_error, ('h, 'u) http_request) res) = Ok req"
    "request_ok ht req" "hm_get ht key_headername (rq_headers req) = Some (generate_key ht r)"
    "hm_get ht (ascii ''Sec-WebSocket-Protocol'') (rq_headers req) = None"
    "(generate_request ht req :: (('h, 'x) hs_error, bytes) res) = Ok (request_text path fs)"
    and t: "target_ok path" "uri_parse ht path = Ok u'" and fs: "\<forall>f \<in> set fs. field_ok f" "length fs \<le> max_headers"
    and asks: "asks_upgrade (\<lambda>n. first_value n fs)" "first_value key_headername fs = Some (generate_key ht r)"
    using uri_request_facts[OF assms, where ?'r = "'h client_response"] by blast
  show ?thesis
  proof (intro exI[of _ "request_text path fs"] allI impI)
    fix chunks later assume "concat chunks = request_text path fs"
    from server_answers_then[OF this fs t asks, of later sc h] obtain fr es
      where s: "server_handshake ht (mem_transport :: (mem_io, unit, ('h, 'x) hs_error) transport) mem_next no_callback (mem_stream (chunks @ later)) sc h
          = (Ok (from_framed_read fr Server sc h), fr)"
        "fr_buffer fr = []" "concat (mem_in (fr_io fr)) = concat later" "mset es = mset (accept_fields ht (generate_key ht r))"
        "mem_out (fr_io fr) = response_text (ht_show_status ht 101) es"
      by blast
    let ?server = "from_framed_read fr Server sc h"
    have wire: "on_the_wire ?server = response_text (ht_show_status ht 101) es"
      using s(5) by (simp add: on_the_wire_def codec_get_io_def from_framed_read_simps)
    have client: "\<exists>client resp. client_with_config (mem_client ht r) (From_Uri u) (mem_stream chunks') cc g = Ok (client, resp)
              \<and> opened Client cc unread client \<and> on_the_wire client = request_text path fs"
      if "concat chunks' = on_the_wire ?server @ unread" for chunks' unread
    proof -
      from client_completes[OF rq(2,4,3,5) s(4) that[unfolded wire], of cc g] obtain fr' resp
        where c: "client_handshake ht (mem_transport :: (mem_io, unit, ('h, 'x) hs_error) transport) mem_next req cc g (mem_stream chunks')
            = (Ok (from_framed_read fr' Client cc g, resp), fr')"
          "mem_out (fr_io fr') = request_text path fs" "fr_buffer fr' @ concat (mem_in (fr_io fr')) = unread"
        by auto
      then show ?thesis
        using opened_framed[OF c(3)] rq(1)
        by (simp add: client_with_config_def mem_client_def on_the_wire_def codec_get_io_def from_framed_read_simps)
    qed
    have "mem_accept ht (chunks @ later) sc h = Ok ?server"
      using s(1) by (simp add: mem_accept_def accept_with_config_def accept_hdr_with_config_def)
    moreover have "opened Server sc (concat later) ?server" using s(2,3) by (simp add: opened_framed)
    ultimately show "\<exists>server. mem_accept ht (chunks @ later) sc h = Ok server \<and> opened Server sc (concat later) server
      \<and> (\<forall>chunks' unread. concat chunks' = on_the_wire server @ unread \<longrightarrow>
           (\<exists>client resp. client_with_config (mem_client ht r) (From_Uri u) (mem_stream chunks') cc g = Ok (client, resp)
              \<and> opened Client cc unread client \<and> on_the_wire client = request_text path fs))"
      using client by blast
  qed
qed


lemma opening_exchange:
  assumes "connectable ht u" "r \<noteq> []"
  shows "\<exists>buf. \<forall>chunks. concat chunks = buf \<longrightarrow>
    (\<exists>server. mem_accept ht chunks sc h = Ok server \<and> opened Server sc [] server
      \<and> (\<forall>chunks' unread. concat chunks' = on_the_wire server @ unread \<longrightarrow>
           (\<exists>client resp. client_with_config (mem_client ht r) (From_Uri u) (mem_stream chunks') cc g = Ok (client, resp)
              \<and> opened Client cc unread client \<and> on_the_wire client = buf)))"
proof -
  obtain buf where buf: "\<And>chunks later. concat chunks = buf \<Longrightarrow>
    \<exists>server. mem_accept ht (chunks @ later) sc h = Ok server \<and> opened Server sc (concat later) server
      \<and> (\<forall>chunks' unread. concat chunks' = on_the_wire server @ unread \<longrightarrow>
           (\<exists>client resp. client_with_config (mem_client ht r) (From_Uri u) (mem_stream chunks') cc g = Ok (client, resp)
              \<and> opened Client cc unread client \<and> on_the_wire client = buf))"
    using opening_exchange_behind[OF assms, of sc h cc g] by blast
  show ?thesis by (intro exI[of _ buf] allI impI) (rule buf[where later = "[]", unfolded append_Nil2 concat.simps(1)])
qed

end

section \<open>Too little and too much\<close>

lemma mem_drive_cut:
  fixes dec :: "(unit, ('r, 'x) error, 'f) decoding"
  assumes "\<And>i. i < length msg \<Longrightarrow> dec () (take i msg) = (Ok Insufficient, (), take i msg)"
    and "j < length msg" "b @ concat cs = take j msg"
  shows "mem_drive dec () b cs = (if j = 0 then None else Some (Err (Io mem_eof_error)), (), take j msg, [])"
  using assms(3)
proof (induction cs arbitrary: b)
  case Nil
  then show ?case using assms(1)[OF assms(2)] assms(2) by (subst mem_drive.simps) auto
next
  case (Cons c cs)
  have b: "b = take (length b) msg" "length b \<le> j"
    using arg_cong[OF Cons.prems, of "take (length b)"] arg_cong[OF Cons.prems, of length] assms(2) by (auto simp: min_def split: if_splits)
  then have "dec () b = (Ok Insufficient, (), b)"
    using assms(1)[of "length b"] assms(2) by simp
  then have "mem_drive dec () b (c # cs) = mem_drive dec () (b @ c) cs" by (subst mem_drive.simps) simp
  then show ?case using Cons.IH[of "b @ c"] Cons.prems by simp
qed

definition cut_error :: "nat \<Rightarrow> ('r, 'x) error" where
  "cut_error j = (if j = 0 then Protocol HandshakeIncomplete else Io mem_eof_error)"

text \<open>One piece with a whole head in it is yielded at once, with all of it in the buffer.\<close>

lemma mem_drive_whole:
  fixes dec :: "(unit, ('r, 'x) error, 'f) decoding"
  assumes "dec () (msg @ more_bytes) = (Ok (Decoded x), (), msg @ more_bytes)" "dec () [] = (Ok Insufficient, (), [])"
  shows "mem_drive dec () [] [msg @ more_bytes] = (Some (Ok x), (), msg @ more_bytes, [])"
proof -
  have "mem_drive dec () [] [msg @ more_bytes] = mem_drive dec () (msg @ more_bytes) []"
    using assms(2) by (subst mem_drive.simps) simp
  also have "\<dots> = (Some (Ok x), (), msg @ more_bytes, [])"
    using assms(1) by (subst mem_drive.simps) simp
  finally show ?thesis .
qed

lemma mem_next_whole:
  fixes dec :: "(unit, ('r, 'x) error, 'f) decoding"
  assumes "dec () (msg @ more_bytes) = (Ok (Decoded x), (), msg @ more_bytes)" "dec () [] = (Ok Insufficient, (), [])"
  shows "mem_next dec (framed_new (mem_transport :: (mem_io, unit, ('r, 'x) error) transport) (mem_stream [msg @ more_bytes]) ())
    = (Some (Ok x), \<lparr>fr_io = mem_stream [], fr_decoder = (), fr_buffer = msg @ more_bytes, fr_aux = ()\<rparr>)"
  using mem_drive_whole[where dec = dec, OF assms] by (simp add: mem_next_def framed_new_def mem_stream_def mem_transport_def)

context http_messages
begin

lemma server_cut:
  assumes fs: "\<forall>f \<in> set fs. field_ok f" "length fs \<le> max_headers" and t: "target_ok t" "uri_parse ht t = Ok u"
    and "concat chunks = take j (request_text t fs)" "j < length (request_text t fs)"
  shows "\<exists>fr. server_handshake ht (mem_transport :: (mem_io, unit, ('h, 'x) hs_error) transport) mem_next cb (mem_stream chunks) c g
    = (Err (cut_error j) :: (('h, 'x) hs_error, mem_socket) res, fr) \<and> mem_out (fr_io fr) = []"
proof -
  let ?fr0 = "framed_new (mem_transport :: (mem_io, unit, ('h, 'x) hs_error) transport) (mem_stream chunks) ()"
  have "\<And>i. i < length (request_text t fs) \<Longrightarrow> request_decode ht () (take i (request_text t fs))
      = (Ok Insufficient :: (('h, 'x) hs_error, _) res, (), take i (request_text t fs))"
    using request_decode_text[OF fs t, where ?'r = "'h client_response"] by blast
  note cut = mem_drive_cut[where dec = "request_decode ht :: (unit, ('h, 'x) hs_error, _) decoding", OF this assms(6), of "[]" chunks]
  show ?thesis
    using cut assms(5)
    by (simp add: server_handshake_def mem_next_def framed_new_def mem_stream_def cut_error_def)
qed

lemma client_cut:
  assumes "request_ok ht req" "(generate_request ht req :: (('h, 'x) hs_error, bytes) res) = Ok buf"
    and fs: "\<forall>f \<in> set fs. field_ok f" "length fs \<le> max_headers"
    and "concat chunks = take j (response_text (ht_show_status ht 101) fs)" "j < length (response_text (ht_show_status ht 101) fs)"
  shows "fst (client_handshake ht (mem_transport :: (mem_io, unit, ('h, 'x) hs_error) transport) mem_next req c g (mem_stream chunks))
    = (Err (cut_error j) :: (('h, 'x) hs_error, (mem_io, unit, 'g) websocket \<times> 'h client_response) res)"
proof -
  have "\<And>i. i < length (response_text (ht_show_status ht 101) fs) \<Longrightarrow> response_decode ht () (take i (response_text (ht_show_status ht 101) fs))
      = (Ok Insufficient :: (('h, 'x) hs_error, _) res, (), take i (response_text (ht_show_status ht 101) fs))"
    using response_decode_text[OF fs, where ?'r = "'h client_response"] by blast
  note cut = mem_drive_cut[where dec = "response_decode ht :: (unit, ('h, 'x) hs_error, _) decoding", OF this assms(6), of "[]" chunks]
  have "(client_checks ht req :: (('h, 'x) hs_error, verify_data) res) = Ok (expected_response ht req)"
    using assms(1) by (simp add: client_checks_Ok)
  then show ?thesis
    using cut assms(2,5)
    by (simp add: client_handshake_def mem_next_def framed_new_def mem_stream_def cut_error_def fr_mem_write)
qed

lemma server_junk:
  assumes fs: "\<forall>f \<in> set fs. field_ok f" "length fs \<le> max_headers" and t: "target_ok t" "uri_parse ht t = Ok u"
    and "junk \<noteq> []"
  shows "\<exists>fr. server_handshake ht (mem_transport :: (mem_io, unit, ('h, 'x) hs_error) transport) mem_next cb
      (mem_stream [request_text t fs @ junk]) c g
    = (Err (Protocol JunkAfterRequest) :: (('h, 'x) hs_error, mem_socket) res, fr) \<and> mem_out (fr_io fr) = []"
proof -
  have "request_text t fs \<noteq> []" by (simp add: request_text_def ascii_def)
  then obtain h where "(request_decode ht :: (unit, ('h, 'x) hs_error, _) decoding) () [] = (Ok Insufficient, (), [])"
    "(request_decode ht :: (unit, ('h, 'x) hs_error, _) decoding) () (request_text t fs @ junk) = (Ok (Decoded (length (request_text t fs),
         \<lparr>rq_method = ascii ''GET'', rq_uri = u, rq_version = HTTP_11, rq_headers = h\<rparr>)), (), request_text t fs @ junk)"
    using request_decode_text[OF fs t, where ?'r = "'h client_response"] by (metis length_greater_0_conv take0)
  from mem_next_whole[where dec = "request_decode ht :: (unit, ('h, 'x) hs_error, _) decoding" and msg = "request_text t fs", OF this(2,1)] show ?thesis
    using assms(5) by (simp add: server_handshake_def mem_stream_def)
qed

lemma request_roundtrip:
  assumes "uri_path_and_query ht (rq_uri req) = Some path" "rq_version req = HTTP_11"
    and "\<forall>n \<in> set websocket_headers. hm_get ht n (rq_headers req) \<noteq> None" "headers_ok ht (rq_headers req)"
    and few: "length (hm_entries ht (rq_headers req)) + 5 \<le> max_headers" and t: "target_ok path" "uri_parse ht path = Ok u"
  shows "\<exists>buf h. generate_request ht req = (Ok buf :: (('r, 'x) error, bytes) res)
    \<and> (\<forall>j < length buf. request_decode ht () (take j buf) = (Ok Insufficient :: (('r, 'x) error, _) res, (), take j buf))
    \<and> (\<forall>rest. request_decode ht () (buf @ rest) = (Ok (Decoded (length buf,
          \<lparr>rq_method = ascii ''GET'', rq_uri = u, rq_version = HTTP_11, rq_headers = h\<rparr>)) :: (('r, 'x) error, _) res, (), buf @ rest))
    \<and> (\<forall>n \<in> set websocket_headers. hm_get ht n h = hm_get ht n (rq_headers req))"
proof -
  obtain fs where fs: "(generate_request ht req :: (('r, 'x) error, bytes) res) = Ok (request_text path fs)"
    "\<forall>f \<in> set fs. field_ok f" "length fs \<le> max_headers" "\<forall>n \<in> set websocket_headers. first_value n fs = hm_get ht n (rq_headers req)"
    using generate_request_ok[OF assms(1-4), where ?'r = 'r] few by auto
  obtain h where h: "(headers_from_httparse ht fs :: (('r, 'x) error, 'h) res) = Ok h"
    "\<forall>j < length (request_text path fs). request_decode ht () (take j (request_text path fs))
       = (Ok Insufficient :: (('r, 'x) error, _) res, (), take j (request_text path fs))"
    "\<forall>rest. request_decode ht () (request_text path fs @ rest) = (Ok (Decoded (length (request_text path fs),
          \<lparr>rq_method = ascii ''GET'', rq_uri = u, rq_version = HTTP_11, rq_headers = h\<rparr>)) :: (('r, 'x) error, _) res, (), request_text path fs @ rest)"
    using request_decode_text[OF fs(2,3) t, where ?'r = 'r] by blast
  have "\<forall>n \<in> set websocket_headers. hm_get ht n h = hm_get ht n (rq_headers req)"
    using fs(4) headers_from_httparse_get[OF h(1)] by simp
  then show ?thesis using fs(1) h(2,3) by blast
qed

end

end
