(* ===== verification/Opening_Theorems.thy ===== *)
theory Opening_Theorems
  imports Opening
begin

text \<open>
  What the opening handshake guarantees to each side, and what it refuses: the properties of
  the client's and the server's part, of the request and of the streams they run over.
\<close>

section \<open>The client\<close>

text \<open>C20. The client's handshake never panics, whatever arrives and whatever the transport does;
  if it completes, the request was one of a WebSocket and was sent whole, and the response is
  a switch of protocols with the accept key of the request's key and a subprotocol that was
  asked for, or none when none was.\<close>

theorem client_opening_sound:
  fixes nx :: "('s, 'q, ('h, 'x) hs_error, nat \<times> 'h client_response) next_op"
  assumes "http_laws ht" "opening_io tr sent nx" "client_handshake ht tr nx req config g stream = (r, fr)"
  shows "r \<noteq> Panic \<and> (\<forall>ws resp. r = Ok (ws, resp) \<longrightarrow> request_ok ht req \<and> response_ok ht (expected_response ht req) resp
    \<and> ws = from_framed_read fr Client config g
    \<and> (\<exists>buf. generate_request ht req = (Ok buf :: (('h, 'x) hs_error, bytes) res) \<and> sent (fr_io fr) = sent stream @ buf))"
  using assms by (rule client_handshake_ok)

text \<open>A request whose URI is none of a WebSocket, and a peer that sends anything.\<close>

definition plain_request :: "((bytes \<times> bytes) list, std_uri) http_request" where
  "plain_request = \<lparr>rq_method = ascii ''GET'', rq_uri = \<lparr>su_scheme = Some (ascii ''http''), su_authority = None, su_path = None\<rparr>,
     rq_version = HTTP_11, rq_headers = []\<rparr>"

lemma client_opening_sound_witness:
  "\<exists>e. fst (client_handshake std_http (mem_transport :: (mem_io, unit, ((bytes \<times> bytes) list, unit) hs_error) transport)
       mem_next plain_request None () (mem_stream [[1, 2]])) = Err e"
proof -
  let ?run = "client_handshake std_http (mem_transport :: (mem_io, unit, ((bytes \<times> bytes) list, unit) hs_error) transport)
       mem_next plain_request None () (mem_stream [[1, 2]])"
  have "\<not> request_ok std_http plain_request" by (simp add: request_ok_def plain_request_def std_http_def ascii_def)
  then show ?thesis
    using client_opening_sound[OF std.http_laws_axioms mem_opening.opening_io_axioms surjective_pairing[of ?run]]
    by (cases "fst ?run") auto
qed

text \<open>C23. What the client does with a complete response, by the response: a connection on a switch of
  protocols that answers the request, keeping the bytes behind it; an HTTP error that carries
  the response and the bytes behind it on any other status; otherwise an error.\<close>

theorem response_decision:
  fixes ht :: "('h, 'u, 'x) http"
  assumes "http_laws ht" "sz \<le> length (fr_buffer fr)"
  shows "\<exists>fr'. fr' = fr\<lparr>fr_buffer := drop sz (fr_buffer fr)\<rparr>
    \<and> (if response_ok ht vd resp then client_accept ht vd config g sz resp fr = (Ok (from_framed_read fr' Client config g, resp), fr')
       else if rs_status resp \<noteq> 101
       then client_accept ht vd config g sz resp fr = (Err (Http (resp\<lparr>rs_body := Some (fr_buffer fr')\<rparr>)), fr')
       else \<exists>e. client_accept ht vd config g sz resp fr = (Err e, fr') \<and> (\<forall>q. e \<noteq> Http q))"
proof (cases "response_ok ht vd resp")
  case True
  then have "verify_response ht vd resp = Ok resp" using http_laws.verify_response_Ok[OF assms(1)] by blast
  then show ?thesis using True assms(2) by (simp add: client_accept_def Let_def)
next
  case False
  then have "verify_response ht vd resp \<noteq> Ok q" "verify_response ht vd resp \<noteq> Panic" for q
    using http_laws.verify_response_Ok[OF assms(1)] http_laws.verify_response_no_panic[OF assms(1)] by blast+
  then obtain e where e: "verify_response ht vd resp = Err e" by (metis res.exhaust)
  show ?thesis
  proof (cases "rs_status resp = 101")
    case True
    then have "\<forall>q. e \<noteq> Http q" using e http_laws.verify_response_Http[OF assms(1)] by blast
    then show ?thesis using True False e assms(2) by (cases e) (simp_all add: client_accept_def Let_def)
  next
    case status: False
    then have "e = Http resp" using e http_laws.verify_response_Http[OF assms(1), of vd resp resp] by simp
    then show ?thesis using status False e assms(2) by (simp add: client_accept_def Let_def)
  qed
qed

lemma response_decision_witness:
  "fst (client_accept std_http \<lparr>vd_accept_key = [], vd_subprotocols = None\<rparr> None () 1
      \<lparr>rs_status = 404, rs_version = HTTP_11, rs_headers = [], rs_body = None\<rparr>
      \<lparr>fr_io = mem_stream [], fr_decoder = (), fr_buffer = [1, 2, 3], fr_aux = ()\<rparr>)
    = Err (Http \<lparr>rs_status = 404, rs_version = HTTP_11, rs_headers = [], rs_body = Some [2, 3]\<rparr>)"
  using response_decision[OF std.http_laws_axioms, where sz = 1 and vd = "\<lparr>vd_accept_key = [], vd_subprotocols = None\<rparr>"
      and resp = "\<lparr>rs_status = 404, rs_version = HTTP_11, rs_headers = [], rs_body = None\<rparr>" and config = None and g = "()"
      and fr = "\<lparr>fr_io = mem_stream [], fr_decoder = (), fr_buffer = [1, 2, 3], fr_aux = ()\<rparr>"]
  by (simp add: response_ok_def)

text \<open>A client whose peer ends the stream within the response gets an error, never a connection:
  the handshake is incomplete when nothing has come, and the rest is missing otherwise.\<close>

theorem cut_response_refused:
  fixes ht :: "('h, 'u, 'x) http"
  assumes "http_messages ht" "request_ok ht req" "generate_request ht req = (Ok buf :: (('h, 'x) hs_error, bytes) res)"
    and "\<forall>f \<in> set fs. field_ok f" "length fs \<le> max_headers"
    and "concat chunks = take j (response_text (ht_show_status ht 101) fs)" "j < length (response_text (ht_show_status ht 101) fs)"
  shows "fst (client_handshake ht (mem_transport :: (mem_io, unit, ('h, 'x) hs_error) transport) mem_next req c g (mem_stream chunks))
    = (Err (if j = 0 then Protocol HandshakeIncomplete else Io mem_eof_error)
       :: (('h, 'x) hs_error, (mem_io, unit, 'g) websocket \<times> 'h client_response) res)"
  by (rule http_messages.client_cut[OF assms, unfolded cut_error_def])

lemma chat_uri_request:
  "\<exists>req buf. request_ok std_http req
    \<and> generate_request std_http req = (Ok buf :: (((bytes \<times> bytes) list, unit) hs_error, bytes) res)"
proof -
  have "connectable std_http \<lparr>su_scheme = Some (ascii ''ws''), su_authority = Some (ascii ''host''), su_path = Some (ascii ''/'')\<rparr>"
    by (simp add: std_uri_parse_def connectable_def ws_scheme_def uri_names_host_def authority_host_def
        std_http_def ascii_def field_ok_def token_def token_char_def visible_def is_ascii_space_def target_ok_def)
  from std.uri_request_facts[OF this, of "[1]", where ?'r = "((bytes \<times> bytes) list) client_response"] show ?thesis by auto
qed

lemma cut_response_refused_witness:
  "\<exists>req. fst (client_handshake std_http (mem_transport :: (mem_io, unit, ((bytes \<times> bytes) list, unit) hs_error) transport) mem_next
       req None () (mem_stream [ascii ''HTTP/'', ascii ''1.1'']))
     = Err (Io mem_eof_error)"
proof -
  obtain req buf where req: "request_ok std_http req"
    "generate_request std_http req = (Ok buf :: (((bytes \<times> bytes) list, unit) hs_error, bytes) res)"
    using chat_uri_request by blast
  have "concat [ascii ''HTTP/'', ascii ''1.1''] = take 8 (response_text (ht_show_status std_http 101) [])"
    by (simp add: response_text_def ascii_def)
  from cut_response_refused[OF std.http_messages_axioms req _ _ this, of None "()"]
  show ?thesis by (auto simp: response_text_def ascii_def)
qed

section \<open>The server\<close>





text \<open>C29. A server answers one whole request and nothing else: if the stream ends within the request,
  or bytes follow the request in the piece that completes it, it reports an error and sends
  nothing.\<close>

theorem one_whole_request:
  fixes ht :: "('h, 'u, 'x) http"
  assumes "http_messages ht" "\<forall>f \<in> set fs. field_ok f" "length fs \<le> max_headers" "target_ok t" "uri_parse ht t = Ok u"
    and "concat chunks = take j (request_text t fs) \<and> j < length (request_text t fs) \<and> e = cut_error j
      \<or> chunks = [request_text t fs @ junk] \<and> junk \<noteq> [] \<and> e = Protocol JunkAfterRequest"
  shows "\<exists>fr. server_handshake ht (mem_transport :: (mem_io, unit, ('h, 'x) hs_error) transport) mem_next cb (mem_stream chunks) c g
    = (Err e :: (('h, 'x) hs_error, mem_socket) res, fr) \<and> mem_out (fr_io fr) = []"
  using http_messages.server_cut[OF assms(1-5)] http_messages.server_junk[OF assms(1-5)] assms(6) by blast

lemma one_whole_request_witness:
  "fst (server_handshake std_http (mem_transport :: (mem_io, unit, ((bytes \<times> bytes) list, unit) hs_error) transport) mem_next
      no_callback (mem_stream [request_text (ascii ''/'') [] @ [0x81, 0]]) None (0, 0, 0, 0))
    = (Err (Protocol JunkAfterRequest) :: (_, mem_socket) res)"
proof -
  have "target_ok (ascii ''/'')" "uri_parse std_http (ascii ''/'') = Ok \<lparr>su_scheme = None, su_authority = None, su_path = Some (ascii ''/'')\<rparr>"
    by (simp_all add: target_ok_def std_http_def std_uri_parse_def ascii_def)
  from one_whole_request[OF std.http_messages_axioms _ _ this, where fs = "[]" and junk = "[0x81, 0]" and e = "Protocol JunkAfterRequest"
      and chunks = "[request_text (ascii ''/'') [] @ [0x81, 0]]" and cb = no_callback and c = None and g = "(0, 0, 0, 0)"]
  show ?thesis by auto
qed

section \<open>The request\<close>

lemma authority_host_user: "64 \<notin> set user \<Longrightarrow> authority_host (user @ 64 # host) = host"
  "64 \<notin> set host \<Longrightarrow> authority_host host = host"
proof -
  have "64 \<notin> set user \<Longrightarrow> after_at (user @ 64 # host) = Some host" by (induction user) auto
  moreover have "64 \<notin> set host \<Longrightarrow> after_at host = None" by (induction host) auto
  ultimately show "64 \<notin> set user \<Longrightarrow> authority_host (user @ 64 # host) = host"
    "64 \<notin> set host \<Longrightarrow> authority_host host = host" by (simp_all add: authority_host_def)
qed







section \<open>Protection\<close>

text \<open>C22. A client connection that comes about through the entry points that may use TLS has made its
  handshake over a TLS stream exactly when the URI asks for it: \<open>wss\<close> never falls back to a
  plain stream, with any features, connector and behaviour of the network.\<close>

theorem tls_exactly_for_wss:
  fixes ce :: "('h, 'u, ('s, 'n, 't) maybe_tls_stream, 'q, 'x) client_env"
  assumes "connect_tls_with_config ft ta ce net src config nd conn g = Ok c
    \<or> connect_with_config ft ta ce net src config nd g = Ok c
    \<or> client_tls_with_config ft ta ce src stream config conn g = Ok c"
  shows "\<exists>req s. into_client_request (ce_http ce) (ce_random ce) src = (Ok req :: (('h, 'x) hs_error, ('h, 'u) http_request) res)
    \<and> ws_scheme (ce_http ce) (rq_uri req)
    \<and> (protected s \<longleftrightarrow> uri_scheme (ce_http ce) (rq_uri req) = Some (ascii ''wss''))
    \<and> fst (client_handshake (ce_http ce) (ce_transport ce) (ce_next ce) req config g s) = Ok c"
proof -
  have "\<exists>s. completed_over ce src config g s (Ok c)" using assms by (auto dest: connect_over client_tls_over)
  then obtain s req m where r: "into_client_request (ce_http ce) (ce_random ce) src = (Ok req :: (('h, 'x) hs_error, ('h, 'u) http_request) res)"
    "uri_mode (ce_http ce) (rq_uri req) = (Ok m :: (('h, 'x) hs_error, mode) res)" "protected s \<longleftrightarrow> m = Mode_Tls"
    "fst (client_handshake (ce_http ce) (ce_transport ce) (ce_next ce) req config g s) = Ok c"
    by (auto simp: completed_over_def)
  have "ascii ''ws'' \<noteq> ascii ''wss''" by (simp add: ascii_def)
  then have "ws_scheme (ce_http ce) (rq_uri req) \<and> (m = Mode_Tls \<longleftrightarrow> uri_scheme (ce_http ce) (rq_uri req) = Some (ascii ''wss''))"
    using r(2) by (auto simp: uri_mode_def ws_scheme_def split: option.splits if_splits)
  then show ?thesis using r by blast
qed

text \<open>A network on which everything succeeds and the server answers as it should.\<close>

type_synonym std_headers = "(bytes \<times> bytes) list"

definition good_answer :: "std_headers client_response" where
  "good_answer = \<lparr>rs_status = 101, rs_version = HTTP_11,
     rs_headers = accept_fields std_http (generate_key std_http [1]), rs_body = None\<rparr>"

definition good_env :: "(std_headers, std_uri, (unit, unit, unit) maybe_tls_stream, unit, unit) client_env" where
  "good_env = \<lparr>ce_http = std_http,
     ce_transport = \<lparr>io_write_all = (\<lambda>bs s. (Ok (), s)), io_flush = (\<lambda>s. (Ok (), s)), io_shutdown = (\<lambda>s. (Ok (), s)),
       framed_next = (\<lambda>dec fr. (None, fr)), framed_start = ()\<rparr>,
     ce_next = (\<lambda>dec fr. (Some (Ok (0, good_answer)), fr)), ce_random = [1]\<rparr>"

definition good_tls :: "(unit, unit, unit, unit, unit, unit, unit, unit) tls" where
  "good_tls = \<lparr>native_new = Ok (), native_connect = (\<lambda>_ _ _. Ok ()), load_native_certs = ([], []), webpki_roots = [],
     parsable_certs = id, rustls_of_roots = (\<lambda>_. ()), server_name = (\<lambda>_. Some ()), rustls_connect = (\<lambda>_ _ _. Ok ())\<rparr>"

definition good_net :: "unit tcp" where
  "good_net = \<lparr>tcp_connect = (\<lambda>_ _. Ok ()), tcp_set_nodelay = (\<lambda>_. Ok ())\<rparr>"

definition native_only :: features where
  "native_only = \<lparr>ft_native_tls = True, ft_rustls = False, ft_native_roots = False, ft_webpki_roots = False\<rparr>"

definition secure_uri :: std_uri where
  "secure_uri = \<lparr>su_scheme = Some (ascii ''wss''), su_authority = Some (ascii ''host''), su_path = Some (ascii ''/'')\<rparr>"

lemma secure_uri_connects:
  "\<exists>c. connect_with_config native_only good_tls good_env good_net (From_Uri secure_uri) None True () = Ok c"
proof -
  have "connectable std_http secure_uri"
    by (simp add: secure_uri_def std_uri_parse_def connectable_def ws_scheme_def uri_names_host_def authority_host_def
        std_http_def ascii_def field_ok_def token_def token_char_def visible_def is_ascii_space_def target_ok_def)
  then obtain req buf where req: "request_of_uri std_http [1] secure_uri = (Ok req :: ((std_headers, unit) hs_error, _) res)"
    "request_ok std_http req" "rq_uri req = secure_uri"
    "hm_get std_http key_headername (rq_headers req) = Some (generate_key std_http [1])"
    "hm_get std_http (ascii ''Sec-WebSocket-Protocol'') (rq_headers req) = None"
    "(generate_request std_http req :: ((std_headers, unit) hs_error, bytes) res) = Ok buf"
    using std.uri_request_facts[of secure_uri "[1]", where ?'r = "std_headers client_response"] by blast
  have chk: "(client_checks std_http req :: ((std_headers, unit) hs_error, verify_data) res) = Ok (expected_response std_http req)"
    using req(2) by (simp add: http_laws.client_checks_Ok[OF std.http_laws_axioms])
  have "hm_get std_http n (rs_headers good_answer) = first_value n (accept_fields std_http (generate_key std_http [1]))" for n
    by (simp add: good_answer_def std_http_def std_get_def std_entries_def first_value_def)
  then have "response_ok std_http (expected_response std_http req) good_answer"
    using req(4,5) visible_literals response_names(4-7) std.accept_fields_ok(3)[OF refl]
    by (simp add: response_ok_def header_is_def expected_response_def subprotocol_ok_def key_headername_def)
      (simp add: good_answer_def lower_def ascii_def to_lower_def)
  then have ver: "verify_response std_http (expected_response std_http req) good_answer = Ok good_answer"
    by (simp add: http_laws.verify_response_Ok[OF std.http_laws_axioms])
  have uri: "uri_mode std_http secure_uri = (Ok Mode_Tls :: ((std_headers, unit) hs_error, mode) res)"
    "uri_host std_http secure_uri = Some (ascii ''host'')" "uri_port std_http secure_uri = None"
    by (simp_all add: uri_mode_def std_http_def secure_uri_def std_uri_host_def std_uri_port_def std_host_port_def ascii_def)
  have "\<exists>c. fst (client_handshake std_http (ce_transport good_env) (ce_next good_env) req None () (Native_Tls_Stream ())) = Ok c"
    by (simp add: client_handshake_def chk req(6) good_env_def fr_write_all_def fr_flush_def lift_io_def framed_new_def client_accept_def ver Let_def)
  then show ?thesis
    by (simp add: connect_with_config_def client_tls_with_config_def client_with_config_def prepare_tcp_stream_def wrap_stream_def
        native_wrap_stream_def native_default_connector_def good_tls_def good_net_def native_only_def any_tls_def req(1,3) uri)
      (simp add: good_env_def req(1,3) uri native_default_connector_def)
qed

lemma tls_exactly_for_wss_witness:
  "\<exists>req s c. request_of_uri std_http [1] secure_uri = (Ok req :: ((std_headers, unit) hs_error, _) res) \<and> protected s
    \<and> fst (client_handshake std_http (ce_transport good_env) (ce_next good_env) req None () s) = Ok c"
proof -
  obtain c where c: "connect_with_config native_only good_tls good_env good_net (From_Uri secure_uri) None True () = Ok c"
    using secure_uri_connects by blast
  have env: "ce_http good_env = std_http" "ce_random good_env = [1]" by (simp_all add: good_env_def)
  obtain req s where r: "request_of_uri std_http [1] secure_uri = (Ok req :: ((std_headers, unit) hs_error, _) res)"
    "protected s \<longleftrightarrow> uri_scheme std_http (rq_uri req) = Some (ascii ''wss'')"
    "fst (client_handshake std_http (ce_transport good_env) (ce_next good_env) req None () s) = Ok c"
    using tls_exactly_for_wss[OF disjI2[OF disjI1[OF c]]] env by auto
  have "rq_uri req = secure_uri"
    using r(1) by (auto simp: request_of_uri_def outcome_simps Let_def split: option.splits if_splits)
  then show ?thesis using r by (auto simp: std_http_def secure_uri_def)
qed

text \<open>C30. The address TCP connects to has the brackets of an IPv6 host stripped, but the name given to
  rustls keeps them: where rustls takes no bracketed name, \<open>wss\<close> to such a host fails with an
  invalid DNS name, and the network has been used before.\<close>

theorem rustls_refuses_bracketed:
  fixes ce :: "('h, 'u, ('s, 'n, 't) maybe_tls_stream, 'q, 'x) client_env"
  assumes "into_client_request (ce_http ce) (ce_random ce) src = (Ok req :: (('h, 'x) hs_error, ('h, 'u) http_request) res)"
    and "uri_scheme (ce_http ce) (rq_uri req) = Some (ascii ''wss'')" "uri_host (ce_http ce) (rq_uri req) = Some (91 # a @ [93])"
    and "uri_port (ce_http ce) (rq_uri req) = None" "any_tls ft" "server_name ta (91 # a @ [93]) = None"
  shows "connect_tls_with_config ft ta ce net src config nd (Some (Conn_Rustls c)) g
    = (case tcp_connect net a 443 of
         Ok s \<Rightarrow> bind_res (if nd then map_res Io id (tcp_set_nodelay net s) else Ok s) (\<lambda>_. Err (Tls InvalidDnsName))
       | Err e \<Rightarrow> Err (Io e) | Panic \<Rightarrow> Panic)"
proof -
  have mode: "uri_mode (ce_http ce) (rq_uri req) = (Ok Mode_Tls :: (('h, 'x) hs_error, mode) res)"
    using assms(2) by (simp add: uri_mode_def ascii_def)
  have "client_tls_with_config ft ta ce (From_Request req) stream config (Some (Conn_Rustls c)) g = Err (Tls InvalidDnsName)" for stream
    using assms(3,6) mode by (simp add: client_tls_with_config_def wrap_stream_def rustls_wrap_stream_def)
  moreover have "strip_brackets (91 # a @ [93]) = a" by (simp add: strip_brackets_def)
  ultimately show ?thesis
    using assms mode by (cases "tcp_connect net a 443") (simp_all add: connect_tls_with_config_def prepare_tcp_stream_def)
qed

text \<open>The local host, on the network on which everything else succeeds.\<close>

lemma rustls_refuses_bracketed_witness:
  "connect_tls_with_config (native_only\<lparr>ft_rustls := True\<rparr>) (good_tls\<lparr>server_name := (\<lambda>d. if 91 \<in> set d then None else Some ())\<rparr>)
      good_env good_net (From_Request \<lparr>rq_method = ascii ''GET'', rq_uri = \<lparr>su_scheme = Some (ascii ''wss''),
        su_authority = Some (ascii ''[::1]''), su_path = Some (ascii ''/'')\<rparr>, rq_version = HTTP_11, rq_headers = []\<rparr>)
      None False (Some (Conn_Rustls ())) ()
    = Err (Tls InvalidDnsName)"
proof -
  let ?u = "\<lparr>su_scheme = Some (ascii ''wss''), su_authority = Some (ascii ''[::1]''), su_path = Some (ascii ''/'')\<rparr>"
  let ?req = "\<lparr>rq_method = ascii ''GET'', rq_uri = ?u, rq_version = HTTP_11, rq_headers = []\<rparr>"
  let ?ta = "good_tls\<lparr>server_name := (\<lambda>d. if 91 \<in> set d then None else Some ())\<rparr>"
  let ?ft = "native_only\<lparr>ft_rustls := True\<rparr>"
  have env: "ce_http good_env = std_http" by (simp add: good_env_def)
  have src: "into_client_request (ce_http good_env) (ce_random good_env) (From_Request ?req)
      = (Ok ?req :: ((std_headers, unit) hs_error, (std_headers, std_uri) http_request) res)" by simp
  have scheme: "uri_scheme (ce_http good_env) (rq_uri ?req) = Some (ascii ''wss'')"
    by (simp add: env std_http_def)
  have host: "uri_host (ce_http good_env) (rq_uri ?req) = Some (91 # ascii ''::1'' @ [93])"
    by (simp add: env std_http_def std_uri_host_def std_host_port_def ascii_def)
  have port: "uri_port (ce_http good_env) (rq_uri ?req) = None"
    by (simp add: env std_http_def std_uri_port_def std_host_port_def ascii_def)
  have tls: "any_tls ?ft" "server_name ?ta (91 # ascii ''::1'' @ [93]) = None"
    by (simp_all add: any_tls_def native_only_def)
  from rustls_refuses_bracketed[OF src scheme host port tls, of good_net None False "()" "()"] show ?thesis
    by (simp add: good_net_def)
qed

end
