(* ===== verification/Session.thy ===== *)
theory Session
  imports Opening
begin

text \<open>
  Two connections over a pair of in-memory streams: turns in which one end writes and flushes
  messages, the other reads them, and the pongs it sends by itself are read by the first; the
  closing handshake, started by one end or by both at the same time. The bytes are handed over
  in any pieces.
\<close>

section \<open>Two ends\<close>

text \<open>What a connection has written since an earlier state of it.\<close>

definition since :: "mem_socket \<Rightarrow> mem_socket \<Rightarrow> bytes" where
  "since s s' = drop (length (on_the_wire s)) (on_the_wire s')"

text \<open>Nothing on its way, in or out; and open besides.\<close>

definition at_rest :: "mem_socket \<Rightarrow> bool" where
  "at_rest s \<longleftrightarrow> ws_inv s \<and> dec_header (ws_decoder s) = None \<and> pending_input s = [] \<and> fc_write_buf (ws_codec s) = []"

definition idle :: "mem_socket \<Rightarrow> bool" where
  "idle s \<longleftrightarrow> at_rest s \<and> ws_conn s = Active \<and> ws_incomplete s = None"

definition same_end :: "mem_socket \<Rightarrow> mem_socket \<Rightarrow> bool" where
  "same_end s s' \<longleftrightarrow> ws_role s' = ws_role s \<and> ws_config s' = ws_config s"

definition talking :: "mem_socket \<Rightarrow> mem_socket \<Rightarrow> bool" where
  "talking a b \<longleftrightarrow> idle a \<and> idle b \<and> ws_role b = peer (ws_role a)"

lemma idle_reading: "idle s \<longleftrightarrow> reading_at None s [] \<and> fc_write_buf (ws_codec s) = []"
  by (auto simp: idle_def at_rest_def reading_at_def)

lemma since_outgoing:
  assumes "fc_write_buf (ws_codec s) = []" "fc_write_buf (ws_codec s') = []" "ws_outgoing mem_out s' = ws_outgoing mem_out s @ bs"
  shows "since s s' = bs"
  using assms by (simp add: since_def wire_outgoing)

text \<open>A new connection over the in-memory transport.\<close>

definition mem_connection :: "bytes list \<Rightarrow> role \<Rightarrow> websocket_config option \<Rightarrow> mask4 \<Rightarrow> mem_socket" where
  "mem_connection chunks rl c g =
     from_raw_socket (mem_transport :: (mem_io, unit, (unit, unit) error) transport) \<lparr>mem_in = chunks, mem_out = []\<rparr> rl c g"

lemma mem_connection_reading:
  assumes "limits_ok (config_or_default c)" "concat chunks = concat (map (frame_bytes aligned_le) fs)"
  shows "reading_at None (mem_connection chunks rl c g) fs"
  using assms new_connection_inv(1)[OF assms(1)]
  by (simp add: reading_at_def mem_connection_def from_raw_socket_simps pending_input_def codec_get_io_def)

lemma mem_connection_simps [simp]:
  "ws_role (mem_connection chunks rl c g) = rl" "ws_config (mem_connection chunks rl c g) = config_or_default c"
  "ws_conn (mem_connection chunks rl c g) = Active" "ws_incomplete (mem_connection chunks rl c g) = None"
  "fc_write_buf (ws_codec (mem_connection chunks rl c g)) = []" "ws_outgoing mem_out (mem_connection chunks rl c g) = []"
  "pending_input (mem_connection chunks rl c g) = concat chunks" "dec_header (ws_decoder (mem_connection chunks rl c g)) = None"
  by (simp_all add: mem_connection_def from_raw_socket_simps pending_input_def codec_get_io_def)

lemma peer_peer [simp]: "peer (peer rl) = rl"
  by (cases rl) simp_all

lemma mem_connection_idle: "limits_ok (config_or_default c) \<Longrightarrow> idle (mem_connection [] rl c g)"
  using mem_connection_reading[of c "[]" "[]" rl g] by (simp add: idle_reading)

lemma mem_connection_arrive: "mem_connection cs rl c g = arrive cs (mem_connection [] rl c g)"
  by (simp add: mem_connection_def arrive_def from_raw_socket_def ws_setup_def codec_new_def framed_new_def Let_def
      codec_update_decoder_def codec_get_io_def codec_set_io_def)

lemma on_the_wire_new [simp]: "on_the_wire (mem_connection [] rl c g) = []" "since (mem_connection [] rl c g) s = on_the_wire s"
  by (simp_all add: wire_outgoing since_def)

text \<open>One turn. \<open>cuts\<close> is how the streams cut what they hand over.\<close>

definition say ::
  "(bytes \<Rightarrow> bytes list) \<Rightarrow> (mem_io, unit, mask4, 'r, 'x) env \<Rightarrow> message list \<Rightarrow> mem_socket \<Rightarrow> mem_socket
     \<Rightarrow> (message list \<times> message list \<times> mem_socket \<times> mem_socket) option" where
  "say cuts env ms a b =
     (case write_all env ms a of
        (Ok _, a1) \<Rightarrow>
          (case ws_flush env a1 of
             (Ok _, a2) \<Rightarrow>
               (case read_n env (length ms) (arrive (cuts (since a a2)) b) of
                  Some (heard, b1) \<Rightarrow>
                    (case read_n env (length (answers heard)) (arrive (cuts (since b b1)) a2) of
                       Some (replies, a3) \<Rightarrow> Some (heard, replies, a3, b1)
                     | None \<Rightarrow> None)
                | None \<Rightarrow> None)
           | _ \<Rightarrow> None)
      | _ \<Rightarrow> None)"

text \<open>Turns of a client and a server: what was heard in each, and what came back.\<close>

fun dialogue ::
  "(bytes \<Rightarrow> bytes list) \<Rightarrow> (mem_io, unit, mask4, 'r, 'x) env \<Rightarrow> (role \<times> message list) list \<Rightarrow> mem_socket \<Rightarrow> mem_socket
     \<Rightarrow> ((message list \<times> message list) list \<times> mem_socket \<times> mem_socket) option" where
  "dialogue cuts env [] c s = Some ([], c, s)"
| "dialogue cuts env ((who, ms) # turns) c s =
     (case (if who = Client then say cuts env ms c s
            else map_option (\<lambda>(heard, replies, s1, c1). (heard, replies, c1, s1)) (say cuts env ms s c)) of
        Some (heard, replies, c1, s1) \<Rightarrow>
          map_option (\<lambda>(rest, c2, s2). ((heard, replies) # rest, c2, s2)) (dialogue cuts env turns c1 s1)
      | None \<Rightarrow> None)"

section \<open>Turns\<close>

lemma speak:
  assumes "idle a" "\<forall>m \<in> set ms. transferable cfg m"
  shows "\<exists>a1 a2 fs. write_all (mem_env :: (mem_io, unit, mask4, 'r, 'x) env) ms a = (Ok (), a1)
    \<and> ws_flush (mem_env :: (mem_io, unit, mask4, 'r, 'x) env) a1 = (Ok (), a2) \<and> idle a2 \<and> same_end a a2
    \<and> list_all2 (\<lambda>m. sent_as (ws_role a) (frame_of_message m)) ms fs \<and> since a a2 = concat (map (frame_bytes aligned_le) fs)"
proof -
  obtain a1 a2 fs where w: "write_all (mem_env :: (mem_io, unit, mask4, 'r, 'x) env) ms a = (Ok (), a1)"
    "ws_flush (mem_env :: (mem_io, unit, mask4, 'r, 'x) env) a1 = (Ok (), a2)"
    "ws_conn a2 = Active" "same_reading a a2" "pending_input a2 = pending_input a" "fc_write_buf (ws_codec a2) = []"
    "list_all2 (\<lambda>m. sent_as (ws_role a) (frame_of_message m)) ms fs"
    "on_the_wire a2 = ws_outgoing mem_out a @ concat (map (frame_bytes aligned_le) fs)"
    using mem_write_flush[of a ms cfg, where ?'r = 'r and ?'x = 'x] assms by (auto simp: idle_def)
  have "idle a2" "same_end a a2"
    using assms(1) w same_reading_inv[OF w(4)]
    by (simp_all add: idle_def at_rest_def same_end_def same_reading_def same_reader_def ws_decoder_def)
  moreover have "since a a2 = concat (map (frame_bytes aligned_le) fs)"
    using assms(1) w(6,8) by (intro since_outgoing) (simp_all add: idle_def at_rest_def wire_outgoing)
  ultimately show ?thesis using w by blast
qed

lemma arrive_reading:
  assumes "idle b" "concat cs = concat (map (frame_bytes aligned_le) fs)"
  shows "reading_at None (arrive cs b) fs" "same_end b (arrive cs b)" "fc_write_buf (ws_codec (arrive cs b)) = []"
    "ws_outgoing mem_out (arrive cs b) = ws_outgoing mem_out b"
  using assms arrive_only_read[where s = b and cs = cs] only_read_inv[OF arrive_only_read(1)[where s = b and cs = cs]]
  by (simp_all add: idle_def at_rest_def reading_at_def same_end_def only_read_def)

lemma listen:
  assumes "idle b" "list_all2 (\<lambda>m. sent_as (peer (ws_role b)) (frame_of_message m)) ms fs"
    and "\<forall>m \<in> set ms. transferable (ws_config b) m" "concat cs = concat (map (frame_bytes aligned_le) fs)"
  shows "\<exists>t gs. read_n (mem_env :: (mem_io, unit, mask4, 'r, 'x) env) (length ms) (arrive cs b) = Some (ms, t) \<and> idle t \<and> same_end b t
    \<and> list_all2 (\<lambda>m. sent_as (ws_role b) (frame_of_message m)) (answers ms) gs \<and> since b t = concat (map (frame_bytes aligned_le) gs)"
proof -
  note at = arrive_reading[OF assms(1,4)]
  obtain t where t: "read_n (mem_env :: (mem_io, unit, mask4, 'r, 'x) env) (length ms) (arrive cs b) = Some (ms, t)"
    "reading_at None t []" "same_end b t" "answered (arrive cs b) ms t"
    using read_n_answers[where s = "arrive cs b" and fs = fs and gs = "[]" and ms = ms and inc = None, where ?'r = 'r and ?'x = 'x]
      at(1,2) assms(2,3) by (auto simp: same_end_def)
  then obtain gs where gs: "list_all2 (\<lambda>m. sent_as (ws_role b) (frame_of_message m)) (answers ms) gs"
    "fc_write_buf (ws_codec t) = []" "ws_outgoing mem_out t = ws_outgoing mem_out b @ concat (map (frame_bytes aligned_le) gs)"
    using at by (auto simp: answered_def same_end_def)
  then have "since b t = concat (map (frame_bytes aligned_le) gs)"
    using assms(1) by (intro since_outgoing) (simp_all add: idle_def at_rest_def)
  then show ?thesis using t gs by (auto simp: idle_reading)
qed

lemma answers_transferable: "\<forall>m \<in> set ms. transferable cfg m \<Longrightarrow> \<forall>m \<in> set (answers ms). transferable cfg m"
  by (induction ms rule: answers.induct) auto

lemma say_ok:
  assumes "talking a b" "\<forall>m \<in> set ms. transferable (ws_config a) m \<and> transferable (ws_config b) m"
    and cuts: "\<And>bs. concat (cuts bs) = bs"
  shows "\<exists>a' b'. say cuts (mem_env :: (mem_io, unit, mask4, 'r, 'x) env) ms a b = Some (ms, answers ms, a', b')
    \<and> talking a' b' \<and> same_end a a' \<and> same_end b b'"
proof -
  let ?env = "mem_env :: (mem_io, unit, mask4, 'r, 'x) env"
  have ends: "idle a" "idle b" "ws_role b = peer (ws_role a)" "ws_role a = peer (ws_role b)"
    using assms(1) by (cases "ws_role a"; simp add: talking_def)+
  have fits: "\<forall>m \<in> set ms. transferable (ws_config a) m" "\<forall>m \<in> set ms. transferable (ws_config b) m" using assms(2) by blast+
  obtain a1 a2 fs where a2: "write_all ?env ms a = (Ok (), a1)" "ws_flush ?env a1 = (Ok (), a2)" "idle a2" "same_end a a2"
    "list_all2 (\<lambda>m. sent_as (ws_role a) (frame_of_message m)) ms fs" "since a a2 = concat (map (frame_bytes aligned_le) fs)"
    using speak[OF ends(1) fits(1), where ?'r = 'r and ?'x = 'x] by blast
  obtain b1 gs where b1: "read_n ?env (length ms) (arrive (cuts (since a a2)) b) = Some (ms, b1)" "idle b1" "same_end b b1"
    "list_all2 (\<lambda>m. sent_as (ws_role b) (frame_of_message m)) (answers ms) gs" "since b b1 = concat (map (frame_bytes aligned_le) gs)"
    using listen[OF ends(2) _ fits(2), of fs "cuts (since a a2)", where ?'r = 'r and ?'x = 'x] a2(5,6) ends(4) cuts by auto
  have "\<forall>m \<in> set (answers ms). transferable (ws_config a2) m"
    using answers_transferable[OF fits(1)] a2(4) by (simp add: same_end_def)
  then obtain a3 where a3: "read_n ?env (length (answers ms)) (arrive (cuts (since b b1)) a2) = Some (answers ms, a3)" "idle a3" "same_end a2 a3"
    using listen[OF a2(3), of "answers ms" gs "cuts (since b b1)", where ?'r = 'r and ?'x = 'x] b1(4,5) ends(3) a2(4) cuts by (auto simp: same_end_def)
  have "say cuts ?env ms a b = Some (ms, answers ms, a3, b1)"
    using a2 b1 a3 by (simp add: say_def)
  then show ?thesis using a2(4) a3 b1(2,3) ends(3) by (auto simp: talking_def same_end_def)
qed

lemma talking_sym: "talking a b \<longleftrightarrow> talking b a"
  by (cases "ws_role a"; cases "ws_role b"; auto simp: talking_def)

lemma dialogue_ok:
  assumes "talking c s" "\<forall>(who, ms) \<in> set turns. \<forall>m \<in> set ms. transferable (ws_config c) m \<and> transferable (ws_config s) m"
    and cuts: "\<And>bs. concat (cuts bs) = bs"
  shows "\<exists>c' s'. dialogue cuts (mem_env :: (mem_io, unit, mask4, 'r, 'x) env) turns c s
      = Some (map (\<lambda>(who, ms). (ms, answers ms)) turns, c', s') \<and> talking c' s' \<and> same_end c c' \<and> same_end s s'"
  using assms(1,2)
proof (induction turns arbitrary: c s)
  case Nil
  then show ?case by (simp add: same_end_def)
next
  case (Cons turn turns)
  let ?env = "mem_env :: (mem_io, unit, mask4, 'r, 'x) env"
  obtain who ms where turn: "turn = (who, ms)" by (cases turn)
  then have fits: "\<forall>m \<in> set ms. transferable (ws_config c) m \<and> transferable (ws_config s) m"
    "\<forall>m \<in> set ms. transferable (ws_config s) m \<and> transferable (ws_config c) m" using Cons.prems(2) by auto
  obtain c1 s1 where first: "(if who = Client then say cuts ?env ms c s
      else map_option (\<lambda>(heard, replies, s1, c1). (heard, replies, c1, s1)) (say cuts ?env ms s c)) = Some (ms, answers ms, c1, s1)"
    and now: "talking c1 s1" "same_end c c1" "same_end s s1"
  proof (cases "who = Client")
    case True
    then show ?thesis using say_ok[OF Cons.prems(1) fits(1) cuts, where ?'r = 'r and ?'x = 'x] that by auto
  next
    case False
    then show ?thesis
      using say_ok[OF talking_sym[THEN iffD1, OF Cons.prems(1)] fits(2) cuts, where ?'r = 'r and ?'x = 'x] that
      by (auto simp: talking_sym)
  qed
  have "\<forall>(who, ms) \<in> set turns. \<forall>m \<in> set ms. transferable (ws_config c1) m \<and> transferable (ws_config s1) m"
    using Cons.prems(2) now by (auto simp: same_end_def)
  from Cons.IH[OF now(1) this] show ?case
    using first now unfolding turn by (auto simp: same_end_def)
qed

section \<open>Closing\<close>

text \<open>
  The closing handshake of one end with the other, and of both at the same time, each with its
  own close frame: what each end reads, and the result of its next \<open>read\<close>.
\<close>

type_synonym ('r, 'x) last_read = "((('r, 'x) error, message) res \<times> mem_socket) option"

definition hang_up ::
  "(bytes \<Rightarrow> bytes list) \<Rightarrow> (mem_io, unit, mask4, 'r, 'x) env \<Rightarrow> close_frame option \<Rightarrow> mem_socket \<Rightarrow> mem_socket
     \<Rightarrow> (message \<times> message \<times> ('r, 'x) last_read \<times> ('r, 'x) last_read) option" where
  "hang_up cuts env code a b =
     (case ws_close env code a of
        (Ok _, a1) \<Rightarrow>
          (case ws_read env (arrive (cuts (since a a1)) b) of
             Some (Ok heard, b1) \<Rightarrow>
               (case ws_read env (arrive (cuts (since b b1)) a1) of
                  Some (Ok echo, a2) \<Rightarrow> Some (heard, echo, ws_read env a2, ws_read env b1)
                | _ \<Rightarrow> None)
           | _ \<Rightarrow> None)
      | _ \<Rightarrow> None)"

definition hang_up_both ::
  "(bytes \<Rightarrow> bytes list) \<Rightarrow> (mem_io, unit, mask4, 'r, 'x) env \<Rightarrow> close_frame option \<Rightarrow> close_frame option \<Rightarrow> mem_socket \<Rightarrow> mem_socket
     \<Rightarrow> (message \<times> message \<times> ('r, 'x) last_read \<times> ('r, 'x) last_read) option" where
  "hang_up_both cuts env ca cb a b =
     (case (ws_close env ca a, ws_close env cb b) of
        ((Ok _, a1), (Ok _, b1)) \<Rightarrow>
          (case (ws_read env (arrive (cuts (since a a1)) b1), ws_read env (arrive (cuts (since b b1)) a1)) of
             (Some (Ok m, b2), Some (Ok m', a2)) \<Rightarrow>
               if since a1 a2 = [] \<and> since b1 b2 = [] then Some (m, m', ws_read env a2, ws_read env b2) else None
           | _ \<Rightarrow> None)
      | _ \<Rightarrow> None)"

definition at_end :: "('r, 'x) last_read \<Rightarrow> bool" where
  "at_end r \<longleftrightarrow> (case r of Some (Err ConnectionClosed, t) \<Rightarrow> ws_conn t = Terminated | _ \<Rightarrow> False)"

lemma at_end_eq: "at_end r \<longleftrightarrow> (\<exists>t. r = Some (Err ConnectionClosed, t) \<and> ws_conn t = Terminated)"
  by (auto simp: at_end_def split: option.splits res.splits error.splits)

lemma at_end_closed:
  fixes s :: mem_socket
  assumes "ws_conn s = ClosedByPeer \<or> ws_conn s = CloseAcknowledged" "at_rest s"
  shows "at_end (ws_read (mem_env :: (mem_io, unit, mask4, 'r, 'x) env) s)"
  using read_after_close[of s, where ?'r = 'r and ?'x = 'x] assms by (auto simp: at_rest_def at_end_def)

lemma close_out:
  assumes "idle a"
  shows "\<exists>a1 f'. ws_close (mem_env :: (mem_io, unit, mask4, 'r, 'x) env) code a = (Ok (), a1) \<and> at_rest a1 \<and> same_end a a1
    \<and> ws_conn a1 = ClosedByUs \<and> sent_as (ws_role a) (frame_close code) f' \<and> since a a1 = frame_bytes aligned_le f'"
proof -
  obtain a1 f' where a1: "ws_close (mem_env :: (mem_io, unit, mask4, 'r, 'x) env) code a = (Ok (), a1)" "same_reading a a1"
    "ws_conn a1 = ClosedByUs" "pending_input a1 = pending_input a" "fc_write_buf (ws_codec a1) = []"
    "sent_as (ws_role a) (frame_close code) f'" "ws_outgoing mem_out a1 = ws_outgoing mem_out a @ frame_bytes aligned_le f'"
    using mem_ws_close[of a code, where ?'r = 'r and ?'x = 'x] assms by (auto simp: idle_def)
  have "at_rest a1" "same_end a a1"
    using assms a1 same_reading_inv[OF a1(2)]
    by (simp_all add: idle_def at_rest_def same_end_def same_reading_def same_reader_def ws_decoder_def)
  moreover have "since a a1 = frame_bytes aligned_le f'"
    using assms a1(5,7) by (intro since_outgoing) (simp_all add: idle_def at_rest_def)
  ultimately show ?thesis using a1 by blast
qed

text \<open>A close frame is read, and answered by an end that has sent none.\<close>

lemma close_in:
  assumes "at_rest b" "can_read (ws_conn b)" "closing_ok (ws_config b) code" "sent_as (peer (ws_role b)) (frame_close code) f'"
    and "concat cs = frame_bytes aligned_le f'"
  shows "\<exists>b1. ws_read (mem_env :: (mem_io, unit, mask4, 'r, 'x) env) (arrive cs b) = Some (Ok (MClose code), b1)
    \<and> at_rest b1 \<and> ws_conn b1 = (if ws_conn b = Active then ClosedByPeer else CloseAcknowledged) \<and> at_end (ws_read (mem_env :: (mem_io, unit, mask4, 'r, 'x) env) b1)
    \<and> (if ws_conn b = Active then \<exists>g. sent_as (ws_role b) (frame_close code) g \<and> since b b1 = frame_bytes aligned_le g
       else since b b1 = [])"
proof -
  let ?b = "arrive cs b"
  have arr: "only_read b ?b" "pending_input ?b = frame_bytes aligned_le f'"
    using arrive_only_read[where s = b and cs = cs] assms(1,5) by (simp_all add: at_rest_def)
  have b: "ws_inv ?b" "dec_header (ws_decoder ?b) = None" "can_read (ws_conn ?b)" "fc_write_buf (ws_codec ?b) = []"
    "closing_ok (ws_config ?b) code" "sent_as (peer (ws_role ?b)) (frame_close code) f'"
    using assms arr(1) only_read_inv[OF arr(1)] by (simp_all add: only_read_def at_rest_def)
  have eqs: "ws_conn ?b = ws_conn b" "ws_role ?b = ws_role b" "ws_outgoing mem_out ?b = ws_outgoing mem_out b"
    using arr(1) by (simp_all add: only_read_def)
  obtain b1 where b1: "ws_read (mem_env :: (mem_io, unit, mask4, 'r, 'x) env) ?b = Some (Ok (MClose code), b1)" "at_rest b1"
    and out: "if ws_conn b = Active
       then ws_conn b1 = ClosedByPeer \<and> (\<exists>g. sent_as (ws_role b) (frame_close code) g
         \<and> ws_outgoing mem_out b1 = ws_outgoing mem_out b @ frame_bytes aligned_le g)
       else ws_conn b1 = CloseAcknowledged \<and> ws_outgoing mem_out b1 = ws_outgoing mem_out b"
    using read_close[OF b arr(2), unfolded eqs, where ?'r = 'r and ?'x = 'x] unfolding at_rest_def by blast
  have bufs: "fc_write_buf (ws_codec b) = []" "fc_write_buf (ws_codec b1) = []" using assms(1) b1(2) by (simp_all add: at_rest_def)
  have "at_end (ws_read (mem_env :: (mem_io, unit, mask4, 'r, 'x) env) b1)"
    using out b1(2) by (intro at_end_closed) (auto split: if_splits)
  moreover have "if ws_conn b = Active then \<exists>g. sent_as (ws_role b) (frame_close code) g \<and> since b b1 = frame_bytes aligned_le g
       else since b b1 = []"
    using out since_outgoing[OF bufs] by (auto split: if_splits)
  moreover have "ws_conn b1 = (if ws_conn b = Active then ClosedByPeer else CloseAcknowledged)"
    using out by (auto split: if_splits)
  ultimately show ?thesis using b1 by blast
qed

lemma hang_up_ok:
  assumes "talking a b" "closing_ok (ws_config a) code" "closing_ok (ws_config b) code" and cuts: "\<And>bs. concat (cuts bs) = bs"
  shows "\<exists>ra rb. hang_up cuts (mem_env :: (mem_io, unit, mask4, 'r, 'x) env) code a b = Some (MClose code, MClose code, ra, rb)
    \<and> at_end ra \<and> at_end rb"
proof -
  let ?env = "mem_env :: (mem_io, unit, mask4, 'r, 'x) env"
  have ends: "idle a" "at_rest b" "ws_conn b = Active" "ws_role b = peer (ws_role a)" "ws_role a = peer (ws_role b)"
    using assms(1) by (cases "ws_role a"; simp add: talking_def idle_def)+
  obtain a1 f' where a1: "ws_close ?env code a = (Ok (), a1)" "at_rest a1" "same_end a a1" "ws_conn a1 = ClosedByUs"
    "sent_as (ws_role a) (frame_close code) f'" "since a a1 = frame_bytes aligned_le f'"
    using close_out[OF ends(1), where ?'r = 'r and ?'x = 'x] by blast
  obtain b1 g where b1: "ws_read ?env (arrive (cuts (since a a1)) b) = Some (Ok (MClose code), b1)" "at_end (ws_read ?env b1)"
    "sent_as (ws_role b) (frame_close code) g" "since b b1 = frame_bytes aligned_le g"
    using close_in[OF ends(2) _ assms(3), of f' "cuts (since a a1)", where ?'r = 'r and ?'x = 'x] a1(5,6) ends(3,5) cuts
    by (auto simp: can_read_def)
  obtain a2 where "ws_read ?env (arrive (cuts (since b b1)) a1) = Some (Ok (MClose code), a2)" "at_end (ws_read ?env a2)"
    using close_in[OF a1(2), of code g "cuts (since b b1)", where ?'r = 'r and ?'x = 'x] a1(3,4) assms(2) b1(3,4) ends(4) cuts
    by (auto simp: can_read_def same_end_def)
  then show ?thesis using a1(1) b1(1,2) by (simp add: hang_up_def)
qed

lemma hang_up_both_ok:
  assumes "talking a b" "closing_ok (ws_config a) cb" "closing_ok (ws_config b) ca" and cuts: "\<And>bs. concat (cuts bs) = bs"
  shows "\<exists>ra rb. hang_up_both cuts (mem_env :: (mem_io, unit, mask4, 'r, 'x) env) ca cb a b = Some (MClose ca, MClose cb, ra, rb)
    \<and> at_end ra \<and> at_end rb"
proof -
  let ?env = "mem_env :: (mem_io, unit, mask4, 'r, 'x) env"
  have ends: "idle a" "idle b" "ws_role b = peer (ws_role a)" "ws_role a = peer (ws_role b)"
    using assms(1) by (cases "ws_role a"; simp add: talking_def)+
  obtain a1 f where a1: "ws_close ?env ca a = (Ok (), a1)" "at_rest a1" "same_end a a1" "ws_conn a1 = ClosedByUs"
    "sent_as (ws_role a) (frame_close ca) f" "since a a1 = frame_bytes aligned_le f"
    using close_out[OF ends(1), where ?'r = 'r and ?'x = 'x] by blast
  obtain b1 g where b1: "ws_close ?env cb b = (Ok (), b1)" "at_rest b1" "same_end b b1" "ws_conn b1 = ClosedByUs"
    "sent_as (ws_role b) (frame_close cb) g" "since b b1 = frame_bytes aligned_le g"
    using close_out[OF ends(2), where ?'r = 'r and ?'x = 'x] by blast
  obtain b2 where b2: "ws_read ?env (arrive (cuts (since a a1)) b1) = Some (Ok (MClose ca), b2)" "at_end (ws_read ?env b2)" "since b1 b2 = []"
    using close_in[OF b1(2), of ca f "cuts (since a a1)", where ?'r = 'r and ?'x = 'x] b1(3,4) assms(3) a1(5,6) ends(4) cuts
    by (auto simp: can_read_def same_end_def)
  obtain a2 where a2: "ws_read ?env (arrive (cuts (since b b1)) a1) = Some (Ok (MClose cb), a2)" "at_end (ws_read ?env a2)" "since a1 a2 = []"
    using close_in[OF a1(2), of cb g "cuts (since b b1)", where ?'r = 'r and ?'x = 'x] a1(3,4) assms(2) b1(5,6) ends(3) cuts
    by (auto simp: can_read_def same_end_def)
  show ?thesis using a1(1) b1(1) b2 a2 by (simp add: hang_up_both_def)
qed

end
