(* ===== verification/Session_Theorems.thy ===== *)
theory Session_Theorems
  imports Session
begin

text \<open>
  Whole sessions: from the URI and the opening handshake through any turns of messages to the
  end of both connections, with the closing handshake started by one end or by both at once.
\<close>

text \<open>A new connection of the entry points has nothing on its way.\<close>

lemma opened_idle: "opened rl c [] s \<Longrightarrow> limits_ok (config_or_default c) \<Longrightarrow> idle s"
  by (simp add: opened_def idle_def at_rest_def)

text \<open>What holds of the two new connections holds after the exchange that makes them.\<close>

lemma opening_exchange_then:
  assumes "http_messages ht" "connectable ht u" "key \<noteq> []"
    and then_holds: "\<And>client server. opened Client cc [] client \<Longrightarrow> opened Server sc [] server \<Longrightarrow> Q client server"
  shows "\<exists>buf. \<forall>chunks. concat chunks = buf \<longrightarrow>
    (\<exists>server. mem_accept ht chunks sc h = Ok server \<and> (\<forall>chunks'. concat chunks' = on_the_wire server \<longrightarrow>
       (\<exists>client resp. client_with_config (mem_client ht key) (From_Uri u) (mem_stream chunks') cc g = Ok (client, resp)
          \<and> on_the_wire client = buf \<and> Q client server)))"
proof -
  from http_messages.opening_exchange[OF assms(1-3), of sc h cc g] obtain buf where both: "\<And>chunks. concat chunks = buf \<Longrightarrow>
      \<exists>server. mem_accept ht chunks sc h = Ok server \<and> opened Server sc [] server
        \<and> (\<forall>chunks' unread. concat chunks' = on_the_wire server @ unread \<longrightarrow>
             (\<exists>client resp. client_with_config (mem_client ht key) (From_Uri u) (mem_stream chunks') cc g = Ok (client, resp)
                \<and> opened Client cc unread client \<and> on_the_wire client = buf))"
    by blast
  show ?thesis
  proof (intro exI[of _ buf] allI impI)
    fix chunks assume "concat chunks = buf"
    from both[OF this] obtain server where server: "mem_accept ht chunks sc h = Ok server" "opened Server sc [] server"
      and client: "\<And>chunks' unread. concat chunks' = on_the_wire server @ unread \<Longrightarrow>
         \<exists>client resp. client_with_config (mem_client ht key) (From_Uri u) (mem_stream chunks') cc g = Ok (client, resp)
                \<and> opened Client cc unread client \<and> on_the_wire client = buf"
      by blast
    have "\<exists>client resp. client_with_config (mem_client ht key) (From_Uri u) (mem_stream chunks') cc g = Ok (client, resp)
          \<and> on_the_wire client = buf \<and> Q client server" if "concat chunks' = on_the_wire server" for chunks'
      using client[of chunks' "[]"] that then_holds server(2) by fastforce
    then show "\<exists>server. mem_accept ht chunks sc h = Ok server \<and> (\<forall>chunks'. concat chunks' = on_the_wire server \<longrightarrow>
       (\<exists>client resp. client_with_config (mem_client ht key) (From_Uri u) (mem_stream chunks') cc g = Ok (client, resp)
          \<and> on_the_wire client = buf \<and> Q client server))"
      using server(1) by blast
  qed
qed

text \<open>C1. A whole session: a client opens a connection to a server, the two exchange messages in any
  turns and close. Every message is heard by the other end, unchanged and in order, every ping
  is answered by the pong the other end sends by itself, the close frame of the end that hangs
  up is read by the other and its echo by the first, and both then report the connection as
  closed. Nothing fails, whatever the pieces in which the streams hand over the bytes.\<close>

theorem whole_session:
  fixes ht :: "('h, 'u, 'x) http"
  defines "env \<equiv> mem_env :: (mem_io, unit, mask4, 'r, 'x) env"
  assumes "http_messages ht" "connectable ht u" "key \<noteq> []"
    and limits: "limits_ok (config_or_default cc)" "limits_ok (config_or_default sc)"
    and turns: "\<forall>(who, ms) \<in> set turns. \<forall>m \<in> set ms. transferable (config_or_default cc) m \<and> transferable (config_or_default sc) m"
    and code: "closing_ok (config_or_default cc) code" "closing_ok (config_or_default sc) code"
    and cuts: "\<And>bs. concat (cuts bs) = bs"
  shows "\<exists>buf. \<forall>chunks. concat chunks = buf \<longrightarrow>
    (\<exists>server. mem_accept ht chunks sc h = Ok server \<and> (\<forall>chunks'. concat chunks' = on_the_wire server \<longrightarrow>
       (\<exists>client resp. client_with_config (mem_client ht key) (From_Uri u) (mem_stream chunks') cc g = Ok (client, resp)
          \<and> on_the_wire client = buf
          \<and> (\<exists>c s ra rb. dialogue cuts env turns client server = Some (map (\<lambda>(who, ms). (ms, answers ms)) turns, c, s)
               \<and> hang_up cuts env code (if closer = Client then c else s) (if closer = Client then s else c)
                   = Some (MClose code, MClose code, ra, rb) \<and> at_end ra \<and> at_end rb))))"
proof (rule opening_exchange_then[OF assms(2-4)])
  fix client server :: mem_socket
  assume opened: "opened Client cc [] client" "opened Server sc [] server"
  have cfg: "ws_config client = config_or_default cc" "ws_config server = config_or_default sc"
    using opened by (simp_all add: opened_def)
  have "talking client server"
    using opened opened_idle[OF opened(1) limits(1)] opened_idle[OF opened(2) limits(2)] by (simp add: talking_def opened_def)
  from dialogue_ok[OF this turns[folded cfg] cuts, where ?'r = 'r and ?'x = 'x] obtain c s
    where cs: "dialogue cuts env turns client server = Some (map (\<lambda>(who, ms). (ms, answers ms)) turns, c, s)"
      "talking c s" "ws_config c = ws_config client" "ws_config s = ws_config server"
    by (auto simp: env_def same_end_def)
  have "talking (if closer = Client then c else s) (if closer = Client then s else c)"
    using cs(2) by (simp add: talking_sym[of s c])
  from hang_up_ok[OF this _ _ cuts, of code, where ?'r = 'r and ?'x = 'x]
  show "\<exists>c s ra rb. dialogue cuts env turns client server = Some (map (\<lambda>(who, ms). (ms, answers ms)) turns, c, s)
      \<and> hang_up cuts env code (if closer = Client then c else s) (if closer = Client then s else c)
          = Some (MClose code, MClose code, ra, rb) \<and> at_end ra \<and> at_end rb"
    using cs code cfg unfolding env_def by (cases closer) auto
qed

text \<open>The URI \<open>ws://user@host/chat\<close>.\<close>

definition chat_uri :: std_uri where
  "chat_uri = \<lparr>su_scheme = Some (ascii ''ws''), su_authority = Some (ascii ''user@host''), su_path = Some (ascii ''/chat'')\<rparr>"

lemma chat_uri_connectable: "std_uri_parse (ascii ''ws://user@host/chat'') = Ok chat_uri" "connectable std_http chat_uri"
  by (simp_all add: chat_uri_def std_uri_parse_def connectable_def ws_scheme_def uri_names_host_def authority_host_def
      std_http_def ascii_def field_ok_def token_def token_char_def visible_def is_ascii_space_def target_ok_def)


text \<open>The client greets and pings, the server sends two bytes, and hangs up; byte by byte.\<close>

definition chat :: "(role \<times> message list) list" where
  "chat = [(Client, [MText (Utf8Bytes [0x68, 0x69]), MPing [7]]), (Server, [MBinary [1, 2]])]"

definition going_away :: "close_frame option" where
  "going_away = Some \<lparr>close_code = Code_Away, close_reason = Utf8Bytes [98, 121, 101]\<rparr>"

lemma chat_ok:
  "\<forall>(who, ms) \<in> set chat. \<forall>m \<in> set ms. transferable (config_or_default None) m \<and> transferable (config_or_default None) m"
  "closing_ok (config_or_default None) going_away"
  "map (\<lambda>(who, ms). (ms, answers ms)) chat = [([MText (Utf8Bytes [0x68, 0x69]), MPing [7]], [MPong [7]]), ([MBinary [1, 2]], [])]"
  by (simp_all add: chat_def going_away_def config_or_default_def default_config_def limit_of_def utf8_wf_def std_from_utf8_step
      utf8_char_width_def closing_ok_def close_code_of_u16_def)

lemma limits_default: "limits_ok (config_or_default None)"
  using default_limits_ok by (simp add: config_or_default_def)

lemma concat_single: "concat (map (\<lambda>b. [b]) bs) = bs"
  by (induction bs) simp_all

lemma whole_session_witness:
  "let env = mem_env :: (mem_io, unit, mask4, unit, unit) env; bytewise = map (\<lambda>b. [b]) in
   \<exists>buf server client resp c s ra rb. mem_accept std_http (bytewise buf) None (0, 0, 0, 0) = Ok server
     \<and> client_with_config (mem_client std_http [1, 2, 3]) (From_Uri chat_uri) (mem_stream [on_the_wire server]) None (1, 2, 3, 4) = Ok (client, resp)
     \<and> dialogue bytewise env chat client server
         = Some ([([MText (Utf8Bytes [0x68, 0x69]), MPing [7]], [MPong [7]]), ([MBinary [1, 2]], [])], c, s)
     \<and> hang_up bytewise env going_away s c = Some (MClose going_away, MClose going_away, ra, rb)"
  using whole_session[where key = "[1, 2, 3]" and h = "(0, 0, 0, 0)" and g = "(1, 2, 3, 4)" and closer = Server, OF std.http_messages_axioms chat_uri_connectable(2) list.distinct(2) limits_default limits_default chat_ok(1,2,2) concat_single,
      where ?'r = unit]
proof (elim exE, goal_cases)
  case (1 buf)
  have one: "concat [bs] = bs" for bs :: bytes by simp
  from 1[rule_format, OF concat_single] show ?case
  proof (elim exE conjE, goal_cases)
    case (1 server)
    from 1(2)[rule_format, OF one] 1(1) show ?case unfolding chat_ok(3) Let_def by (simp only: role.distinct if_False) blast
  qed
qed

text \<open>C6. When both ends close at the same time, each reads the close frame of the other as a close
  message with its code and reason, sends no second close frame, and reports the connection
  as closed at the next \<open>read\<close>; after any turns of messages.\<close>

theorem crossing_close:
  fixes env :: "(mem_io, unit, mask4, 'r, 'x) env"
  defines "env \<equiv> mem_env"
  assumes limits: "limits_ok (config_or_default cc)" "limits_ok (config_or_default sc)"
    and turns: "\<forall>(who, ms) \<in> set turns. \<forall>m \<in> set ms. transferable (config_or_default cc) m \<and> transferable (config_or_default sc) m"
    and codes: "closing_ok (config_or_default sc) code" "closing_ok (config_or_default cc) code'"
    and cuts: "\<And>bs. concat (cuts bs) = bs"
  shows "\<exists>c s ra rb. dialogue cuts env turns (mem_connection [] Client cc g) (mem_connection [] Server sc h)
      = Some (map (\<lambda>(who, ms). (ms, answers ms)) turns, c, s)
    \<and> hang_up_both cuts env code code' c s = Some (MClose code, MClose code', ra, rb) \<and> at_end ra \<and> at_end rb"
proof -
  let ?c = "mem_connection [] Client cc g" and ?s = "mem_connection [] Server sc h"
  have "talking ?c ?s" using limits by (simp add: talking_def mem_connection_idle)
  from dialogue_ok[OF this _ cuts, of turns, where ?'r = 'r and ?'x = 'x] turns obtain c s
    where cs: "dialogue cuts env turns ?c ?s = Some (map (\<lambda>(who, ms). (ms, answers ms)) turns, c, s)" "talking c s"
      "ws_config c = config_or_default cc" "ws_config s = config_or_default sc"
    by (auto simp: env_def same_end_def)
  from hang_up_both_ok[OF cs(2) _ _ cuts, of code' code, where ?'r = 'r and ?'x = 'x] show ?thesis
    using cs codes unfolding env_def by auto
qed

lemma crossing_close_witness:
  "\<exists>c s ra rb. dialogue (\<lambda>bs. [bs]) (mem_env :: (mem_io, unit, mask4, unit, unit) env) chat
      (mem_connection [] Client None (1, 2, 3, 4)) (mem_connection [] Server None (0, 0, 0, 0))
      = Some ([([MText (Utf8Bytes [0x68, 0x69]), MPing [7]], [MPong [7]]), ([MBinary [1, 2]], [])], c, s)
    \<and> hang_up_both (\<lambda>bs. [bs]) (mem_env :: (mem_io, unit, mask4, unit, unit) env) going_away None c s
      = Some (MClose going_away, MClose None, ra, rb) \<and> at_end ra \<and> at_end rb"
proof -
  have "concat [bs] = bs" for bs :: bytes by simp
  from crossing_close[OF limits_default limits_default chat_ok(1,2) _ this, of None, where ?'r = unit and ?'x = unit] show ?thesis
    unfolding chat_ok(3) by (simp add: closing_ok_def)
qed

end
