(* ===== verification/Delivery.thy ===== *)
theory Delivery
  imports Session
begin

text \<open>
  What a connection does depends on the bytes it gets and not on the pieces they come in,
  whatever the bytes are: every operation commutes with putting all input that is on its way
  into the read buffer.
\<close>

section \<open>All input at once\<close>

definition flat_framed :: "(mem_io, 'd, unit) framed \<Rightarrow> (mem_io, 'd, unit) framed" where
  "flat_framed fr = fr\<lparr>fr_io := (fr_io fr)\<lparr>mem_in := []\<rparr>, fr_buffer := fr_buffer fr @ concat (mem_in (fr_io fr))\<rparr>"

definition flat_codec :: "(mem_io, unit) frame_codec \<Rightarrow> (mem_io, unit) frame_codec" where
  "flat_codec fc = fc\<lparr>fc_inner := flat_framed (fc_inner fc)\<rparr>"

definition flat :: "mem_socket \<Rightarrow> mem_socket" where
  "flat s = s\<lparr>ws_codec := flat_codec (ws_codec s)\<rparr>"

lemma flat_simps [simp]:
  "ws_role (flat s) = ws_role s" "ws_config (flat s) = ws_config s" "ws_conn (flat s) = ws_conn s"
  "ws_incomplete (flat s) = ws_incomplete s" "ws_rng (flat s) = ws_rng s" "ws_codec (flat s) = flat_codec (ws_codec s)"
  "flat (s\<lparr>ws_conn := x\<rparr>) = (flat s)\<lparr>ws_conn := x\<rparr>" "flat (s\<lparr>ws_incomplete := y\<rparr>) = (flat s)\<lparr>ws_incomplete := y\<rparr>"
  "flat (s\<lparr>ws_rng := z\<rparr>) = (flat s)\<lparr>ws_rng := z\<rparr>" "flat (s\<lparr>ws_codec := fc\<rparr>) = s\<lparr>ws_codec := flat_codec fc\<rparr>"
  "(flat s)\<lparr>ws_codec := fc\<rparr> = s\<lparr>ws_codec := fc\<rparr>"
  by (simp_all add: flat_def)

lemma flat_wire: "on_the_wire (flat s) = on_the_wire s"
  by (simp add: on_the_wire_def flat_codec_def flat_framed_def codec_get_io_def)

text \<open>Driving a resumable decoder over pieces is driving it over their concatenation.\<close>

lemma mem_drive_flat:
  assumes "resumable_decoder dec weight"
  shows "mem_drive dec d (b @ concat cs) [] = (case mem_drive dec d b cs of (res, d', b', cs') \<Rightarrow> (res, d', b' @ concat cs', []))"
proof (induction cs arbitrary: d b)
  case Nil
  show ?case
    by (subst (1 2) mem_drive.simps) (auto split: prod.splits res.splits decoded.splits)
next
  case (Cons c cs)
  let ?t = "concat (c # cs)"
  obtain r d1 b1 where step: "dec d b = (r, d1, b1)" by (cases "dec d b") auto
  consider f where "r = Ok (Decoded f)" | x where "r = Ok x" "\<forall>f. x \<noteq> Decoded f" | e where "r = Err e" | "r = Panic"
    by (cases r) auto
  then show ?case
  proof cases
    case 1
    then have "dec d (b @ ?t) = (Ok (Decoded f), d1, b1 @ ?t)" using resumable_decoder.frame_stays[OF assms] step by blast
    with 1 step show ?thesis by (subst (1 2) mem_drive.simps) simp
  next
    case 2
    have "dec d (b @ ?t) = dec d1 (b1 @ ?t)" using resumable_decoder.resumes[OF assms] step 2 by blast
    then have "mem_drive dec d (b @ ?t) [] = mem_drive dec d1 (b1 @ ?t) []" by (subst (1 2) mem_drive.simps) simp
    moreover have "mem_drive dec d b (c # cs) = mem_drive dec d1 (b1 @ c) cs"
      using 2 step by (subst mem_drive.simps) (auto split: decoded.splits)
    ultimately show ?thesis using Cons.IH[of d1 "b1 @ c"] by simp
  next
    case 3
    then have "dec d (b @ ?t) = (Err e, d1, b1 @ ?t)" using resumable_decoder.error_stays[OF assms] step by blast
    with 3 step show ?thesis by (subst (1 2) mem_drive.simps) simp
  next
    case 4
    then show ?thesis using resumable_decoder.no_panic[OF assms, of d b] step by simp
  qed
qed

lemma codec_next_flat:
  "codec_next pl (mem_transport :: (mem_io, unit, ('r, 'x) error) transport) (flat_codec fc)
     = apsnd flat_codec (codec_next pl (mem_transport :: (mem_io, unit, ('r, 'x) error) transport) fc)"
  using mem_drive_flat[OF frame_decoder.resumable_decoder_axioms[of pl, where ?'a = 'r and ?'b = 'x],
      of "fr_decoder (fc_inner fc)" "fr_buffer (fc_inner fc)" "mem_in (fr_io (fc_inner fc))"]
  by (simp add: codec_next_mem flat_codec_def flat_framed_def split: prod.splits)

lemma codec_flush_io_flat:
  "codec_flush_io (mem_transport :: (mem_io, unit, ('r, 'x) error) transport) (flat_codec fc)
     = apsnd flat_codec (codec_flush_io (mem_transport :: (mem_io, unit, ('r, 'x) error) transport) fc)"
  by (simp add: codec_flush_io_def mem_transport_def flat_codec_def flat_framed_def codec_get_io_def codec_set_io_def Let_def)

lemma lift_io_flat: "lift_io (apsnd f p) = apsnd f (lift_io p)"
  by (cases p; cases "fst p"; simp)

lemma bind_st_flat:
  assumes "\<And>a s. g a (f s) = apsnd f (g a s)"
  shows "bind_st (apsnd f p) g = apsnd f (bind_st p g)"
  by (cases p; cases "fst p"; simp add: assms)

lemma bind_st_flat_pair:
  assumes "\<And>a s. g a (f s) = apsnd f (g a s)"
  shows "bind_st (r, f s) g = apsnd f (bind_st (r, s) g)"
  using bind_st_flat[of g f "(r, s)", OF assms] by simp

lemma codec_ops_flat:
  fixes tr :: "(mem_io, unit, ('r, 'x) error) transport"
  defines "tr \<equiv> mem_transport"
  shows "codec_send pl tr h (flat_codec fc) = apsnd flat_codec (codec_send pl tr h fc :: (('r, 'x) error, unit) res \<times> _)"
    and "codec_flush tr (flat_codec fc) = apsnd flat_codec (codec_flush tr fc :: (('r, 'x) error, unit) res \<times> _)"
    and "codec_close tr (flat_codec fc) = apsnd flat_codec (codec_close tr fc :: (('r, 'x) error, unit) res \<times> _)"
proof -
  have buf: "fc_write_buf (flat_codec fc) = fc_write_buf fc" "fc_write_limit (flat_codec fc) = fc_write_limit fc"
    "(flat_codec fc)\<lparr>fc_write_buf := b\<rparr> = flat_codec (fc\<lparr>fc_write_buf := b\<rparr>)" for fc b
    by (simp_all add: flat_codec_def)
  show flush: "codec_flush tr (flat_codec fc) = apsnd flat_codec (codec_flush tr fc :: (('r, 'x) error, unit) res \<times> _)"
    by (simp add: codec_flush_def tr_def codec_flush_io_flat lift_io_flat)
  have lifted: "lift_io (codec_flush_io tr (flat_codec fc)) = apsnd flat_codec (lift_io (codec_flush_io tr fc) :: (('r, 'x) error, unit) res \<times> _)"
    by (simp add: tr_def codec_flush_io_flat lift_io_flat)
  have ok: "(Ok (), flat_codec fc) = apsnd flat_codec (Ok () :: (('r, 'x) error, unit) res, fc)" by simp
  show "codec_send pl tr h (flat_codec fc) = apsnd flat_codec (codec_send pl tr h fc :: (('r, 'x) error, unit) res \<times> _)"
    unfolding codec_send_def buf(1,2) lifted ok if_distrib[where f = "apsnd flat_codec", symmetric]
    by (rule bind_st_flat) (simp add: buf)
  show "codec_close tr (flat_codec fc) = apsnd flat_codec (codec_close tr fc :: (('r, 'x) error, unit) res \<times> _)"
    unfolding codec_close_def lifted
    by (rule bind_st_flat) (simp add: tr_def mem_transport_def codec_get_io_def codec_set_io_def flat_codec_def flat_framed_def)
qed

section \<open>Every operation\<close>

lemma on_codec_flat:
  assumes "\<And>fc. f (flat_codec fc) = apsnd flat_codec (f fc)"
  shows "on_codec f (flat s) = apsnd flat (on_codec f s)"
  by (cases "f (ws_codec s)") (simp add: on_codec_def assms)

lemma write_frame_flat:
  "write_frame (mem_env :: (mem_io, unit, mask4, 'r, 'x) env) f (flat s) = apsnd flat (write_frame mem_env f s)"
proof -
  let ?env = "mem_env :: (mem_io, unit, mask4, 'r, 'x) env"
  have env: "env_transport ?env = mem_transport" "env_platform ?env = aligned_le" by (simp_all add: mem_env_def)
  have send: "on_codec (codec_send (env_platform ?env) (env_transport ?env) h) (flat t)
      = apsnd flat (on_codec (codec_send (env_platform ?env) (env_transport ?env) h) t :: (('r, 'x) error, unit) res \<times> _)" for h t
    unfolding env by (rule on_codec_flat) (rule codec_ops_flat)
  obtain h t where ht: "(if ws_role s = Client
            then (case env_draw_mask ?env (ws_rng s) of (m, g) \<Rightarrow> (frame_set_mask m f, s\<lparr>ws_rng := g\<rparr>)) else (f, s)) = (h, t)"
    by fastforce
  then have ht': "(if ws_role (flat s) = Client
            then (case env_draw_mask ?env (ws_rng (flat s)) of (m, g) \<Rightarrow> (frame_set_mask m f, (flat s)\<lparr>ws_rng := g\<rparr>)) else (f, flat s)) = (h, flat t)"
    by (auto split: if_splits prod.splits)
  obtain r s2 where r: "on_codec (codec_send (env_platform ?env) (env_transport ?env) h) t = (r :: (('r, 'x) error, unit) res, s2)"
    by (cases "on_codec (codec_send (env_platform ?env) (env_transport ?env) h) t :: (('r, 'x) error, unit) res \<times> _")
  have "write_frame ?env f s = bind_st (check_connection_reset (ws_conn s) r, s2) (\<lambda>_ s3. (Ok (), s3))"
    unfolding write_frame_def ht by (simp add: r)
  moreover have "write_frame ?env f (flat s) = bind_st (check_connection_reset (ws_conn s) r, flat s2) (\<lambda>_ s3. (Ok (), s3))"
    unfolding write_frame_def ht' by (simp add: send r)
  ultimately show ?thesis by (cases "check_connection_reset (ws_conn s) r") simp_all
qed

lemma flush_flat:
  "on_codec (codec_flush (mem_transport :: (mem_io, unit, ('r, 'x) error) transport)) (flat s)
     = apsnd flat (on_codec (codec_flush (mem_transport :: (mem_io, unit, ('r, 'x) error) transport)) s :: (('r, 'x) error, unit) res \<times> _)"
  by (rule on_codec_flat) (rule codec_ops_flat)

lemma ws_flush_flat:
  "ws_flush (mem_env :: (mem_io, unit, mask4, 'r, 'x) env) (flat s) = apsnd flat (ws_flush mem_env s)"
proof -
  let ?env = "mem_env :: (mem_io, unit, mask4, 'r, 'x) env"
  have env: "env_transport ?env = mem_transport" by (simp add: mem_env_def)
  have close: "on_codec (codec_close (mem_transport :: (mem_io, unit, ('r, 'x) error) transport)) (flat t)
      = apsnd flat (on_codec (codec_close (mem_transport :: (mem_io, unit, ('r, 'x) error) transport)) t :: (('r, 'x) error, unit) res \<times> _)" for t
    by (rule on_codec_flat) (rule codec_ops_flat)
  show ?thesis
  proof (cases "ws_role s = Server \<and> \<not> can_read (ws_conn s)")
    case True
    then show ?thesis
      using close[of "s\<lparr>ws_conn := Terminated\<rparr>"] by (simp add: ws_flush_def env bind_st_flat)
  next
    case False
    then show ?thesis by (auto simp: ws_flush_def env flush_flat bind_st_flat)
  qed
qed

lemma ws_close_flat:
  "ws_close (mem_env :: (mem_io, unit, mask4, 'r, 'x) env) code (flat s) = apsnd flat (ws_close mem_env code s)"
  using write_frame_flat[of "frame_close code" "s\<lparr>ws_conn := ClosedByUs\<rparr>", where ?'r = 'r and ?'x = 'x]
  by (simp add: ws_close_def ws_flush_flat bind_st_flat)

lemma ws_write_flat:
  "ws_write (mem_env :: (mem_io, unit, mask4, 'r, 'x) env) m (flat s) = apsnd flat (ws_write mem_env m s)"
  by (cases m) (simp_all add: ws_write_eq ws_close_flat write_frame_flat bind_st_flat)

lemma auto_send_flat:
  "auto_send (mem_env :: (mem_io, unit, mask4, 'r, 'x) env) reply (flat s) = apsnd flat (auto_send mem_env reply s)"
  by (cases reply) (simp_all add: auto_send_def write_frame_flat bind_st_flat flush_flat mem_env_def[THEN arg_cong[of _ _ env_transport], simplified])

text \<open>Handling a frame does not look at the codec.\<close>

lemma do_close_flat: "do_close c (flat s) = apsnd flat (do_close c s)"
  by (cases "ws_conn s") (simp_all add: do_close_def Let_def)

lemma handle_control_flat: "handle_control sv ctl f (flat s) = apsnd flat (handle_control sv ctl f s)"
proof -
  have close: "bind_st (r, flat s) (\<lambda>c s1. bind_st (do_close c s1) (\<lambda>(msg, reply) s2. (Ok (h msg reply), s2)))
      = apsnd flat (bind_st (r, s) (\<lambda>c s1. bind_st (do_close c s1) (\<lambda>(msg, reply) s2. (Ok (h msg reply), s2))))" for r h
    by (cases r) (simp_all add: do_close_flat bind_st_flat case_prod_beta)
  show ?thesis by (simp add: handle_control_def close split: op_ctl.split)
qed

lemma handle_continue_flat:
  "handle_continue sv f (flat s) = apsnd flat (handle_continue sv f s :: (('r, 'x) error, message option) res \<times> _)"
proof (cases "ws_incomplete s")
  case (Some m)
  obtain r m' where "incomplete_message_extend sv m (frame_into_payload f) (max_message_size (ws_config s)) = (r :: (('r, 'x) error, unit) res, m')"
    by fastforce
  then show ?thesis using Some
    by (cases r; cases "incomplete_message_complete m' :: (('r, 'x) error, message) res") (simp_all add: handle_continue_def)
qed (simp add: handle_continue_def)

lemma handle_first_fragment_flat:
  "handle_first_fragment sv d f (flat s) = apsnd flat (handle_first_fragment sv d f s :: (('r, 'x) error, message option) res \<times> _)"
proof -
  have "(case incomplete_message_extend sv (incomplete_message_new ty) (frame_into_payload f) (max_message_size (ws_config s)) of
         (r :: (('r, 'x) error, unit) res, m) \<Rightarrow> bind_st (r, flat s) (\<lambda>_ s2. (Ok None, s2\<lparr>ws_incomplete := Some m\<rparr>)))
    = apsnd flat (case incomplete_message_extend sv (incomplete_message_new ty) (frame_into_payload f) (max_message_size (ws_config s)) of
         (r :: (('r, 'x) error, unit) res, m) \<Rightarrow> bind_st (r, s) (\<lambda>_ s2. (Ok None :: (('r, 'x) error, message option) res, s2\<lparr>ws_incomplete := Some m\<rparr>)))" for ty
    by (cases "incomplete_message_extend sv (incomplete_message_new ty) (frame_into_payload f) (max_message_size (ws_config s))
         :: (('r, 'x) error, unit) res \<times> _"; cases "fst (incomplete_message_extend sv (incomplete_message_new ty) (frame_into_payload f) (max_message_size (ws_config s))
         :: (('r, 'x) error, unit) res \<times> _)") simp_all
  then show ?thesis by (cases d) (simp_all add: handle_first_fragment_def)
qed

lemma handle_data_flat:
  "handle_data sv d f (flat s) = apsnd flat (handle_data sv d f s :: (('r, 'x) error, message option) res \<times> _)"
  by (cases d) (simp_all add: handle_data_def handle_continue_flat handle_first_fragment_flat bind_st_flat_pair Let_def)

lemma accept_frame_flat:
  "accept_frame sv f (flat s) = apsnd flat (accept_frame sv f s :: (('r, 'x) error, received) res \<times> _)"
  by (cases "opcode (header f)")
    (simp_all add: accept_frame_def handle_frame_def handle_control_flat handle_data_flat bind_st_flat)

lemma end_of_stream_flat: "end_of_stream (flat s) = apsnd flat (end_of_stream s :: (('r, 'x) error, received) res \<times> _)"
  by (simp add: end_of_stream_def)

lemma read_message_frame_flat:
  "read_message_frame (mem_env :: (mem_io, unit, mask4, 'r, 'x) env) (flat s) = apsnd flat (read_message_frame mem_env s)"
proof -
  let ?env = "mem_env :: (mem_io, unit, mask4, 'r, 'x) env"
  let ?next = "codec_next (env_platform ?env) (env_transport ?env)"
  have nx: "on_codec ?next (flat s) = apsnd flat (on_codec ?next s)"
    by (rule on_codec_flat) (simp add: mem_env_def codec_next_flat)
  obtain res s1 where r: "on_codec ?next s = (res, s1)" by (cases "on_codec ?next s")
  show ?thesis
    unfolding read_message_frame_def nx r apsnd_conv Let_def prod.case flat_simps
    by (rule trans[OF _ bind_st_flat[where p = "(check_connection_reset (ws_conn s1) (transpose res), s1)"]])
      (simp_all add: accept_frame_flat end_of_stream_flat split: option.split)
qed

lemma read_loop_flat:
  fixes s :: mem_socket
  assumes "ws_inv s" "read_loop (mem_env :: (mem_io, unit, mask4, 'r, 'x) env) s = Some (r, s')"
  shows "read_loop (mem_env :: (mem_io, unit, mask4, 'r, 'x) env) (flat s) = Some (r, flat s')"
  using assms
proof (induction "socket_input s" arbitrary: s rule: less_induct)
  case less
  let ?env = "mem_env :: (mem_io, unit, mask4, 'r, 'x) env"
  obtain q s1 where q: "read_message_frame ?env s = (q, s1)" by (cases "read_message_frame ?env s")
  then have qf: "read_message_frame ?env (flat s) = (q, flat s1)" by (simp add: read_message_frame_flat)
  note ok = mem.read_message_frame_ok[OF less.prems(1) q]
  show ?case
  proof (cases "\<exists>msg reply. q = Ok (msg, reply)")
    case True
    then obtain msg reply where msg: "q = Ok (msg, reply)" by blast
    obtain u s2 where s2: "auto_send ?env reply s1 = (u, s2)" by (cases "auto_send ?env reply s1")
    then have s2f: "auto_send ?env reply (flat s1) = (u, flat s2)" by (simp add: auto_send_flat)
    show ?thesis
    proof (cases "u = Ok () \<and> msg = None")
      case True
      then have "reply = None" using ok msg by auto
      then have "s2 = s1" using s2 by (simp add: auto_send_def)
      moreover have "socket_input s1 < socket_input s"
        using read_message_frame_progress[OF less.prems(1), where ?'r = 'r and ?'x = 'x] q msg by blast
      moreover have "ws_inv s1" using ok by blast
      moreover have "read_loop ?env s = read_loop ?env s2" "read_loop ?env (flat s) = read_loop ?env (flat s2)"
        using q qf msg s2 s2f True by (subst read_loop.simps; simp)+
      ultimately show ?thesis using less.hyps[of s1] less.prems(2) by simp
    next
      case False
      then show ?thesis
        using less.prems(2) q qf msg s2 s2f
        by (cases u; cases msg; subst read_loop.simps; subst (asm) read_loop.simps; simp)
    qed
  next
    case False
    then show ?thesis
      using less.prems(2) q qf by (cases q; subst read_loop.simps; subst (asm) read_loop.simps; auto)
  qed
qed

lemma ws_read_flat:
  fixes s :: mem_socket
  assumes "ws_inv s"
  shows "ws_read (mem_env :: (mem_io, unit, mask4, 'r, 'x) env) (flat s) = map_option (apsnd flat) (ws_read mem_env s)"
proof -
  let ?env = "mem_env :: (mem_io, unit, mask4, 'r, 'x) env"
  obtain r s' where r: "read_loop ?env s = Some (r, s')" using read_loop_returns[OF assms, where ?'r = 'r and ?'x = 'x] by blast
  from read_loop_flat[OF assms r] r show ?thesis
    by (cases "check_not_terminated (ws_conn s) :: (('r, 'x) error, unit) res") (simp_all add: ws_read_def)
qed

text \<open>A run of operations, with the result of each.\<close>

fun perform_all ::
  "('s, 'q, 'g, 'r, 'x) env \<Rightarrow> ws_op list \<Rightarrow> ('s, 'q, 'g) websocket
     \<Rightarrow> ((('r, 'x) error, message option) res list \<times> ('s, 'q, 'g) websocket) option" where
  "perform_all env [] s = Some ([], s)"
| "perform_all env (op # ops) s = (case perform env op s of
     None \<Rightarrow> None
   | Some (r, s1) \<Rightarrow> map_option (\<lambda>(rs, t). (r # rs, t)) (perform_all env ops s1))"

lemma no_message_flat: "no_message (apsnd flat p) = apsnd flat (no_message p)"
  by (cases p) (simp add: no_message_def)

lemma perform_flat:
  fixes s :: mem_socket
  assumes "ws_inv s"
  shows "perform (mem_env :: (mem_io, unit, mask4, 'r, 'x) env) op (flat s) = map_option (apsnd flat) (perform mem_env op s)"
proof (cases op)
  case ORead
  then show ?thesis using assms by (simp add: ws_read_flat option.map_comp comp_def split_def apsnd_def map_prod_def)
qed (simp_all add: ws_write_flat ws_close_flat ws_flush_flat no_message_flat)

lemma perform_all_flat:
  fixes s :: mem_socket
  assumes "ws_inv s"
  shows "perform_all (mem_env :: (mem_io, unit, mask4, 'r, 'x) env) ops (flat s) = map_option (apsnd flat) (perform_all mem_env ops s)"
  using assms
proof (induction ops arbitrary: s)
  case (Cons op ops)
  show ?case
  proof (cases "perform (mem_env :: (mem_io, unit, mask4, 'r, 'x) env) op s")
    case None
    then show ?thesis using perform_flat[OF Cons.prems, of op, where ?'r = 'r and ?'x = 'x] by simp
  next
    case (Some p)
    obtain r s1 where p: "p = (r, s1)" by (cases p)
    then have "ws_inv s1" using mem.perform_ok[OF Cons.prems] Some by blast
    from Cons.IH[OF this] show ?thesis
      using Some p perform_flat[OF Cons.prems, of op, where ?'r = 'r and ?'x = 'x]
      by (simp add: option.map_comp comp_def split_def apsnd_def map_prod_def)
  qed
qed simp

text \<open>On a finite input every run returns.\<close>

lemma perform_all_returns:
  fixes s :: mem_socket
  assumes "ws_inv s"
  shows "\<exists>rs t. perform_all (mem_env :: (mem_io, unit, mask4, 'r, 'x) env) ops s = Some (rs, t)"
  using assms
proof (induction ops arbitrary: s)
  case (Cons op ops)
  obtain r0 s0 where "read_loop (mem_env :: (mem_io, unit, mask4, 'r, 'x) env) s = Some (r0, s0)"
    using read_loop_returns[OF Cons.prems, where ?'r = 'r and ?'x = 'x] by blast
  then have "\<exists>p. ws_read (mem_env :: (mem_io, unit, mask4, 'r, 'x) env) s = Some p"
    by (cases "check_not_terminated (ws_conn s) :: (('r, 'x) error, unit) res") (simp_all add: ws_read_def)
  then have "\<exists>p. perform (mem_env :: (mem_io, unit, mask4, 'r, 'x) env) op s = Some p" by (cases op) auto
  then obtain r s1 where s1: "perform (mem_env :: (mem_io, unit, mask4, 'r, 'x) env) op s = Some (r, s1)" by auto
  then have "ws_inv s1" using mem.perform_ok[OF Cons.prems] by blast
  from Cons.IH[OF this] s1 show ?case by auto
qed simp

text \<open>C10. On any bytes, of a correct peer or not, what a connection does depends only on the bytes and
  not on the pieces in which the transport delivers them: every run of operations returns,
  with the same results (messages and errors) and the same bytes put on the wire.\<close>

theorem delivery_independent:
  assumes "limits_ok (config_or_default c)" "concat chunks = concat chunks'"
  shows "\<exists>rs s s'. perform_all (mem_env :: (mem_io, unit, mask4, 'r, 'x) env) ops (mem_connection chunks rl c g) = Some (rs, s)
    \<and> perform_all (mem_env :: (mem_io, unit, mask4, 'r, 'x) env) ops (mem_connection chunks' rl c g) = Some (rs, s')
    \<and> on_the_wire s' = on_the_wire s \<and> ws_conn s' = ws_conn s"
proof -
  let ?env = "mem_env :: (mem_io, unit, mask4, 'r, 'x) env"
  let ?s = "\<lambda>cs. mem_connection cs rl c g"
  have inv: "ws_inv (?s cs)" for cs unfolding mem_connection_def using assms(1) by (rule new_connection_inv(1))
  have same: "flat (?s chunks) = flat (?s chunks')"
    using assms(2) by (simp add: mem_connection_def from_raw_socket_def ws_setup_def codec_new_def framed_new_def Let_def
        codec_update_decoder_def flat_def flat_codec_def flat_framed_def)
  obtain rs s where s: "perform_all ?env ops (?s chunks) = Some (rs, s)" using perform_all_returns[OF inv, where ?'r = 'r and ?'x = 'x] by blast
  obtain rs' s' where s': "perform_all ?env ops (?s chunks') = Some (rs', s')" using perform_all_returns[OF inv, where ?'r = 'r and ?'x = 'x] by blast
  have "Some (apsnd flat (rs, s)) = Some (apsnd flat (rs', s'))"
    using perform_all_flat[OF inv[of chunks], of ops, where ?'r = 'r and ?'x = 'x]
      perform_all_flat[OF inv[of chunks'], of ops, where ?'r = 'r and ?'x = 'x] s s' same by simp
  then have "rs' = rs" "flat s' = flat s" by simp_all
  moreover from this(2) have "on_the_wire s' = on_the_wire s" "ws_conn s' = ws_conn s"
    using flat_wire[of s] flat_wire[of s'] flat_simps(3)[of s] flat_simps(3)[of s'] by simp_all
  ultimately show ?thesis using s s' by blast
qed

text \<open>A ping and the start of a reserved frame, at once and byte by byte.\<close>

lemma delivery_independent_witness:
  "let run = \<lambda>chunks. map_option fst (perform_all (mem_env :: (mem_io, unit, mask4, unit, unit) env)
       [ORead, OWrite (MBinary [1]), OFlush, ORead] (mem_connection chunks Client None (1, 2, 3, 4)))
   in run [[0x89, 0, 0xBF, 0]] = run [[0x89], [0], [0xBF], [0]]"
proof -
  have "limits_ok (config_or_default None)" using default_limits_ok by (simp add: config_or_default_def)
  from delivery_independent[OF this, of "[[0x89, 0, 0xBF, 0]]" "[[0x89], [0], [0xBF], [0]]"
      "[ORead, OWrite (MBinary [1]), OFlush, ORead]" Client "(1, 2, 3, 4)", where ?'r = unit and ?'x = unit]
  show ?thesis unfolding Let_def by (auto simp del: perform_all.simps)
qed

end
