(* ===== verification/Frame_Spec.thy ===== *)
theory Frame_Spec
  imports Fragmentation
begin

text \<open>
  An abstract endpoint: the closing state, and the type and bytes of the message that is being
  assembled. What a frame does to it is one function; the frame handling of
  \<open>src/protocol/websocket.rs\<close>, with its collectors and incremental validation, refines it.
\<close>

section \<open>The abstract endpoint\<close>

type_synonym partial_message = "(incomplete_type \<times> bytes) option"

datatype frame_outcome =
    Delivers "message option" "frame option"
  | Refuses protocol_error
  | Too_Long usize usize
  | Not_Text

text \<open>
  The message in assembly afterwards: known, or, after invalid text in the middle of a text,
  the bytes collected so far, of which only the limit is promised.
\<close>

datatype partial_after = Now partial_message | Left_Over incomplete_type

definition collect_spec ::
  "websocket_config \<Rightarrow> bool \<Rightarrow> incomplete_type \<Rightarrow> bytes \<Rightarrow> frame \<Rightarrow> frame_outcome \<times> partial_after" where
  "collect_spec cfg going ty held f =
     (let data = held @ payload f; l = max_message_size cfg in
      if limit_of l < length data
      then (Too_Long (len_usize data) (limit_word l), Now (if going then Some (ty, held) else None))
      else if text_break ty data \<noteq> None then (Not_Text, if going then Left_Over ty else Now None)
      else if \<not> is_final (header f) then (Delivers None None, Now (Some (ty, data)))
      else if content_ok ty data then (Delivers (Some (message_of ty data)) None, Now None)
      else (Not_Text, Now None))"

text \<open>The close frame of a payload, if its reason is text; a single byte is a violation.\<close>

fun close_content :: "bytes \<Rightarrow> close_frame option option" where
  "close_content (a # b # reason) =
     (if valid_utf8 reason
      then Some (Some \<lparr>close_code = close_code_of_u16 (u16_from_be_bytes [a, b]), close_reason = Utf8Bytes reason\<rparr>)
      else None)"
| "close_content _ = Some None"

fun control_spec ::
  "op_ctl \<Rightarrow> bytes \<Rightarrow> conn_state \<Rightarrow> frame_outcome \<times> conn_state" where
  "control_spec OpPing d c = (Delivers (Some (MPing d)) (if c = Active then Some (frame_pong d) else None), c)"
| "control_spec OpPong d c = (Delivers (Some (MPong d)) None, c)"
| "control_spec OpClose d c = (case close_content d of
     None \<Rightarrow> (Not_Text, c)
   | Some code \<Rightarrow>
       let answer = close_answer c code in
       (Delivers (Some (MClose answer)) (if c = Active then Some (frame_close answer) else None),
        if c = Active then ClosedByPeer else CloseAcknowledged))"
| "control_spec (OpCtlReserved i) d c = (Refuses (UnknownControlFrameType i), c)"

fun data_spec :: "websocket_config \<Rightarrow> op_data \<Rightarrow> partial_message \<Rightarrow> frame \<Rightarrow> frame_outcome \<times> partial_after" where
  "data_spec cfg OpContinue (Some (ty, held)) f = collect_spec cfg True ty held f"
| "data_spec cfg OpText None f = collect_spec cfg False IncText [] f"
| "data_spec cfg OpBinary None f = collect_spec cfg False IncBinary [] f"
| "data_spec cfg OpContinue None f = (Refuses UnexpectedContinueFrame, Now None)"
| "data_spec cfg (OpDataReserved i) None f = (Refuses (UnknownDataFrameType i), Now None)"
| "data_spec cfg d p f = (Refuses (ExpectedFragment d), Now p)"

definition frame_spec ::
  "role \<Rightarrow> websocket_config \<Rightarrow> conn_state \<times> partial_message \<Rightarrow> frame \<Rightarrow> frame_outcome \<times> conn_state \<times> partial_after" where
  "frame_spec rl cfg a f = (case a of (c, p) \<Rightarrow>
     (case frame_violation rl c (p \<noteq> None) f of
        Some e \<Rightarrow> (Refuses e, c, Now p)
      | None \<Rightarrow>
          (case opcode (header f) of
             OpControl ctl \<Rightarrow> (case control_spec ctl (payload f) c of (out, c') \<Rightarrow> (out, c', Now p))
           | OpData d \<Rightarrow> (case data_spec cfg d p f of (out, after) \<Rightarrow> (out, c, after)))))"

section \<open>What stands for what\<close>

definition represents :: "('s, 'q, 'g) websocket \<Rightarrow> conn_state \<times> partial_message \<Rightarrow> bool" where
  "represents s a \<longleftrightarrow> (case a of (c, p) \<Rightarrow> ws_conn s = c \<and>
     (case ws_incomplete s of
        None \<Rightarrow> p = None
      | Some m \<Rightarrow> \<exists>ty held. p = Some (ty, held) \<and> message_rep m ty held \<and> length held \<le> limit_of (max_message_size (ws_config s))))"

definition represents_after :: "('s, 'q, 'g) websocket \<Rightarrow> conn_state \<Rightarrow> partial_after \<Rightarrow> bool" where
  "represents_after s c after \<longleftrightarrow> (case after of
     Now p \<Rightarrow> represents s (c, p)
   | Left_Over ty \<Rightarrow> \<exists>kept. represents s (c, Some (ty, kept)))"

fun outcome_of :: "(('r, 'x) error, received) res \<Rightarrow> frame_outcome option" where
  "outcome_of (Ok (m, reply)) = Some (Delivers m reply)"
| "outcome_of (Err (Protocol e)) = Some (Refuses e)"
| "outcome_of (Err (Capacity (MessageTooLong n mx))) = Some (Too_Long n mx)"
| "outcome_of (Err (Utf8 t)) = Some Not_Text"
| "outcome_of _ = None"

text \<open>A result with its state, against a specified one.\<close>

definition refines ::
  "(('r, 'x) error, received) res \<times> ('s, 'q, 'g) websocket \<Rightarrow> frame_outcome \<times> conn_state \<times> partial_after \<Rightarrow> bool" where
  "refines res spec \<longleftrightarrow> (case res of (r, s') \<Rightarrow> case spec of (out, c', after) \<Rightarrow>
     outcome_of r = Some out \<and> represents_after s' c' after)"

lemma represents_conn: "represents s (c, p) \<Longrightarrow> ws_conn s = c"
  by (simp add: represents_def)

lemma represents_incomplete: "represents s (c, p) \<Longrightarrow> ws_incomplete s = None \<longleftrightarrow> p = None"
  by (auto simp: represents_def split: option.splits)

section \<open>Data frames\<close>

context utf8_validator
begin

lemma extend_outcome:
  fixes q :: "(('r, 'x) error, unit) res"
  assumes rep: "message_rep m ty held" and total: "length (held @ p) < 2 ^ 64" and old: "length held \<le> limit_of l"
    and q: "incomplete_message_extend sv m p l = (q, m')"
  obtains (over) "limit_of l < length (held @ p)" "q = Err (Capacity (MessageTooLong (len_usize (held @ p)) (limit_word l)))" "m' = m"
  | (broken) e kept where "\<not> limit_of l < length (held @ p)" "text_break ty (held @ p) = Some e" "q = Err (Utf8 e)"
      "message_rep m' ty kept" "length kept \<le> limit_of l"
  | (grown) "\<not> limit_of l < length (held @ p)" "text_break ty (held @ p) = None" "q = Ok ()" "message_rep m' ty (held @ p)"
proof (cases "limit_of l < length (held @ p)")
  case True
  then show ?thesis
    using extend_over_limit[OF rep total True, of sv, where ?'r = 'r and ?'x = 'x] q by (intro over) auto
next
  case False
  then have "length (held @ p) \<le> limit_of l" by simp
  note ext = extend_within_limit[OF rep total this, where ?'r = 'r and ?'x = 'x]
  show ?thesis
  proof (cases "text_break ty (held @ p)")
    case None
    then show ?thesis using False ext q by (intro grown) auto
  next
    case (Some e)
    then have "q = Err (Utf8 e)" using ext q by auto
    moreover obtain kept where "message_rep m' ty kept" "length kept \<le> limit_of l"
      using extend_keeps(1)[OF rep total old q] by blast
    ultimately show ?thesis using False Some by (intro broken)
  qed
qed

lemma continue_refines:
  fixes s :: "('s, 'q, 'g) websocket"
  assumes rep: "represents s (c, Some (ty, held))" and len: "limit_of (max_message_size (ws_config s)) + length (payload f) < 2 ^ 64"
  shows "refines (bind_st (handle_continue sv f s) (\<lambda>msg s1. (Ok (msg, None) :: (('r, 'x) error, received) res, s1)))
    (case collect_spec (ws_config s) True ty held f of (out, after) \<Rightarrow> (out, c, after))"
proof -
  let ?l = "max_message_size (ws_config s)"
  obtain m where m: "ws_incomplete s = Some m" "message_rep m ty held" "length held \<le> limit_of ?l" and c: "ws_conn s = c"
    using rep by (auto simp: represents_def split: option.splits)
  have total: "length (held @ payload f) < 2 ^ 64" using m(3) len by simp
  obtain q m' where q: "incomplete_message_extend sv m (payload f) ?l = (q :: (('r, 'x) error, unit) res, m')"
    by (cases "incomplete_message_extend sv m (payload f) ?l :: (('r, 'x) error, unit) res \<times> _") auto
  have step: "handle_continue sv f s = bind_st (q, s\<lparr>ws_incomplete := Some m'\<rparr>) (\<lambda>_ s1.
      if is_final (header f)
      then bind_st (incomplete_message_complete m', s1\<lparr>ws_incomplete := None\<rparr>) (\<lambda>msg s2. (Ok (Some msg), s2))
      else (Ok None, s1))"
    using m(1) q by (simp add: handle_continue_def frame_into_payload_def)
  note defs = step refines_def collect_spec_def represents_after_def represents_def Let_def
  from m(2) total m(3) q show ?thesis
  proof (cases rule: extend_outcome)
    case over
    then show ?thesis using m c by (simp add: defs)
  next
    case broken
    then show ?thesis using c by (auto simp: defs)
  next
    case grown
    then show ?thesis
      using c complete_rep[OF grown(4), where ?'r = 'r and ?'x = 'x]
      by (cases "incomplete_message_complete m' :: (('r, 'x) error, message) res") (auto simp: defs)
  qed
qed

text \<open>The first frame of a message, or the only one.\<close>

lemma whole_refines:
  fixes s :: "('s, 'q, 'g) websocket"
  assumes rep: "represents s (c, None)" and len: "length (payload f) < 2 ^ 64" and final: "is_final (header f)"
    and d: "d = (if ty = IncText then OpText else OpBinary)"
  shows "refines (bind_st (handle_data sv d f s) (\<lambda>msg s1. (Ok (msg, None) :: (('r, 'x) error, received) res, s1)))
    (case collect_spec (ws_config s) False ty [] f of (out, after) \<Rightarrow> (out, c, after))"
proof -
  let ?l = "max_message_size (ws_config s)" and ?p = "payload f"
  have s: "ws_incomplete s = None" "ws_conn s = c" using rep by (auto simp: represents_def split: option.splits)
  have size: "check_max_size (length ?p) ?l = (if limit_of ?l < length ?p
      then Err (Capacity (MessageTooLong (len_usize ?p) (limit_word ?l))) else Ok () :: (('r, 'x) error, unit) res)"
    using len by (cases ?l) (auto simp: check_max_size_def limit_of_def limit_word_def len_usize_def)
  have same: "represents_after s c (Now None)" using rep by (simp add: represents_after_def)
  show ?thesis
  proof (cases "limit_of ?l < length ?p")
    case True
    then show ?thesis
      using s d final size same by (cases ty) (simp_all add: handle_data_def refines_def collect_spec_def Let_def)
  next
    case False
    have "valid_utf8 ?p \<Longrightarrow> text_break IncText ?p = None" by (simp add: text_break_def)
    then show ?thesis
      using False s d final size same
      by (cases ty) (auto simp: handle_data_def refines_def collect_spec_def Let_def frame_into_text_def utf8_try_from_def basic
          content_ok_def text_break_def frame_into_payload_def)
  qed
qed

lemma first_fragment_refines:
  fixes s :: "('s, 'q, 'g) websocket"
  assumes rep: "represents s (c, None)" and len: "length (payload f) < 2 ^ 64" and final: "\<not> is_final (header f)"
    and d: "d = (if ty = IncText then OpText else OpBinary)"
  shows "refines (bind_st (handle_data sv d f s) (\<lambda>msg s1. (Ok (msg, None) :: (('r, 'x) error, received) res, s1)))
    (case collect_spec (ws_config s) False ty [] f of (out, after) \<Rightarrow> (out, c, after))"
proof -
  let ?l = "max_message_size (ws_config s)" and ?p = "payload f"
  have s: "ws_incomplete s = None" "ws_conn s = c" using rep by (auto simp: represents_def split: option.splits)
  obtain q m where q: "incomplete_message_extend sv (incomplete_message_new ty) ?p ?l = (q :: (('r, 'x) error, unit) res, m)"
    by (cases "incomplete_message_extend sv (incomplete_message_new ty) ?p ?l :: (('r, 'x) error, unit) res \<times> _") auto
  have step: "handle_data sv d f s = bind_st (q, s) (\<lambda>_ s2. (Ok None, s2\<lparr>ws_incomplete := Some m\<rparr>))"
    using q s(1) final d by (cases ty) (simp_all add: handle_data_def handle_first_fragment_def frame_into_payload_def Let_def)
  have same: "represents_after s c (Now None)" using rep by (simp add: represents_after_def)
  note defs = step refines_def collect_spec_def Let_def
  have total: "length ([] @ ?p) < 2 ^ 64" and fresh: "length ([] :: bytes) \<le> limit_of ?l" using len by simp_all
  from message_rep_new[of ty] total fresh q show ?thesis
  proof (cases rule: extend_outcome)
    case over
    then show ?thesis using same by (simp add: defs)
  next
    case broken
    then show ?thesis using same by (simp add: defs)
  next
    case grown
    then show ?thesis using final s(2) by (simp add: defs represents_after_def represents_def)
  qed
qed

lemma data_refines:
  fixes s :: "('s, 'q, 'g) websocket"
  assumes rep: "represents s (c, p)" and len: "limit_of (max_message_size (ws_config s)) + length (payload f) < 2 ^ 64"
    and ok: "data_violation (p \<noteq> None) d = None"
  shows "refines (bind_st (handle_data sv d f s) (\<lambda>msg s1. (Ok (msg, None) :: (('r, 'x) error, received) res, s1)))
    (case data_spec (ws_config s) d p f of (out, after) \<Rightarrow> (out, c, after))"
proof (cases p)
  case None
  have short: "length (payload f) < 2 ^ 64" using len by simp
  have d: "d = OpText \<or> d = OpBinary" using ok None by (cases d) (simp_all add: data_violation_def)
  note whole = whole_refines[of s c f d, where ?'r = 'r and ?'x = 'x] first_fragment_refines[of s c f d, where ?'r = 'r and ?'x = 'x]
  show ?thesis
    using d whole[of IncText] whole[of IncBinary] rep short None
    by (cases "is_final (header f)") auto
next
  case (Some part)
  obtain ty held where part: "p = Some (ty, held)" using Some by (cases part) simp
  then have "d = OpContinue" using ok by (cases d) (simp_all add: data_violation_def)
  then show ?thesis
    using continue_refines[of s c ty held f, where ?'r = 'r and ?'x = 'x] rep part len by (simp add: handle_data_def Let_def)
qed

section \<open>Every frame\<close>

lemma into_close_content:
  assumes "length (payload f) \<noteq> 1"
  shows "(frame_into_close sv f :: (('r, 'x) error, close_frame option) res)
    = (case close_content (payload f) of Some code \<Rightarrow> Ok code | None \<Rightarrow> Err (Utf8 (basic_text sv)))"
  using assms
  by (cases "payload f" rule: close_content.cases) (auto simp: frame_into_close_def utf8_try_from_def basic)

lemma control_refines:
  fixes s :: "('s, 'q, 'g) websocket"
  assumes rep: "represents s (c, p)" and "can_read c" "control_violation ctl f = None"
  shows "refines (handle_control sv ctl f s :: (('r, 'x) error, received) res \<times> _)
    (case control_spec ctl (payload f) c of (out, c') \<Rightarrow> (out, c', Now p))"
proof -
  have c: "ws_conn s = c" using rep by (rule represents_conn)
  have move: "represents (s\<lparr>ws_conn := c'\<rparr>) (c', p)" for c' using rep by (simp add: represents_def split: option.splits)
  have f: "is_final (header f)" "\<not> length (payload f) > 125" using assms(3) by (auto simp: control_violation_def split: if_splits)
  show ?thesis
  proof (cases ctl)
    case OpClose
    then have "length (payload f) \<noteq> 1" using assms(3) f by (auto simp: control_violation_def)
    note content = into_close_content[OF this, where ?'r = 'r and ?'x = 'x]
    show ?thesis
    proof (cases "close_content (payload f)")
      case None
      then show ?thesis using OpClose f rep by (simp add: handle_control_def content refines_def represents_after_def)
    next
      case (Some code)
      then show ?thesis
        using OpClose f move[of "if c = Active then ClosedByPeer else CloseAcknowledged"] assms(2) c
        by (simp add: handle_control_def content do_close_eq refines_def represents_after_def Let_def)
    qed
  qed (use f rep c assms(3) in \<open>simp_all add: handle_control_def refines_def represents_after_def frame_into_payload_def
      is_active_def control_violation_def\<close>)
qed

lemma accept_frame_refines:
  fixes s :: "('s, 'q, 'g) websocket"
  assumes rep: "represents s (c, p)" and len: "limit_of (max_message_size (ws_config s)) + length (payload f) < 2 ^ 64"
  shows "refines (accept_frame sv f s :: (('r, 'x) error, received) res \<times> _) (frame_spec (ws_role s) (ws_config s) (c, p) f)"
proof (cases "frame_violation (ws_role s) c (p \<noteq> None) f")
  case (Some e)
  have "accept_frame sv f s = (Err (Protocol e) :: (('r, 'x) error, received) res, s)"
    using accept_frame_violation[where s = s and f = f and sv = sv and ?'r = 'r and ?'x = 'x] Some represents_conn[OF rep] represents_incomplete[OF rep] by simp
  then show ?thesis using Some rep by (simp add: frame_spec_def refines_def represents_after_def)
next
  case None
  have c: "ws_conn s = c" using rep by (rule represents_conn)
  have ok: "can_read c" "\<not> (rsv1 (header f) \<or> rsv2 (header f) \<or> rsv3 (header f))" "\<not> (ws_role s = Client \<and> frame_is_masked f)"
    and rest: "(case opcode (header f) of OpControl ctl \<Rightarrow> control_violation ctl f | OpData d \<Rightarrow> data_violation (p \<noteq> None) d) = None"
    using None by (auto simp: frame_violation_def can_read_def simp del: not_None_eq split: if_splits)
  have accept: "accept_frame sv f s = (handle_frame sv f s :: (('r, 'x) error, received) res \<times> _)"
    using ok c by (auto simp: accept_frame_def)
  show ?thesis
  proof (cases "opcode (header f)")
    case (OpControl ctl)
    then show ?thesis
      using control_refines[OF rep ok(1), of ctl f, where ?'r = 'r and ?'x = 'x] rest None
      by (simp add: accept handle_frame_def frame_spec_def)
  next
    case (OpData d)
    show ?thesis
      using data_refines[OF rep len, of d, where ?'r = 'r and ?'x = 'x] rest None OpData
      by (simp add: accept handle_frame_def frame_spec_def split: prod.splits)
  qed
qed

end

text \<open>C9. The handling of a received frame refines the abstract endpoint: in any state within the
  invariant and for any frame the decoder can yield, the outcome (the message and the reply,
  the violation, the size that is over the limit, or invalid text) is the one \<open>frame_spec\<close>
  computes from the closing state and the bytes collected so far, and the new state stands for
  the specified one. The incremental collection and validation of text is not in the
  specification.\<close>

theorem frames_refine_protocol:
  fixes s :: "('s, 'q, 'g) websocket"
  assumes "utf8_validator sv" "ws_inv s" "frame_ok (ws_decoder s) f" "represents s a"
    and "accept_frame sv f s = (r :: (('r, 'x) error, received) res, s')"
    and "frame_spec (ws_role s) (ws_config s) a f = (out, c', after)"
  shows "outcome_of r = Some out \<and> represents_after s' c' after"
proof -
  obtain c p where a: "a = (c, p)" by (cases a)
  have "length (payload f) \<le> limit_of (max_frame_size (ws_config s))"
    using assms(2,3) limit_of_header_ok[of "ws_decoder s" "header f"] by (simp add: frame_ok_def ws_inv_def decoder_set_up_def)
  then have len: "limit_of (max_message_size (ws_config s)) + length (payload f) < 2 ^ 64"
    using assms(2) by (simp add: ws_inv_def limits_ok_def)
  from utf8_validator.accept_frame_refines[OF assms(1) assms(4)[unfolded a] len, where ?'r = 'r and ?'x = 'x]
  show ?thesis using assms(5,6) a by (simp add: refines_def)
qed

text \<open>Every state within the invariant stands for some abstract one.\<close>

lemma represents_exists: "ws_inv s \<Longrightarrow> \<exists>p. represents s (ws_conn s, p)"
  by (cases "ws_incomplete s") (auto simp: ws_inv_def incomplete_ok_def represents_def)

text \<open>A text cut within a character, to a new server.\<close>

lemma frames_refine_protocol_witness:
  "let s = from_raw_socket (mem_transport :: (mem_io, unit, (unit, unit) error) transport) \<lparr>mem_in = [], mem_out = []\<rparr> Server None (0 :: nat);
       f = data_frame OpText False [0x41, 0xE2];
       (r :: ((unit, unit) error, received) res, s') = accept_frame std_simdutf8 f s
   in outcome_of r = Some (Delivers None None) \<and> represents s' (Active, Some (IncText, [0x41, 0xE2]))"
proof -
  let ?s = "from_raw_socket (mem_transport :: (mem_io, unit, (unit, unit) error) transport) \<lparr>mem_in = [], mem_out = []\<rparr> Server None (0 :: nat)"
  let ?f = "data_frame OpText False [0x41, 0xE2]"
  have cfg: "config_or_default None = default_config" by (simp add: config_or_default_def)
  have inv: "ws_inv ?s" using default_limits_ok by (intro new_connection_inv(1)) (simp add: cfg)
  have f: "frame_ok (ws_decoder ?s) ?f"
    by (simp add: frame_ok_def header_ok_def from_raw_socket_simps cfg default_config_def data_frame_def default_header_def)
  have rep: "represents ?s (Active, None)" by (simp add: represents_def from_raw_socket_simps)
  obtain r s' where acc: "accept_frame std_simdutf8 ?f ?s = (r :: ((unit, unit) error, received) res, s')" by fastforce
  have spec: "frame_spec (ws_role ?s) (ws_config ?s) (Active, None) ?f = (Delivers None None, Active, Now (Some (IncText, [0x41, 0xE2])))"
    by (simp add: frame_spec_def frame_violation_def data_violation_def data_frame_def default_header_def from_raw_socket_simps cfg
        collect_spec_def default_config_def limit_of_def text_break_def std_from_utf8_step utf8_char_width_def)
  from frames_refine_protocol[OF std_utf8.utf8_validator_axioms inv f rep acc spec] acc show ?thesis
    by (simp add: represents_after_def Let_def)
qed

end
