(* ===== verification/Write_Buffer.thy ===== *)
theory Write_Buffer
  imports Session
begin

text \<open>
  The write buffer of \<open>src/protocol/frame/codec.rs\<close>: when bytes go to the stream, how much may
  wait, and what a flush does after one that has failed.
\<close>

section \<open>When bytes are written\<close>

text \<open>\<open>send\<close> touches the stream only when the buffer is over the limit, and then empties it first.\<close>

context byte_sink
begin

lemma send_batches:
  assumes "(codec_send pl tr f fc :: (('r, 'x) error, unit) res \<times> _) = (r, fc')"
  shows "length (fc_write_buf fc) \<le> unat (fc_write_limit fc) \<Longrightarrow>
      r = Ok () \<and> codec_get_io fc' = codec_get_io fc \<and> fc_write_buf fc' = fc_write_buf fc @ frame_bytes pl f"
    and "length (fc_write_buf fc) > unat (fc_write_limit fc) \<Longrightarrow> r = Ok () \<Longrightarrow>
      sent (codec_get_io fc') = outgoing sent fc \<and> fc_write_buf fc' = frame_bytes pl f"
proof -
  show "length (fc_write_buf fc) \<le> unat (fc_write_limit fc) \<Longrightarrow>
      r = Ok () \<and> codec_get_io fc' = codec_get_io fc \<and> fc_write_buf fc' = fc_write_buf fc @ frame_bytes pl f"
    using assms by (auto simp: codec_send_def encode_eq)
  assume full: "length (fc_write_buf fc) > unat (fc_write_limit fc)" "r = Ok ()"
  obtain q fc1 where q: "codec_flush_io tr fc = (q, fc1)" by (cases "codec_flush_io tr fc")
  then have "q = Ok ()" using assms full by (cases q) (auto simp: codec_send_def)
  then show "sent (codec_get_io fc') = outgoing sent fc \<and> fc_write_buf fc' = frame_bytes pl f"
    using assms full(1) flush_io_ok(2)[OF q] by (auto simp: codec_send_def q encode_eq)
qed

end

context sound_env
begin

lemma write_frame_batches:
  assumes "write_frame env f s = (r, s')"
  defines "fc \<equiv> ws_codec s" and "fc' \<equiv> ws_codec s'"
  shows "\<exists>f'. sent_as (ws_role s) f f'
    \<and> (if length (fc_write_buf fc) \<le> unat (fc_write_limit fc)
       then r = Ok () \<and> codec_get_io fc' = codec_get_io fc \<and> fc_write_buf fc' = fc_write_buf fc @ frame_bytes (env_platform env) f'
       else r = Ok () \<longrightarrow> sent (codec_get_io fc') = outgoing sent fc \<and> fc_write_buf fc' = frame_bytes (env_platform env) f')"
proof -
  define g where "g = (if ws_role s = Client then frame_set_mask (fst (env_draw_mask env (ws_rng s))) f else f)"
  obtain q fc1 where q: "(codec_send (env_platform env) (env_transport env) g (ws_codec s) :: (('r, 'x) error, unit) res \<times> _) = (q, fc1)"
    by (cases "codec_send (env_platform env) (env_transport env) g (ws_codec s) :: (('r, 'x) error, unit) res \<times> _")
  then have r: "r = check_connection_reset (ws_conn s) q" "ws_codec s' = fc1"
    using assms(1) by (cases "ws_role s"; cases q; auto simp: write_frame_def on_codec_def g_def bind_st_def split: prod.splits res.splits)+
  have "sent_as (ws_role s) f g" unfolding g_def sent_as_def by (simp only: if_True if_False split: if_split) blast
  then show ?thesis
    using io.send_batches[OF q] r by (intro exI[of _ g]) (auto simp: fc_def fc'_def)
qed

end

text \<open>C17. The write buffer batches: a message written while at most \<open>write_buffer_size\<close> bytes wait
  succeeds and only waits with them, the stream is left alone; otherwise all that waits is put
  on the stream first and only the new message waits. So after a successful write at most the
  limit and one frame wait, and a limit of 0 does not put a message on the stream when it is
  written.\<close>

theorem write_batches:
  fixes env :: "('s, 'q, 'g, 'r, 'x) env"
  defines "buf \<equiv> \<lambda>s. codec_write_buffer (ws_codec s)"
  assumes "sound_env env sent" "ws_conn s = Active" "\<not> message_is_close m" "ws_write env m s = (r, s')"
  shows "\<exists>f. sent_as (ws_role s) (frame_of_message m) f
    \<and> (if length (buf s) \<le> unat (codec_write_limit (ws_codec s))
       then r = Ok () \<and> ws_get_ref s' = ws_get_ref s \<and> buf s' = buf s @ encode (env_platform env) f []
       else r = Ok () \<longrightarrow> sent (ws_get_ref s') = sent (ws_get_ref s) @ buf s \<and> buf s' = encode (env_platform env) f [])
    \<and> (r = Ok () \<longrightarrow> length (buf s') \<le> unat (codec_write_limit (ws_codec s)) + length (encode (env_platform env) f []))"
proof -
  have "write_frame env (frame_of_message m) s = (r, s')"
    using assms(3-5) by (cases "write_frame env (frame_of_message m) s"; cases "fst (write_frame env (frame_of_message m) s)"; cases m)
      (auto simp: ws_write_eq)
  from sound_env.write_frame_batches[OF assms(2) this] obtain f where f: "sent_as (ws_role s) (frame_of_message m) f"
    and b: "if length (buf s) \<le> unat (fc_write_limit (ws_codec s))
       then r = Ok () \<and> codec_get_io (ws_codec s') = codec_get_io (ws_codec s) \<and> buf s' = buf s @ frame_bytes (env_platform env) f
       else r = Ok () \<longrightarrow> sent (codec_get_io (ws_codec s')) = outgoing sent (ws_codec s) \<and> buf s' = frame_bytes (env_platform env) f"
    unfolding buf_def codec_write_buffer_def by blast
  show ?thesis
    using f b by (intro exI[of _ f])
      (auto simp: encode_eq ws_get_ref_def codec_write_limit_def outgoing_def buf_def codec_write_buffer_def split: if_splits)
qed

text \<open>A server with a write buffer size of 0 writes a ping: it waits.\<close>

lemma write_batches_witness:
  "let s' = snd (ws_write (mem_env :: (mem_io, unit, mask4, unit, unit) env) (MPing [7])
      (mem_connection [] Server (Some (with_write_buffer_size 0 default_config)) (0, 0, 0, 0)))
   in mem_out (ws_get_ref s') = [] \<and> codec_write_buffer (ws_codec s') = encode aligned_le (frame_ping [7]) []"
proof -
  let ?s = "mem_connection [] Server (Some (with_write_buffer_size 0 default_config)) (0, 0, 0, 0)"
  have s: "codec_write_buffer (ws_codec ?s) = []" "mem_out (ws_get_ref ?s) = []"
    using on_the_wire_new(1) by (simp_all add: codec_write_buffer_def ws_get_ref_def on_the_wire_def)
  from write_batches[where env = "mem_env :: (mem_io, unit, mask4, unit, unit) env" and s = ?s and m = "MPing [7]",
      OF mem.sound_env_axioms _ _ surjective_pairing]
  show ?thesis using s by (auto simp: Let_def sent_as_def mem_env_def)
qed

section \<open>After a failed flush\<close>

context byte_sink
begin

lemma failed_flush_io:
  assumes "codec_flush_io tr fc = (Err e, fc1)"
  shows "(fc_write_buf fc1 = fc_write_buf fc \<and> (\<exists>k. sent (codec_get_io fc1) = sent (codec_get_io fc) @ take k (fc_write_buf fc)))
    \<or> (fc_write_buf fc1 = [] \<and> sent (codec_get_io fc1) = outgoing sent fc)"
proof -
  let ?buf = "fc_write_buf fc" and ?io = "codec_get_io fc"
  have buf: "?buf \<noteq> []" using assms by (auto simp: codec_flush_io_def)
  obtain w io1 where w: "io_write_all tr ?buf ?io = (w, io1)" by (cases "io_write_all tr ?buf ?io")
  show ?thesis
  proof (cases w)
    case (Ok u)
    then show ?thesis
      using assms buf w write_ok[of ?buf ?io u io1] flush_sent[of io1]
      by (cases "io_flush tr io1") (auto simp: codec_flush_io_def outgoing_def Let_def)
  next
    case (Err e')
    then show ?thesis
      using assms buf w write_err[of ?buf ?io e' io1] by (auto simp: codec_flush_io_def Let_def)
  next
    case Panic
    then show ?thesis using write_panic[of ?buf ?io] w by simp
  qed
qed

end

text \<open>C18. Flushing again after a flush that failed. Either the stream had taken a part of the buffer
  when writing failed: the whole buffer is kept, and the second flush puts all of it behind
  that part, so the stream gets the part twice. Or writing went through and flushing the
  stream failed: the buffer is empty, and the second flush succeeds without touching the
  stream, which is not flushed.\<close>

theorem retried_flush:
  fixes tr :: "('s, 'q, 'e) transport"
  assumes "byte_sink tr sent"
    and first: "codec_flush tr fc = (Err e :: (('r, 'x) error, unit) res, fc1)"
    and second: "codec_flush tr fc1 = (Ok () :: (('r, 'x) error, unit) res, fc2)"
  shows "\<exists>k. sent (codec_get_io fc1) = sent (codec_get_io fc) @ take k (codec_write_buffer fc)
    \<and> (codec_write_buffer fc1 = codec_write_buffer fc
         \<and> sent (codec_get_io fc2) = sent (codec_get_io fc) @ take k (codec_write_buffer fc) @ codec_write_buffer fc
       \<or> codec_write_buffer fc1 = [] \<and> sent (codec_get_io fc1) = sent (codec_get_io fc) @ codec_write_buffer fc \<and> fc2 = fc1)"
proof -
  obtain e' where "codec_flush_io tr fc = (Err e', fc1)"
    using first by (auto simp: codec_flush_def lift_io_def split: prod.splits res.splits)
  note fail = byte_sink.failed_flush_io[OF assms(1) this]
  have ok: "codec_flush_io tr fc1 = (Ok (), fc2)"
    using second by (auto simp: codec_flush_def lift_io_def split: prod.splits res.splits)
  note retry = byte_sink.flush_io_ok(2)[OF assms(1) ok refl]
  have "fc2 = fc1" if "fc_write_buf fc1 = []" using ok that by (simp add: codec_flush_io_def)
  then show ?thesis
    using fail retry by (auto simp: codec_write_buffer_def outgoing_def intro: exI[of _ "length (fc_write_buf fc)"])
qed

text \<open>A stream whose first write takes one byte and fails.\<close>

definition flaky :: "(bytes \<times> bool, unit, (unit, unit) error) transport" where
  "flaky = \<lparr>io_write_all = (\<lambda>bs (out, up). if up then (Ok (), (out @ bs, up))
       else (Err (Io_Error ConnectionReset []), (out @ take 1 bs, True))),
     io_flush = (\<lambda>s. (Ok (), s)), io_shutdown = (\<lambda>s. (Ok (), s)), framed_next = (\<lambda>dec fr. (None, fr)), framed_start = ()\<rparr>"

lemma flaky_ops [simp]:
  "io_write_all flaky bs (out, False) = (Err (Io_Error ConnectionReset []), (out @ take 1 bs, True))"
  "io_write_all flaky bs (out, True) = (Ok (), (out @ bs, True))" "io_flush flaky s = (Ok (), s)"
  by (simp_all add: flaky_def)

lemma flaky_sink: "byte_sink flaky fst"
  by unfold_locales (auto simp: flaky_def split: if_splits)

lemma retried_flush_witness:
  "let fc = (codec_new flaky ([], False) 0)\<lparr>fc_write_buf := [1, 2]\<rparr>;
       fc1 = snd (codec_flush flaky fc :: ((unit, unit) error, unit) res \<times> _)
   in fst (codec_get_io (snd (codec_flush flaky fc1 :: ((unit, unit) error, unit) res \<times> _))) = [1, 1, 2]"
proof -
  let ?fc = "(codec_new flaky ([], False) 0)\<lparr>fc_write_buf := [1, 2]\<rparr>"
  define fc1 where "fc1 = snd (codec_flush flaky ?fc :: ((unit, unit) error, unit) res \<times> _)"
  have io: "codec_get_io (codec_new flaky ([], False) 0) = ([], False)" by (simp add: codec_new_def framed_new_def codec_get_io_def)
  have 1: "codec_flush flaky ?fc = (Err (Io (Io_Error ConnectionReset [])) :: ((unit, unit) error, unit) res, fc1)"
    by (simp add: fc1_def codec_flush_def codec_flush_io_def io Let_def)
  have fc1: "codec_get_io fc1 = ([1], True)" "fc_write_buf fc1 = [1, 2]"
    by (simp_all add: fc1_def codec_flush_def codec_flush_io_def io Let_def)
  have 2: "codec_flush flaky fc1 = (Ok () :: ((unit, unit) error, unit) res, snd (codec_flush flaky fc1 :: ((unit, unit) error, unit) res \<times> _))"
    by (simp add: codec_flush_def codec_flush_io_def fc1 Let_def)
  from retried_flush[OF flaky_sink 1 2] fc1 io show ?thesis by (auto simp: Let_def fc1_def codec_write_buffer_def)
qed

end
