(* ===== verification/Text_Safety.thy ===== *)
theory Text_Safety
  imports Connection
begin

text \<open>
  The type invariant behind the \<open>from_utf8_unchecked\<close> of \<open>src/protocol/frame/utf8/bytes.rs\<close>:
  no operation of the crate makes a \<open>Utf8Bytes\<close> whose bytes are not valid UTF-8.
\<close>

section \<open>Texts of ASCII characters\<close>

lemma ascii_byte_valid: "b < 0x80 \<Longrightarrow> std_from_utf8 (b # bs) = shift_verdict 1 (std_from_utf8 bs)"
  by (simp add: std_from_utf8_step utf8_char_width_def)

lemma ascii_bytes_valid: "\<forall>b \<in> set bs. b < 0x80 \<Longrightarrow> valid_utf8 bs"
  by (induction bs) (simp_all add: ascii_byte_valid)

lemma digit_byte: "d < 10 \<Longrightarrow> of_char (char_of (48 + d) :: char) < (0x80 :: u8)" for d :: nat
proof -
  assume "d < 10"
  then have "d \<in> {0, 1, 2, 3, 4, 5, 6, 7, 8, 9}" by auto
  then show ?thesis by (auto simp: char_of_def)
qed

lemma show_nat_bytes: "\<forall>c \<in> set (show_nat n). of_char c < (0x80 :: u8)"
  by (induction n rule: show_nat.induct) (subst show_nat.simps, auto intro: digit_byte)

section \<open>Text\<close>

text \<open>A message whose text, if it has one by its type, is text.\<close>

fun message_wf :: "message \<Rightarrow> bool" where
  "message_wf (MText t) \<longleftrightarrow> utf8_wf t"
| "message_wf (MClose (Some c)) \<longleftrightarrow> utf8_wf (close_reason c)"
| "message_wf m \<longleftrightarrow> True"

lemma message_ok_wf: "message_ok cfg m \<Longrightarrow> message_wf m"
  by (cases m rule: message_wf.cases) auto

lemma utf8_question_Ok: "utf8_question sv r = Ok a \<longleftrightarrow> r = Ok a"
  by (cases r) auto

lemma binary_data_text: "valid_utf8 (ascii (''Binary Data<length='' @ show_nat n @ ''>''))"
  using show_nat_bytes[of n] by (intro ascii_bytes_valid) (auto simp: ascii_def)

context utf8_validator
begin

lemma try_from_wf: "utf8_try_from sv bs = Ok u \<Longrightarrow> utf8_wf u"
  by (auto simp: utf8_try_from_def utf8_wf_def basic split: if_splits)

lemma frame_into_text_wf: "frame_into_text sv f = Ok u \<Longrightarrow> utf8_wf u"
  by (simp add: frame_into_text_def try_from_wf)

lemma message_texts:
  assumes "message_wf m"
  shows "(message_into_text sv m :: (('r, 'x) error, utf8_bytes) res) = Ok t \<Longrightarrow> utf8_wf t"
    and "(message_to_text sv m :: (('r, 'x) error, bytes) res) = Ok s \<Longrightarrow> valid_utf8 s"
proof -
  have "\<forall>t. m = MText t \<longrightarrow> utf8_wf t" "\<forall>c. m = MClose (Some c) \<longrightarrow> utf8_wf (close_reason c)" using assms by auto
  from message_text_of_data[OF utf8_validator_axioms this, where ?'r = 'r and ?'x = 'x]
  show "(message_into_text sv m :: (('r, 'x) error, utf8_bytes) res) = Ok t \<Longrightarrow> utf8_wf t"
    and "(message_to_text sv m :: (('r, 'x) error, bytes) res) = Ok s \<Longrightarrow> valid_utf8 s"
    by (auto simp: utf8_wf_def split: if_splits)
qed

lemma show_message_text: "message_wf m \<Longrightarrow> valid_utf8 (show_message sv m)"
  using message_texts(2)[of m, where ?'r = unit and ?'x = unit] binary_data_text
  by (auto simp: show_message_def split: res.splits)

end

text \<open>C19. Whatever makes a \<open>Utf8Bytes\<close> from bytes that are text by their type or that the validator
  accepts makes a valid one: the conversions from bytes and strings, the text and the close
  reason of a frame, the message a \<open>read\<close> returns or a collected one, the reason the crate puts
  in its answer to a close code that is not allowed; and the text of a valid message, borrowed,
  taken out or displayed, is text.\<close>

theorem text_is_always_utf8:
  fixes env :: "('s, 'q, 'g, 'r, 'x) env"
  defines "sv \<equiv> env_utf8 env"
  assumes "sound_env env sent"
  shows "(\<forall>bs u. Ok u \<in> {utf8_try_from sv bs, utf8_try_from_mut sv bs, utf8_try_from_vec sv bs} \<longrightarrow> utf8_wf u)
    \<and> (\<forall>s. valid_utf8 s \<longrightarrow> utf8_wf (utf8_of_string s) \<and> utf8_wf (utf8_of_str s) \<and> utf8_wf (utf8_of_string_ref s)
         \<and> message_wf (message_of_string s) \<and> message_wf (message_of_str s))
    \<and> (\<forall>f u. frame_into_text sv f = Ok u \<longrightarrow> utf8_wf u)
    \<and> (\<forall>f c. frame_into_close sv f = (Ok (Some c) :: (('r, 'x) error, close_frame option) res) \<longrightarrow> utf8_wf (close_reason c))
    \<and> (\<forall>c s' fr reply. message_wf (MClose c) \<and> do_close c (s :: ('s, 'q, 'g) websocket)
           = (Ok (Some (Some fr), reply) :: (('r, 'x) error, close_frame option option \<times> frame option) res, s') \<longrightarrow> utf8_wf (close_reason fr))
    \<and> (\<forall>im ty input m. message_rep im ty input \<and> incomplete_message_complete im = (Ok m :: (('r, 'x) error, message) res) \<longrightarrow> message_wf m)
    \<and> (\<forall>m s'. ws_inv s \<and> ws_read env s = Some (Ok m, s') \<longrightarrow> message_wf m)
    \<and> (\<forall>m. message_wf m \<longrightarrow>
         (\<forall>t. message_into_text sv m = (Ok t :: (('r, 'x) error, utf8_bytes) res) \<longrightarrow> utf8_wf t)
         \<and> (\<forall>t. message_to_text sv m = (Ok t :: (('r, 'x) error, bytes) res) \<longrightarrow> valid_utf8 t)
         \<and> valid_utf8 (show_message sv m))"
proof -
  have v: "utf8_validator sv" using sound_env.utf8_sound[OF assms(2)] by (simp add: sv_def)
  have close: "utf8_wf (close_reason fr)"
    if "message_wf (MClose c)" and do: "do_close c s = (Ok (Some (Some fr), reply) :: (('r, 'x) error, close_frame option option \<times> frame option) res, s')"
    for c fr reply s'
  proof (cases "ws_conn s = Active")
    case True
    then show ?thesis
      using that valid_protocol_violation by (cases c) (auto simp: do_close_def Let_def)
  next
    case False
    then show ?thesis using that by (cases "ws_conn s") (auto simp: do_close_def)
  qed
  have collected: "message_wf m"
    if "message_rep im ty input" "incomplete_message_complete im = (Ok m :: (('r, 'x) error, message) res)" for im ty input m
  proof -
    have "content_ok ty input \<and> m = message_of ty input"
      using that(2) complete_rep(1)[OF that(1), of m, where ?'r = 'r and ?'x = 'x] by simp
    then show ?thesis by (cases ty) (auto simp: content_ok_def utf8_wf_def)
  qed
  have read: "message_wf m" if "ws_inv s" "ws_read env s = Some (Ok m, s')" for m s'
    using sound_env.ws_read_ok[OF assms(2) that] message_ok_wf by blast
  show ?thesis
  proof (intro conjI)
    show "\<forall>bs u. Ok u \<in> {utf8_try_from sv bs, utf8_try_from_mut sv bs, utf8_try_from_vec sv bs} \<longrightarrow> utf8_wf u"
      using utf8_validator.try_from_wf[OF v] by (metis empty_iff insert_iff utf8_try_from_mut_def utf8_try_from_vec_def)
    show "\<forall>s. valid_utf8 s \<longrightarrow> utf8_wf (utf8_of_string s) \<and> utf8_wf (utf8_of_str s) \<and> utf8_wf (utf8_of_string_ref s)
         \<and> message_wf (message_of_string s) \<and> message_wf (message_of_str s)"
      by (simp add: utf8_wf_def utf8_of_string_def utf8_of_str_def utf8_of_string_ref_def message_of_string_def
          message_of_str_def message_text_def)
    show "\<forall>f u. frame_into_text sv f = Ok u \<longrightarrow> utf8_wf u"
      using utf8_validator.frame_into_text_wf[OF v] by blast
    show "\<forall>f c. frame_into_close sv f = (Ok (Some c) :: (('r, 'x) error, close_frame option) res) \<longrightarrow> utf8_wf (close_reason c)"
      using utf8_validator.into_close_ok[OF v] by blast
  qed (use close collected read utf8_validator.message_texts[OF v, where ?'r = 'r and ?'x = 'x]
      utf8_validator.show_message_text[OF v] in blast)+
qed

text \<open>A close frame with the reason \<open>bye\<close>, read by the validator of the standard library.\<close>

lemma text_is_always_utf8_witness:
  "let f = frame_close (Some \<lparr>close_code = Code_Away, close_reason = Utf8Bytes [98, 121, 101]\<rparr>) in
   \<exists>c. frame_into_close std_simdutf8 f = (Ok (Some c) :: ((unit, unit) error, close_frame option) res) \<and> utf8_wf (close_reason c)"
proof -
  let ?c = "\<lparr>close_code = Code_Away, close_reason = Utf8Bytes [98, 121, 101]\<rparr>"
  have "frame_into_close std_simdutf8 (frame_close (Some ?c)) = (Ok (Some ?c) :: ((unit, unit) error, close_frame option) res)"
    by (simp add: frame_close_def frame_into_close_def utf8_try_from_def std_simdutf8_def std_from_utf8_step utf8_char_width_def
        u16_to_be_bytes_def u16_from_be_bytes_def close_code_of_u16_def)
  moreover have "env_utf8 (mem_env :: (mem_io, unit, mask4, unit, unit) env) = std_simdutf8" by (simp add: mem_env_def)
  note text_is_always_utf8[where env = "mem_env :: (mem_io, unit, mask4, unit, unit) env", OF mem.sound_env_axioms, unfolded this,
      THEN conjunct2, THEN conjunct2, THEN conjunct2, THEN conjunct1]
  ultimately show ?thesis unfolding Let_def by blast
qed

end
