(* ===== verification/Error_Text.thy ===== *)
theory Error_Text
  imports Errors
begin

text \<open>
  The texts of the errors, the \<open>#[error]\<close> attributes of \<open>src/error.rs\<close>. The texts of foreign
  errors and of a status are parameters.
\<close>

definition decimal :: "nat \<Rightarrow> bytes" where
  "decimal n = ascii (show_nat n)"

definition quoted :: "string \<Rightarrow> bytes" where
  "quoted s = [34] @ ascii s @ [34]"

fun show_capacity_error :: "capacity_error \<Rightarrow> bytes" where
  "show_capacity_error TooManyHeaders = ascii ''Too many headers''"
| "show_capacity_error (MessageTooLong sz mx) = ascii ''Message too long: '' @ decimal (unat sz) @ ascii '' > '' @ decimal (unat mx)"

fun show_sub_protocol_error :: "sub_protocol_error \<Rightarrow> bytes" where
  "show_sub_protocol_error ServerSentSubProtocolNoneRequested = ascii ''Server sent a subprotocol but none was requested''"
| "show_sub_protocol_error InvalidSubProtocol = ascii ''Server sent an invalid subprotocol''"
| "show_sub_protocol_error NoSubProtocol = ascii ''Server sent no subprotocol''"

fun show_protocol_error :: "(httparse_error \<Rightarrow> bytes) \<Rightarrow> protocol_error \<Rightarrow> bytes" where
  "show_protocol_error sh WrongHttpMethod = ascii ''Unsupported HTTP method used - only GET is allowed''"
| "show_protocol_error sh WrongHttpVersion = ascii ''HTTP version must be 1.1 or higher''"
| "show_protocol_error sh MissingConnectionUpgradeHeader = ascii ''No '' @ quoted ''Connection: upgrade'' @ ascii '' header''"
| "show_protocol_error sh MissingUpgradeWebSocketHeader = ascii ''No '' @ quoted ''Upgrade: websocket'' @ ascii '' header''"
| "show_protocol_error sh MissingSecWebSocketVersionHeader = ascii ''No '' @ quoted ''Sec-WebSocket-Version: 13'' @ ascii '' header''"
| "show_protocol_error sh MissingSecWebSocketKey = ascii ''No '' @ quoted ''Sec-WebSocket-Key'' @ ascii '' header''"
| "show_protocol_error sh SecWebSocketAcceptKeyMismatch = ascii ''Key mismatch in '' @ quoted ''Sec-WebSocket-Accept'' @ ascii '' header''"
| "show_protocol_error sh (SecWebSocketSubProtocolError e) = ascii ''SubProtocol error: '' @ show_sub_protocol_error e"
| "show_protocol_error sh JunkAfterRequest = ascii ''Junk after client request''"
| "show_protocol_error sh CustomResponseSuccessful = ascii ''Custom response must not be successful''"
| "show_protocol_error sh (InvalidHeader n) = ascii ''Missing, duplicated or incorrect header '' @ n"
| "show_protocol_error sh HandshakeIncomplete = ascii ''Handshake not finished''"
| "show_protocol_error sh (HttparseError e) = ascii ''httparse error: '' @ sh e"
| "show_protocol_error sh SendAfterClosing = ascii ''Sending after closing is not allowed''"
| "show_protocol_error sh ReceivedAfterClosing = ascii ''Remote sent after having closed''"
| "show_protocol_error sh NonZeroReservedBits = ascii ''Reserved bits are non-zero''"
| "show_protocol_error sh UnmaskedFrameFromClient = ascii ''Received an unmasked frame from client''"
| "show_protocol_error sh MaskedFrameFromServer = ascii ''Received a masked frame from server''"
| "show_protocol_error sh FragmentedControlFrame = ascii ''Fragmented control frame''"
| "show_protocol_error sh ControlFrameTooBig = ascii ''Control frame too big (payload must be 125 bytes or less)''"
| "show_protocol_error sh (UnknownControlFrameType b) = ascii ''Unknown control frame type: '' @ decimal (unat b)"
| "show_protocol_error sh (UnknownDataFrameType b) = ascii ''Unknown data frame type: '' @ decimal (unat b)"
| "show_protocol_error sh UnexpectedContinueFrame = ascii ''Continue frame but nothing to continue''"
| "show_protocol_error sh (ExpectedFragment d) = ascii ''While waiting for more fragments received: '' @ ascii (show_op_data d)"
| "show_protocol_error sh ResetWithoutClosingHandshake = ascii ''Connection reset without closing handshake''"
| "show_protocol_error sh (InvalidOpcode b) = ascii ''Encountered invalid opcode: '' @ decimal (unat b)"
| "show_protocol_error sh InvalidCloseSequence = ascii ''Invalid close sequence''"

fun show_url_error :: "url_error \<Rightarrow> bytes" where
  "show_url_error TlsFeatureNotEnabled = ascii ''TLS support not compiled in''"
| "show_url_error NoHostName = ascii ''No host name in the URL''"
| "show_url_error UnsupportedUrlScheme = ascii ''URL scheme not supported''"
| "show_url_error EmptyHostName = ascii ''URL contains empty host name''"
| "show_url_error NoPathOrQuery = ascii ''No path/query in URL''"

fun show_tls_error :: "('x \<Rightarrow> bytes) \<Rightarrow> 'x tls_error \<Rightarrow> bytes" where
  "show_tls_error sx (Tls_Native e) = ascii ''native-tls error: '' @ sx e"
| "show_tls_error sx (Tls_Rustls e) = ascii ''rustls error: '' @ sx e"
| "show_tls_error sx InvalidDnsName = ascii ''Invalid DNS name''"

fun show_error :: "(httparse_error \<Rightarrow> bytes) \<Rightarrow> ('x \<Rightarrow> bytes) \<Rightarrow> ('r \<Rightarrow> bytes) \<Rightarrow> ('r, 'x) error \<Rightarrow> bytes" where
  "show_error sh sx sr ConnectionClosed = ascii ''Connection closed normally''"
| "show_error sh sx sr AlreadyClosed = ascii ''Trying to work with closed connection''"
| "show_error sh sx sr (Io e) = ascii ''IO error: '' @ io_text e"
| "show_error sh sx sr (Tls e) = ascii ''TLS error: '' @ show_tls_error sx e"
| "show_error sh sx sr (Capacity e) = ascii ''Space limit exceeded: '' @ show_capacity_error e"
| "show_error sh sx sr (Protocol e) = ascii ''WebSocket protocol error: '' @ show_protocol_error sh e"
| "show_error sh sx sr (Utf8 t) = ascii ''UTF-8 encoding error: '' @ t"
| "show_error sh sx sr (Url e) = ascii ''URL error: '' @ show_url_error e"
| "show_error sh sx sr (Http r) = ascii ''HTTP error: '' @ sr r"
| "show_error sh sx sr (HttpFormat e) = ascii ''HTTP format error: '' @ sx e"

end
