(* ===== verification/Frame_Text.thy ===== *)
theory Frame_Text
  imports Message Error_Text
begin

text \<open>
  The texts of close frames and frames, the \<open>Display\<close> implementations of
  \<open>src/protocol/frame/frame.rs\<close>, and what can be read back from them.
\<close>

definition show_close_frame :: "close_frame \<Rightarrow> bytes" where
  "show_close_frame c = show_utf8 (close_reason c) @ ascii '' ('' @ ascii (show_close_code (close_code c)) @ ascii '')''"

text \<open>\<open>{}\<close> of a \<open>bool\<close>, and \<open>{:02x}\<close> of a byte.\<close>

definition show_bool :: "bool \<Rightarrow> bytes" where
  "show_bool b = ascii (if b then ''true'' else ''false'')"

definition hex_digit :: "u8 \<Rightarrow> u8" where
  "hex_digit d = (if d < 10 then 48 + d else 87 + d)"

definition show_hex :: "u8 \<Rightarrow> bytes" where
  "show_hex b = [hex_digit (drop_bit 4 b), hex_digit (b AND 15)]"

text \<open>The fold over the payload, with the string written so far.\<close>

definition show_payload :: "bytes \<Rightarrow> bytes" where
  "show_payload data = foldl (\<lambda>output byte. output @ show_hex byte) [] data"

definition show_frame :: "frame \<Rightarrow> bytes" where
  "show_frame f = (let h = header f in
     [10] @ ascii ''<FRAME>'' @ [10]
     @ ascii ''final: '' @ show_bool (is_final h) @ [10]
     @ ascii ''reserved: '' @ show_bool (rsv1 h) @ ascii '' '' @ show_bool (rsv2 h) @ ascii '' '' @ show_bool (rsv3 h) @ [10]
     @ ascii ''opcode: '' @ ascii (show_op_code (opcode h)) @ [10]
     @ ascii ''length: '' @ decimal (frame_len f) @ [10]
     @ ascii ''payload length: '' @ decimal (length (payload f)) @ [10]
     @ ascii ''payload: 0x'' @ show_payload (payload f) @ [10]
     @ ascii ''            '')"

section \<open>The payload in the text\<close>

fun hex_value :: "u8 \<Rightarrow> u8" where
  "hex_value c = (if c < 58 then c - 48 else c - 87)"

fun read_hex :: "bytes \<Rightarrow> bytes" where
  "read_hex (a # b # cs) = (push_bit 4 (hex_value a) OR hex_value b) # read_hex cs"
| "read_hex _ = []"

lemma hex_digit_value: "d < 16 \<Longrightarrow> hex_value (hex_digit d) = d"
proof -
  assume d: "d < 16"
  then have "unat d < 16" by (simp add: word_less_nat_alt)
  then have "unat (48 + d) = 48 + unat d" "unat (87 + d) = 87 + unat d" by (simp_all add: unat_word_ariths)
  then show ?thesis by (simp add: hex_digit_def word_less_nat_alt)
qed

lemma nibbles: "drop_bit 4 b < 16" "b AND 15 < 16" "push_bit 4 (drop_bit 4 b) OR (b AND 15) = b" for b :: u8
proof -
  have low: "15 = (mask 4 :: u8)" by (simp add: mask_eq_exp_minus_1)
  show "push_bit 4 (drop_bit 4 b) OR (b AND 15) = b"
    unfolding low by (rule bit_word_eqI) (auto simp: bit_simps)
  show "b AND 15 < 16" by (rule le_less_trans[of _ 15]) (simp_all add: word_and_le1)
  have "unat b < 256" using unsigned_less[of b, where ?'a = nat] by simp
  then show "drop_bit 4 b < 16"
    by (simp add: word_less_nat_alt drop_bit_eq_div unat_div less_mult_imp_div_less)
qed

lemma show_payload_concat: "show_payload data = concat (map show_hex data)"
proof -
  have "foldl (\<lambda>output byte. output @ show_hex byte) out data = out @ concat (map show_hex data)" for out
    by (induction data arbitrary: out) simp_all
  then show ?thesis by (simp add: show_payload_def)
qed

text \<open>The payload can be read back from its text.\<close>

lemma read_show_payload: "read_hex (show_payload data) = data"
  unfolding show_payload_concat
  by (induction data) (simp_all add: show_hex_def hex_digit_value nibbles del: hex_value.simps)

end
