(* ===== verification/Late_Messages.thy ===== *)
theory Late_Messages
  imports Session_Theorems
begin

text \<open>
  An end that has started the closing handshake still reads what the other end had sent
  before it learned of it. The messages under way are delivered, nothing is sent for them any
  more, and the close frame that follows acknowledges the end.
\<close>

section \<open>Reading after the close frame\<close>

lemma accept_message_closing:
  fixes s :: "('s, 'q, 'g) websocket"
  assumes "transferable (ws_config s) m" "ws_conn s = ClosedByUs" "ws_incomplete s = None"
  shows "accept_frame std_simdutf8 (frame_of_message m) s = (Ok (Some m, None) :: (('r, 'x) error, received) res, s)"
proof -
  note f = transferable_frame[OF assms(1)]
  have size: "check_max_size n l = (Ok () :: (('r, 'x) error, unit) res)" if "n \<le> limit_of l" for n l
    using limit_of_Some[OF that] by (auto simp: check_max_size_def split: option.splits)
  have "handle_frame std_simdutf8 (frame_of_message m) s = (Ok (Some m, None) :: (('r, 'x) error, received) res, s)"
    using assms size
    by (cases m) (simp_all add: handle_frame_def handle_data_def handle_control_def default_header_def
      frame_ping_def frame_pong_def frame_into_text_def frame_into_payload_def utf8_try_from_def std_utf8.basic utf8_wf_def
      is_active_def)
  then show ?thesis
    using assms(2) f by (auto simp: accept_frame_def can_read_def frame_is_masked_def)
qed

definition waiting :: "mem_socket \<Rightarrow> bytes \<Rightarrow> bool" where
  "waiting s bs \<longleftrightarrow> ws_inv s \<and> ws_conn s = ClosedByUs \<and> ws_incomplete s = None \<and> dec_header (ws_decoder s) = None
     \<and> fc_write_buf (ws_codec s) = [] \<and> pending_input s = bs"

definition silent :: "mem_socket \<Rightarrow> mem_socket \<Rightarrow> bool" where
  "silent s t \<longleftrightarrow> same_end s t \<and> fc_write_buf (ws_codec t) = fc_write_buf (ws_codec s) \<and> ws_outgoing mem_out t = ws_outgoing mem_out s"

lemma silent_refl: "silent s s"
  by (simp add: silent_def same_end_def)

lemma silent_trans: "silent s t \<Longrightarrow> silent t u \<Longrightarrow> silent s u"
  by (simp add: silent_def same_end_def)

lemma read_late:
  assumes w: "waiting s (frame_bytes aligned_le f' @ rest)" and m: "transferable (ws_config s) m"
    and sent: "sent_as (peer (ws_role s)) (frame_of_message m) f'"
  shows "\<exists>s'. ws_read (mem_env :: (mem_io, unit, mask4, 'r, 'x) env) s = Some (Ok m, s') \<and> waiting s' rest \<and> silent s s'"
proof -
  let ?env = "mem_env :: (mem_io, unit, mask4, 'r, 'x) env"
  have s: "ws_inv s" "ws_conn s = ClosedByUs" "ws_incomplete s = None" "dec_header (ws_decoder s) = None"
    "fc_write_buf (ws_codec s) = []" "pending_input s = frame_bytes aligned_le f' @ rest"
    using w by (simp_all add: waiting_def)
  have set_up: "decoder_set_up (ws_role s) (ws_config s) (ws_decoder s)" using s(1) by (simp add: ws_inv_def)
  note recv = transferable_receivable[OF m sent set_up]
  obtain s1 where s1: "only_read s s1" "pending_input s1 = rest"
    and turn: "read_message_frame ?env s = accept_frame std_simdutf8 (frame_of_message m) s1"
    using mem_next_frame[OF recv(1) s(4,6), where ?'r = 'r and ?'x = 'x] recv(2) by auto
  have "read_message_frame ?env s = (Ok (Some m, None), s1)"
    unfolding turn using s1(1) s m by (intro accept_message_closing) (simp_all add: only_read_def)
  moreover have "can_read (ws_conn s)" using s(2) by (simp add: can_read_def)
  ultimately obtain s2 where "ws_read ?env s = Some (Ok m, s2)" "auto_send ?env None s1 = (Ok (), s2)"
    using mem_read_message[of s m None s1, where ?'r = 'r and ?'x = 'x] by blast
  then have "ws_read ?env s = Some (Ok m, s1)" by (simp add: auto_send_def)
  then show ?thesis
    using s s1 only_read_inv[OF s1(1)] by (auto simp: waiting_def silent_def same_end_def only_read_def)
qed

lemma read_all_late:
  assumes "waiting s (concat (map (frame_bytes aligned_le) fs) @ rest)" "\<forall>m \<in> set ms. transferable (ws_config s) m"
    and "list_all2 (\<lambda>m. sent_as (peer (ws_role s)) (frame_of_message m)) ms fs"
  shows "\<exists>t. read_n (mem_env :: (mem_io, unit, mask4, 'r, 'x) env) (length ms) s = Some (ms, t) \<and> waiting t rest \<and> silent s t"
  using assms
proof (induction ms arbitrary: s fs)
  case Nil
  then show ?case by (simp add: silent_refl)
next
  case (Cons m ms)
  obtain f' fs' where fs: "fs = f' # fs'" "sent_as (peer (ws_role s)) (frame_of_message m) f'"
    "list_all2 (\<lambda>m. sent_as (peer (ws_role s)) (frame_of_message m)) ms fs'"
    using Cons.prems(3) by (auto simp: list_all2_Cons1)
  obtain s1 where s1: "ws_read (mem_env :: (mem_io, unit, mask4, 'r, 'x) env) s = Some (Ok m, s1)"
    "waiting s1 (concat (map (frame_bytes aligned_le) fs') @ rest)" "silent s s1"
    using read_late[of s f' "concat (map (frame_bytes aligned_le) fs') @ rest" m, where ?'r = 'r and ?'x = 'x] Cons.prems(1,2) fs(1,2) by auto
  obtain t where "read_n (mem_env :: (mem_io, unit, mask4, 'r, 'x) env) (length ms) s1 = Some (ms, t)" "waiting t rest" "silent s1 t"
    using Cons.IH[OF s1(2)] Cons.prems(2) fs(3) s1(3) by (auto simp: silent_def same_end_def)
  then show ?case using s1 silent_trans[OF s1(3)] by auto
qed

text \<open>And the close frame behind them.\<close>

lemma read_acknowledged:
  assumes "waiting s (frame_bytes aligned_le f')" "closing_ok (ws_config s) code"
    and "sent_as (peer (ws_role s)) (frame_close code) f'"
  shows "\<exists>t. ws_read (mem_env :: (mem_io, unit, mask4, 'r, 'x) env) s = Some (Ok (MClose code), t) \<and> since s t = []
    \<and> at_end (ws_read (mem_env :: (mem_io, unit, mask4, 'r, 'x) env) t)"
proof -
  have s: "ws_inv s" "dec_header (ws_decoder s) = None" "can_read (ws_conn s)" "fc_write_buf (ws_codec s) = []" "ws_conn s \<noteq> Active"
    "pending_input s = frame_bytes aligned_le f'"
    using assms(1) by (simp_all add: waiting_def can_read_def)
  obtain t where t: "ws_read (mem_env :: (mem_io, unit, mask4, 'r, 'x) env) s = Some (Ok (MClose code), t)"
    "ws_inv t" "pending_input t = []" "dec_header (ws_decoder t) = None" "fc_write_buf (ws_codec t) = []"
    "ws_conn t = CloseAcknowledged" "ws_outgoing mem_out t = ws_outgoing mem_out s"
    using read_close[OF s(1-4) assms(2,3) s(6), where ?'r = 'r and ?'x = 'x] s(5) by auto
  have "since s t = []" using s(4) t(5,7) by (intro since_outgoing) simp_all
  moreover have "at_end (ws_read (mem_env :: (mem_io, unit, mask4, 'r, 'x) env) t)"
    using t by (intro at_end_closed) (simp_all add: at_rest_def)
  ultimately show ?thesis using t(1) by blast
qed

section \<open>Closing with messages under way\<close>

text \<open>
  The end \<open>b\<close> sends messages and \<open>a\<close> closes, neither knowing of the other; then \<open>b\<close> reads
  the close frame, and \<open>a\<close> reads everything \<open>b\<close> has sent: what each hears, and its next \<open>read\<close>.
\<close>

definition hang_up_early ::
  "(bytes \<Rightarrow> bytes list) \<Rightarrow> (mem_io, unit, mask4, 'r, 'x) env \<Rightarrow> close_frame option \<Rightarrow> message list \<Rightarrow> mem_socket \<Rightarrow> mem_socket
     \<Rightarrow> (message list \<times> message \<times> ('r, 'x) last_read \<times> ('r, 'x) last_read) option" where
  "hang_up_early cuts env code ms a b =
     (case (ws_close env code a, write_all env ms b) of
        ((Ok _, a1), (Ok _, b1)) \<Rightarrow>
          (case ws_flush env b1 of
             (Ok _, b2) \<Rightarrow>
               (case ws_read env (arrive (cuts (since a a1)) b2) of
                  Some (Ok heard, b3) \<Rightarrow>
                    (case read_n env (Suc (length ms)) (arrive (cuts (since b b3)) a1) of
                       Some (got, a2) \<Rightarrow> if since a1 a2 = [] then Some (got, heard, ws_read env a2, ws_read env b3) else None
                     | None \<Rightarrow> None)
                | _ \<Rightarrow> None)
           | _ \<Rightarrow> None)
      | _ \<Rightarrow> None)"

lemma close_waits:
  assumes "idle a"
  shows "\<exists>a1 f'. ws_close (mem_env :: (mem_io, unit, mask4, 'r, 'x) env) code a = (Ok (), a1) \<and> waiting a1 [] \<and> same_end a a1
    \<and> sent_as (ws_role a) (frame_close code) f' \<and> since a a1 = frame_bytes aligned_le f'"
proof -
  obtain a1 f' where a1: "ws_close (mem_env :: (mem_io, unit, mask4, 'r, 'x) env) code a = (Ok (), a1)" "at_rest a1" "same_end a a1"
    "ws_conn a1 = ClosedByUs" "sent_as (ws_role a) (frame_close code) f'" "since a a1 = frame_bytes aligned_le f'"
    using close_out[OF assms, where ?'r = 'r and ?'x = 'x] by blast
  have "same_reading a a1" using mem_ws_close[of a code, where ?'r = 'r and ?'x = 'x] assms a1(1) by (auto simp: idle_def)
  then have "ws_incomplete a1 = None" using assms by (simp add: same_reading_def idle_def)
  then show ?thesis using a1 by (auto simp: waiting_def at_rest_def)
qed

lemma waiting_arrive: "waiting s [] \<Longrightarrow> waiting (arrive cs s) (concat cs)" "silent s (arrive cs s)"
  using arrive_only_read[where s = s and cs = cs] only_read_inv[OF arrive_only_read(1)[where s = s and cs = cs]]
  by (simp_all add: waiting_def silent_def same_end_def only_read_def)

text \<open>The other end: messages out, and then the answer to a close frame.\<close>

lemma speak_then_answer:
  assumes "idle b" "\<forall>m \<in> set ms. transferable cfg m" "closing_ok (ws_config b) code"
    and "sent_as (peer (ws_role b)) (frame_close code) f'" "concat cs = frame_bytes aligned_le f'"
  shows "\<exists>b1 b2 b3 fs g. write_all (mem_env :: (mem_io, unit, mask4, 'r, 'x) env) ms b = (Ok (), b1)
    \<and> ws_flush (mem_env :: (mem_io, unit, mask4, 'r, 'x) env) b1 = (Ok (), b2)
    \<and> ws_read (mem_env :: (mem_io, unit, mask4, 'r, 'x) env) (arrive cs b2) = Some (Ok (MClose code), b3)
    \<and> list_all2 (\<lambda>m. sent_as (ws_role b) (frame_of_message m)) ms fs \<and> sent_as (ws_role b) (frame_close code) g
    \<and> since b b3 = concat (map (frame_bytes aligned_le) fs) @ frame_bytes aligned_le g
    \<and> at_end (ws_read (mem_env :: (mem_io, unit, mask4, 'r, 'x) env) b3)"
proof -
  let ?env = "mem_env :: (mem_io, unit, mask4, 'r, 'x) env"
  obtain b1 b2 where b2: "write_all ?env ms b = (Ok (), b1)" "ws_flush ?env b1 = (Ok (), b2)" "idle b2" "same_end b b2"
    using speak[OF assms(1,2), where ?'r = 'r and ?'x = 'x] by blast
  obtain fs where fs: "list_all2 (\<lambda>m. sent_as (ws_role b) (frame_of_message m)) ms fs"
    "on_the_wire b2 = on_the_wire b @ concat (map (frame_bytes aligned_le) fs)"
    using mem_write_flush[of b ms cfg, where ?'r = 'r and ?'x = 'x] assms(1,2) b2(1,2) by (auto simp: idle_def at_rest_def wire_outgoing)
  let ?b = "arrive cs b2"
  have arr: "only_read b2 ?b" "pending_input ?b = frame_bytes aligned_le f'" "at_rest b2" "ws_conn b2 = Active"
    using arrive_only_read[where s = b2 and cs = cs] b2(3) assms(5) by (simp_all add: idle_def at_rest_def)
  have at: "ws_inv ?b" "dec_header (ws_decoder ?b) = None" "can_read (ws_conn ?b)" "fc_write_buf (ws_codec ?b) = []"
    "closing_ok (ws_config ?b) code" "sent_as (peer (ws_role ?b)) (frame_close code) f'" "ws_conn ?b = Active" "ws_role ?b = ws_role b"
    "ws_outgoing mem_out ?b = ws_outgoing mem_out b2"
    using assms(3,4) arr(1,3,4) b2(4) only_read_inv[OF arr(1)] by (simp_all add: only_read_def at_rest_def same_end_def can_read_def)
  obtain b3 g where b3: "ws_read ?env ?b = Some (Ok (MClose code), b3)" "at_rest b3" "ws_conn b3 = ClosedByPeer"
    "sent_as (ws_role b) (frame_close code) g" "ws_outgoing mem_out b3 = ws_outgoing mem_out b2 @ frame_bytes aligned_le g"
    using read_close[OF at(1-6) arr(2), unfolded at(7-9), where ?'r = 'r and ?'x = 'x] unfolding at_rest_def by auto
  have "on_the_wire b3 = on_the_wire b2 @ frame_bytes aligned_le g"
    using b3(2,5) arr(3) by (simp add: wire_outgoing at_rest_def)
  then have "since b b3 = concat (map (frame_bytes aligned_le) fs) @ frame_bytes aligned_le g" using fs(2) by (simp add: since_def)
  moreover have "at_end (ws_read ?env b3)" using b3(2,3) by (intro at_end_closed) simp_all
  ultimately show ?thesis using b2(1,2) fs(1) b3(1,4) by blast
qed

lemma hang_up_early_ok:
  assumes talk: "talking a b" and code: "closing_ok (ws_config a) code" "closing_ok (ws_config b) code"
    and fits: "\<forall>m \<in> set ms. transferable (ws_config a) m" and cuts: "\<And>bs. concat (cuts bs) = bs"
  shows "\<exists>ra rb. hang_up_early cuts (mem_env :: (mem_io, unit, mask4, 'r, 'x) env) code ms a b
      = Some (ms @ [MClose code], MClose code, ra, rb) \<and> at_end ra \<and> at_end rb"
proof -
  let ?env = "mem_env :: (mem_io, unit, mask4, 'r, 'x) env"
  have ends: "idle a" "idle b" "ws_role b = peer (ws_role a)" "ws_role a = peer (ws_role b)"
    using talk by (cases "ws_role a"; simp add: talking_def)+
  obtain a1 f where a1: "ws_close ?env code a = (Ok (), a1)" "waiting a1 []" "same_end a a1"
    "sent_as (ws_role a) (frame_close code) f" "since a a1 = frame_bytes aligned_le f"
    using close_waits[OF ends(1), where ?'r = 'r and ?'x = 'x] by blast
  obtain b1 b2 b3 fs g where b: "write_all ?env ms b = (Ok (), b1)" "ws_flush ?env b1 = (Ok (), b2)"
    "ws_read ?env (arrive (cuts (since a a1)) b2) = Some (Ok (MClose code), b3)"
    "list_all2 (\<lambda>m. sent_as (ws_role b) (frame_of_message m)) ms fs" "sent_as (ws_role b) (frame_close code) g"
    "since b b3 = concat (map (frame_bytes aligned_le) fs) @ frame_bytes aligned_le g" "at_end (ws_read ?env b3)"
    using speak_then_answer[OF ends(2) fits code(2), of f "cuts (since a a1)", where ?'r = 'r and ?'x = 'x] a1(4,5) ends(4) cuts by auto
  let ?a = "arrive (cuts (since b b3)) a1"
  have arrived: "waiting ?a (concat (map (frame_bytes aligned_le) fs) @ frame_bytes aligned_le g)" "silent a1 ?a"
    using waiting_arrive(1)[OF a1(2), of "cuts (since b b3)"] waiting_arrive(2)[of a1 "cuts (since b b3)"] cuts b(6) by simp_all
  have eqs: "ws_config ?a = ws_config a" "peer (ws_role ?a) = ws_role b"
    using arrived(2) a1(3) ends(3) by (simp_all add: silent_def same_end_def)
  obtain t where t: "read_n ?env (length ms) ?a = Some (ms, t)" "waiting t (frame_bytes aligned_le g)" "silent ?a t"
    using read_all_late[OF arrived(1), of ms, where ?'r = 'r and ?'x = 'x] fits b(4) unfolding eqs by blast
  have "ws_config t = ws_config a" "peer (ws_role t) = ws_role b" using t(3) eqs by (simp_all add: silent_def same_end_def)
  then obtain a2 where a2: "ws_read ?env t = Some (Ok (MClose code), a2)" "since t a2 = []" "at_end (ws_read ?env a2)"
    using read_acknowledged[OF t(2), of code, where ?'r = 'r and ?'x = 'x] code(1) b(5) by auto
  have "read_n ?env (length ms + 1) ?a = Some (ms @ [MClose code], a2)"
    using read_n_append[OF t(1), of 1] a2(1) by simp
  moreover have "since a1 a2 = []"
  proof -
    have "on_the_wire t = on_the_wire a1"
      using silent_trans[OF arrived(2) t(3)] by (auto simp: silent_def on_the_wire_def ws_outgoing_def outgoing_def)
    then show ?thesis using a2(2) by (simp add: since_def)
  qed
  ultimately show ?thesis using a1(1) b a2(3) by (simp add: hang_up_early_def)
qed

text \<open>C5. An end that has closed still reads what was on its way to it: when one end closes while
  the other, not knowing of it, has sent messages, the end that closed reads all of them, in
  order and unchanged, and then the echo of its close frame; it sends nothing any more, not
  even for a ping; the other end reads the close frame, and both then report the connection as
  closed. It holds after any turns of messages, for either end, whatever the pieces in which
  the streams hand over the bytes.\<close>

theorem late_messages:
  fixes env :: "(mem_io, unit, mask4, 'r, 'x) env"
  defines "env \<equiv> mem_env"
  assumes limits: "limits_ok (config_or_default cc)" "limits_ok (config_or_default sc)"
    and turns: "\<forall>(who, ms) \<in> set turns. \<forall>m \<in> set ms. transferable (config_or_default cc) m \<and> transferable (config_or_default sc) m"
    and late: "\<forall>m \<in> set late. transferable (config_or_default (if closer = Client then cc else sc)) m"
    and code: "closing_ok (config_or_default cc) code" "closing_ok (config_or_default sc) code"
    and cuts: "\<And>bs. concat (cuts bs) = bs"
  shows "\<exists>c s ra rb. dialogue cuts env turns (mem_connection [] Client cc g) (mem_connection [] Server sc h)
      = Some (map (\<lambda>(who, ms). (ms, answers ms)) turns, c, s)
    \<and> hang_up_early cuts env code late (if closer = Client then c else s) (if closer = Client then s else c)
      = Some (late @ [MClose code], MClose code, ra, rb) \<and> at_end ra \<and> at_end rb"
proof -
  let ?c = "mem_connection [] Client cc g" and ?s = "mem_connection [] Server sc h"
  have "talking ?c ?s" using limits by (simp add: talking_def mem_connection_idle)
  from dialogue_ok[OF this _ cuts, of turns, where ?'r = 'r and ?'x = 'x] turns obtain c s
    where cs: "dialogue cuts env turns ?c ?s = Some (map (\<lambda>(who, ms). (ms, answers ms)) turns, c, s)" "talking c s"
      "ws_config c = config_or_default cc" "ws_config s = config_or_default sc"
    by (auto simp: env_def same_end_def)
  let ?a = "if closer = Client then c else s" and ?b = "if closer = Client then s else c"
  have "talking ?a ?b" using cs(2) by (simp add: talking_sym[of s c])
  from hang_up_early_ok[OF this _ _ _ cuts, of code late, where ?'r = 'r and ?'x = 'x] show ?thesis
    using cs code late unfolding env_def by (cases closer) auto
qed

lemma late_messages_witness:
  "\<exists>c s ra rb. dialogue (\<lambda>bs. [bs]) (mem_env :: (mem_io, unit, mask4, unit, unit) env) chat
      (mem_connection [] Client None (1, 2, 3, 4)) (mem_connection [] Server None (0, 0, 0, 0))
      = Some ([([MText (Utf8Bytes [0x68, 0x69]), MPing [7]], [MPong [7]]), ([MBinary [1, 2]], [])], c, s)
    \<and> hang_up_early (\<lambda>bs. [bs]) (mem_env :: (mem_io, unit, mask4, unit, unit) env) going_away [MPing [1], MBinary [2, 3]] s c
      = Some ([MPing [1], MBinary [2, 3], MClose going_away], MClose going_away, ra, rb) \<and> at_end ra \<and> at_end rb"
proof -
  have "concat [bs] = bs" for bs :: bytes by simp
  moreover have "\<forall>m \<in> set [MPing [1], MBinary [2, 3]]. transferable (config_or_default None) m"
    by (simp add: config_or_default_def default_config_def limit_of_def)
  ultimately show ?thesis
    using late_messages[OF limits_default limits_default chat_ok(1) _ chat_ok(2,2), where ?'r = unit and ?'x = unit
        and late = "[MPing [1], MBinary [2, 3]]" and closer = Server and cuts = "\<lambda>bs. [bs]"]
    unfolding chat_ok(3) by simp
qed

end
