(* ===== verification/Echo.thy ===== *)
theory Echo
  imports Opening_Theorems Session
begin

text \<open>
  The echo servers of \<open>examples/\<close>: the handshake with their callbacks, the loop that reads
  messages from the stream of a connection and sends the data messages back, and the example
  that refuses every handshake. What the examples print is left out.
\<close>

section \<open>Sending and flushing\<close>

text \<open>
  \<open>SinkExt::send_and_flush\<close> belongs to \<open>monoio\<close>: it is an argument of the loops. What it does
  is what its documentation says, \<open>send\<close> and then \<open>flush\<close>.
\<close>

type_synonym ('s, 'q, 'g, 'r, 'x) send_op =
  "message \<Rightarrow> ('s, 'q, 'g) websocket \<Rightarrow> (('r, 'x) error, unit) res \<times> ('s, 'q, 'g) websocket"

locale sink_ext =
  fixes env :: "('s, 'q, 'g, 'r, 'x) env" and send_and_flush :: "('s, 'q, 'g, 'r, 'x) send_op"
  assumes sends_then_flushes: "send_and_flush m s = bind_st (sink_send env m s) (\<lambda>_. sink_flush env)"

definition send_then_flush :: "('s, 'q, 'g, 'r, 'x) env \<Rightarrow> ('s, 'q, 'g, 'r, 'x) send_op" where
  "send_then_flush env m s = bind_st (sink_send env m s) (\<lambda>_. sink_flush env)"

interpretation monoio_sink: sink_ext env "send_then_flush env" for env
  by unfold_locales (simp add: send_then_flush_def)

section \<open>The loops\<close>

definition is_data :: "message \<Rightarrow> bool" where
  "is_data m \<longleftrightarrow> message_is_text m \<or> message_is_binary m"

text \<open>An error ends this loop. \<open>None\<close> is a loop that never returns.\<close>

partial_function (option) echo_loop ::
  "('s, 'q, 'g, 'r, 'x) env \<Rightarrow> ('s, 'q, 'g, 'r, 'x) send_op \<Rightarrow> ('s, 'q, 'g) websocket
     \<Rightarrow> ((('r, 'x) error, unit) res \<times> ('s, 'q, 'g) websocket) option" where
  "echo_loop env saf s =
     (case stream_next env s of
        None \<Rightarrow> None
      | Some (item, s1) \<Rightarrow>
          (case item of
             None \<Rightarrow> Some (Ok (), s1)
           | Some (Err e) \<Rightarrow> Some (Err e, s1)
           | Some Panic \<Rightarrow> Some (Panic, s1)
           | Some (Ok m) \<Rightarrow>
               if is_data m
               then (case saf m s1 of
                       (Ok u, s2) \<Rightarrow> echo_loop env saf s2
                     | (Err e, s2) \<Rightarrow> Some (Err e, s2)
                     | (Panic, s2) \<Rightarrow> Some (Panic, s2))
               else echo_loop env saf s1))"

text \<open>This loop prints the errors of \<open>next\<close> and goes on; a write that fails is a panic.\<close>

partial_function (option) serve_loop ::
  "('s, 'q, 'g, 'r, 'x) env \<Rightarrow> ('s, 'q, 'g, 'r, 'x) send_op \<Rightarrow> ('r, 'x) error list \<Rightarrow> ('s, 'q, 'g) websocket
     \<Rightarrow> ((unit, ('r, 'x) error list) res \<times> ('s, 'q, 'g) websocket) option" where
  "serve_loop env saf printed s =
     (case stream_next env s of
        None \<Rightarrow> None
      | Some (item, s1) \<Rightarrow>
          (case item of
             None \<Rightarrow> Some (Ok printed, s1)
           | Some (Err e) \<Rightarrow> serve_loop env saf (printed @ [e]) s1
           | Some Panic \<Rightarrow> Some (Panic, s1)
           | Some (Ok m) \<Rightarrow>
               if is_data m
               then (case saf m s1 of
                       (Ok u, s2) \<Rightarrow> serve_loop env saf printed s2
                     | (Err e, s2) \<Rightarrow> Some (Panic, s2)
                     | (Panic, s2) \<Rightarrow> Some (Panic, s2))
               else serve_loop env saf printed s1))"

section \<open>The servers\<close>

text \<open>\<open>accept(stream).await.expect(..)\<close>, and the loop; without a connection there is no final state.\<close>

definition echo_connection ::
  "('h, 'u, 'x) http \<Rightarrow> ('s, 'q, 'g, 'h client_response, 'x) env \<Rightarrow> ('s, 'q, ('h, 'x) hs_error, nat \<times> ('h, 'u) http_request) next_op
     \<Rightarrow> ('s, 'q, 'g, 'h client_response, 'x) send_op \<Rightarrow> 's \<Rightarrow> 'g
     \<Rightarrow> ((('h, 'x) hs_error, unit) res \<times> ('s, 'q, 'g) websocket option) option" where
  "echo_connection ht env next_frame saf stream g =
     (case fst (accept_stream ht (env_transport env) next_frame stream g) of
        Ok ws \<Rightarrow> map_option (\<lambda>(r, s). (r, Some s)) (echo_loop env saf ws)
      | Err e \<Rightarrow> Some (Panic, None)
      | Panic \<Rightarrow> Some (Panic, None))"

text \<open>What \<open>accept_connection\<close> prints of the error.\<close>

fun reported :: "('r, 'x) error \<Rightarrow> ('r, 'x) error option" where
  "reported ConnectionClosed = None"
| "reported (Protocol e) = None"
| "reported (Utf8 t) = None"
| "reported e = Some e"

definition accept_connection ::
  "('h, 'u, 'x) http \<Rightarrow> ('s, 'q, 'g, 'h client_response, 'x) env \<Rightarrow> ('s, 'q, ('h, 'x) hs_error, nat \<times> ('h, 'u) http_request) next_op
     \<Rightarrow> ('s, 'q, 'g, 'h client_response, 'x) send_op \<Rightarrow> 's \<Rightarrow> 'g \<Rightarrow> (unit, ('h, 'x) hs_error option) res option" where
  "accept_connection ht env next_frame saf stream g =
     map_option (\<lambda>(r, _). case r of Ok u \<Rightarrow> Ok None | Err e \<Rightarrow> Ok (reported e) | Panic \<Rightarrow> Panic)
       (echo_connection ht env next_frame saf stream g)"

text \<open>The callback of \<open>server.rs\<close>; \<open>parse().unwrap()\<close> panics for a text that is no header value.\<close>

definition custom_headers :: "('h, 'u, 'x) http \<Rightarrow> ('h, 'u) callback" where
  "custom_headers ht req resp =
     (case ht_parse_value ht (ascii '':)'') of
        Ok smile \<Rightarrow>
          (let h = hm_append ht (ascii ''MyCustomHeader'') smile (rs_headers resp) in
           case ht_parse_value ht (ascii ''header_value'') of
             Ok v \<Rightarrow> Ok (resp\<lparr>rs_headers := hm_append ht (ascii ''SOME_TUNGSTENITE_HEADER'') v h\<rparr>)
           | _ \<Rightarrow> Panic)
      | _ \<Rightarrow> Panic)"

definition serve_connection ::
  "('h, 'u, 'x) http \<Rightarrow> ('s, 'q, 'g, 'h client_response, 'x) env \<Rightarrow> ('s, 'q, ('h, 'x) hs_error, nat \<times> ('h, 'u) http_request) next_op
     \<Rightarrow> ('s, 'q, 'g, 'h client_response, 'x) send_op \<Rightarrow> 's \<Rightarrow> 'g
     \<Rightarrow> ((unit, ('h, 'x) hs_error list) res \<times> ('s, 'q, 'g) websocket option) option" where
  "serve_connection ht env next_frame saf stream g =
     (case fst (accept_hdr ht (env_transport env) next_frame stream (custom_headers ht) g) of
        Ok ws \<Rightarrow> map_option (\<lambda>(r, s). (r, Some s)) (serve_loop env saf [] ws)
      | Err e \<Rightarrow> Some (Panic, None)
      | Panic \<Rightarrow> Some (Panic, None))"

text \<open>The same server, with a configuration that accepts unmasked frames of a client.\<close>

definition serve_unmasked ::
  "('h, 'u, 'x) http \<Rightarrow> ('s, 'q, 'g, 'h client_response, 'x) env \<Rightarrow> ('s, 'q, ('h, 'x) hs_error, nat \<times> ('h, 'u) http_request) next_op
     \<Rightarrow> ('s, 'q, 'g, 'h client_response, 'x) send_op \<Rightarrow> 's \<Rightarrow> 'g
     \<Rightarrow> ((unit, ('h, 'x) hs_error list) res \<times> ('s, 'q, 'g) websocket option) option" where
  "serve_unmasked ht env next_frame saf stream g =
     (let config = Some (with_accept_unmasked_frames True default_config) in
      case fst (accept_hdr_with_config ht (env_transport env) next_frame stream (custom_headers ht) config g) of
        Ok ws \<Rightarrow> map_option (\<lambda>(r, s). (r, Some s)) (serve_loop env saf [] ws)
      | Err e \<Rightarrow> Some (Panic, None)
      | Panic \<Rightarrow> Some (Panic, None))"

text \<open>The callback that refuses, and its server, for which the handshake must fail.\<close>

definition access_denied :: "('h, 'u, 'x) http \<Rightarrow> 'h error_response" where
  "access_denied ht = \<lparr>rs_status = 403, rs_version = HTTP_11, rs_headers = hm_empty ht, rs_body = Some (ascii ''Access denied'')\<rparr>"

definition refuse_all :: "('h, 'u, 'x) http \<Rightarrow> ('h, 'u) callback" where
  "refuse_all ht req resp = Err (access_denied ht)"

definition refuse_connection ::
  "('h, 'u, 'x) http \<Rightarrow> ('s, 'q, ('h, 'x) hs_error) transport \<Rightarrow> ('s, 'q, ('h, 'x) hs_error, nat \<times> ('h, 'u) http_request) next_op
     \<Rightarrow> 's \<Rightarrow> 'g \<Rightarrow> (unit, ('h, 'x) hs_error) res \<times> ('s, unit, 'q) framed" where
  "refuse_connection ht tr next_frame stream g =
     (case accept_hdr ht tr next_frame stream (refuse_all ht) g :: (('h, 'x) hs_error, ('s, 'q, 'g) websocket) res \<times> _ of
        (Err e, fr) \<Rightarrow> (Ok e, fr)
      | (Ok ws, fr) \<Rightarrow> (Panic, fr)
      | (Panic, fr) \<Rightarrow> (Panic, fr))"

end
