(* ===== verification/Echo_Theorems.thy ===== *)
theory Echo_Theorems
  imports Echo Session_Theorems
begin

text \<open>
  What the echo servers do, from the opening handshake to the end of the connection: a
  conversation comes back message by message, on any input the loop returns without a panic,
  and a refusal by the callback is sent and reported.
\<close>

section \<open>One message\<close>

text \<open>What goes out for a message: the message itself, from the loop, or a pong, from \<open>read\<close>.\<close>

fun echo_of :: "message \<Rightarrow> message list" where
  "echo_of (MText t) = [MText t]"
| "echo_of (MBinary d) = [MBinary d]"
| "echo_of (MPing d) = [MPong d]"
| "echo_of _ = []"

definition echoes :: "message list \<Rightarrow> message list" where
  "echoes ms = concat (map echo_of ms)"

lemma echoes_simps [simp]: "echoes [] = []" "echoes (m # ms) = echo_of m @ echoes ms"
  by (simp_all add: echoes_def)

lemma echo_of_eq: "transferable cfg m \<Longrightarrow> echo_of m = (if is_data m then [m] else answers [m])"
  by (cases m) (simp_all add: is_data_def)

lemma echoes_transferable: "\<forall>m \<in> set ms. transferable cfg m \<Longrightarrow> \<forall>m \<in> set (echoes ms). transferable cfg m"
proof (induction ms)
  case (Cons m ms)
  then show ?case by (cases m) auto
qed simp

text \<open>What was written between two states.\<close>

definition wrote :: "mem_socket \<Rightarrow> message list \<Rightarrow> mem_socket \<Rightarrow> bool" where
  "wrote s ms t \<longleftrightarrow> (\<exists>gs. list_all2 (\<lambda>m. sent_as (ws_role s) (frame_of_message m)) ms gs
     \<and> ws_outgoing mem_out t = ws_outgoing mem_out s @ concat (map (frame_bytes aligned_le) gs))"

lemma wrote_refl: "wrote s [] s"
  by (simp add: wrote_def)

lemma wrote_trans:
  assumes "wrote s ms t" "wrote t ns u" "same_end s t"
  shows "wrote s (ms @ ns) u"
proof -
  obtain gs hs where "list_all2 (\<lambda>m. sent_as (ws_role s) (frame_of_message m)) ms gs"
    "list_all2 (\<lambda>m. sent_as (ws_role s) (frame_of_message m)) ns hs"
    "ws_outgoing mem_out u = ws_outgoing mem_out s @ concat (map (frame_bytes aligned_le) (gs @ hs))"
    using assms by (auto simp: wrote_def same_end_def)
  then show ?thesis by (auto simp: wrote_def intro!: exI[of _ "gs @ hs"] list_all2_appendI)
qed

lemma same_end_trans: "same_end s t \<Longrightarrow> same_end t u \<Longrightarrow> same_end s u"
  by (simp add: same_end_def)

text \<open>The state of the loop between two messages.\<close>

definition serving :: "mem_socket \<Rightarrow> frame list \<Rightarrow> bool" where
  "serving s fs \<longleftrightarrow> reading_at None s fs \<and> fc_write_buf (ws_codec s) = []"

lemma data_sent_back:
  assumes "sink_ext (mem_env :: (mem_io, unit, mask4, 'r, 'x) env) saf" "serving s fs" "transferable cfg m"
  shows "\<exists>t. saf m s = (Ok (), t) \<and> serving t fs \<and> same_end s t \<and> wrote s [m] t"
proof -
  let ?env = "mem_env :: (mem_io, unit, mask4, 'r, 'x) env"
  have s: "reading_at None s fs" "ws_conn s = Active" using assms(2) by (simp_all add: serving_def reading_at_def)
  obtain s1 t gs where w: "write_all ?env [m] s = (Ok (), s1)" "ws_flush ?env s1 = (Ok (), t)"
    "ws_conn t = Active" "same_reading s t" "pending_input t = pending_input s" "fc_write_buf (ws_codec t) = []"
    "list_all2 (\<lambda>m. sent_as (ws_role s) (frame_of_message m)) [m] gs"
    "on_the_wire t = ws_outgoing mem_out s @ concat (map (frame_bytes aligned_le) gs)"
    using mem_write_flush[OF s(2), of "[m]" cfg, where ?'r = 'r and ?'x = 'x] assms(3) by auto
  obtain r s2 where r: "ws_write ?env m s = (r, s2)" by (cases "ws_write ?env m s")
  then have "r = Ok () \<and> s2 = s1" using w(1) by (cases r) simp_all
  then have "saf m s = (Ok (), t)"
    using r w(2) sink_ext.sends_then_flushes[OF assms(1), of m s] by (simp add: sink_send_def sink_flush_def)
  moreover have "serving t fs"
    using s(1) w(3-6) same_reading_inv[OF w(4)]
    by (simp add: serving_def reading_at_def same_reading_def same_reader_def ws_decoder_def)
  moreover have "same_end s t" using w(4) by (simp add: same_end_def same_reading_def)
  moreover have "wrote s [m] t" using w(6-8) unfolding wrote_def by (metis wire_outgoing)
  ultimately show ?thesis by blast
qed

text \<open>A turn of either loop: the message is read, and what belongs to it goes out.\<close>

lemma echo_turn:
  assumes saf: "sink_ext (mem_env :: (mem_io, unit, mask4, 'r, 'x) env) saf" and at: "serving s (f' # fs)"
    and m: "transferable (ws_config s) m" "sent_as (peer (ws_role s)) (frame_of_message m) f'"
  shows "\<exists>s1 t. stream_next (mem_env :: (mem_io, unit, mask4, 'r, 'x) env) s = Some (Some (Ok m), s1)
    \<and> (if is_data m then saf m s1 = (Ok (), t) else t = s1)
    \<and> serving t fs \<and> same_end s t \<and> wrote s (echo_of m) t"
proof -
  obtain s1 where s1: "ws_read (mem_env :: (mem_io, unit, mask4, 'r, 'x) env) s = Some (Ok m, s1)" "reading_at None s1 fs"
    "ws_role s1 = ws_role s" "ws_config s1 = ws_config s" "answered s [m] s1"
    using read_answers[of None s f' fs m, where ?'r = 'r and ?'x = 'x] at m by (auto simp: serving_def)
  have next1: "stream_next (mem_env :: (mem_io, unit, mask4, 'r, 'x) env) s = Some (Some (Ok m), s1)"
    using s1(1) by (simp add: stream_next_def)
  have t1: "serving s1 fs" "same_end s s1" "wrote s (answers [m]) s1"
    using at s1(2-5) by (auto simp: serving_def same_end_def answered_def wrote_def)
  show ?thesis
  proof (cases "is_data m")
    case False
    then show ?thesis using next1 t1 echo_of_eq[OF m(1)] by auto
  next
    case True
    obtain t where t: "saf m s1 = (Ok (), t)" "serving t fs" "same_end s1 t" "wrote s1 [m] t"
      using data_sent_back[OF saf t1(1) m(1)] by blast
    have "answers [m] = []" using True by (cases m) (simp_all add: is_data_def)
    then have "wrote s (echo_of m) t" using wrote_trans[OF t1(3) t(4) t1(2)] True echo_of_eq[OF m(1)] by simp
    then show ?thesis using next1 t True same_end_trans[OF t1(2)] by auto
  qed
qed

section \<open>A conversation\<close>

lemma loops_reach_close:
  assumes saf: "sink_ext (mem_env :: (mem_io, unit, mask4, 'r, 'x) env) saf" and at: "serving s (fs @ rest)"
    and m: "\<forall>m \<in> set ms. transferable (ws_config s) m" "list_all2 (\<lambda>m. sent_as (peer (ws_role s)) (frame_of_message m)) ms fs"
  shows "\<exists>t. serving t rest \<and> same_end s t \<and> wrote s (echoes ms) t
    \<and> echo_loop (mem_env :: (mem_io, unit, mask4, 'r, 'x) env) saf s = echo_loop mem_env saf t
    \<and> serve_loop (mem_env :: (mem_io, unit, mask4, 'r, 'x) env) saf printed s = serve_loop mem_env saf printed t"
  using at m
proof (induction ms arbitrary: s fs)
  case Nil
  then show ?case by (auto simp: wrote_refl same_end_def)
next
  case (Cons m ms)
  let ?env = "mem_env :: (mem_io, unit, mask4, 'r, 'x) env"
  obtain f' fs' where fs: "fs = f' # fs'" "sent_as (peer (ws_role s)) (frame_of_message m) f'"
    "list_all2 (\<lambda>m. sent_as (peer (ws_role s)) (frame_of_message m)) ms fs'"
    using Cons.prems(3) by (auto simp: list_all2_Cons1)
  obtain s1 s2 where turn: "stream_next ?env s = Some (Some (Ok m), s1)" "if is_data m then saf m s1 = (Ok (), s2) else s2 = s1"
    and s2: "serving s2 (fs' @ rest)" "same_end s s2" "wrote s (echo_of m) s2"
    using echo_turn[OF saf, of s f' "fs' @ rest" m] Cons.prems(1,2) fs by auto
  have loops: "echo_loop ?env saf s = echo_loop ?env saf s2" "serve_loop ?env saf printed s = serve_loop ?env saf printed s2"
    using turn by (subst echo_loop.simps serve_loop.simps; auto split: if_splits)+
  obtain t where "serving t rest" "same_end s2 t" "wrote s2 (echoes ms) t"
    "echo_loop ?env saf s2 = echo_loop ?env saf t" "serve_loop ?env saf printed s2 = serve_loop ?env saf printed t"
    using Cons.IH[OF s2(1)] Cons.prems(2) fs(3) s2(2) by (auto simp: same_end_def)
  then show ?case
    using loops same_end_trans[OF s2(2)] wrote_trans[OF s2(3) _ s2(2)] by (intro exI[of _ t]) simp
qed

text \<open>The close frame is answered by \<open>read\<close>, and the stream of messages ends.\<close>

lemma loops_end:
  assumes at: "serving s [f']" "ws_role s = Server"
    and code: "closing_ok (ws_config s) code" "sent_as (peer (ws_role s)) (frame_close code) f'"
  shows "\<exists>t g. echo_loop (mem_env :: (mem_io, unit, mask4, 'r, 'x) env) saf s = Some (Ok (), t)
    \<and> serve_loop (mem_env :: (mem_io, unit, mask4, 'r, 'x) env) saf printed s = Some (Ok printed, t)
    \<and> ws_conn t = Terminated \<and> sent_as (ws_role s) (frame_close code) g
    \<and> on_the_wire t = ws_outgoing mem_out s @ frame_bytes aligned_le g"
proof -
  let ?env = "mem_env :: (mem_io, unit, mask4, 'r, 'x) env"
  have s: "ws_inv s" "dec_header (ws_decoder s) = None" "can_read (ws_conn s)" "fc_write_buf (ws_codec s) = []" "ws_conn s = Active"
    "pending_input s = frame_bytes aligned_le f'"
    using at(1) by (simp_all add: serving_def reading_at_def can_read_def)
  obtain s1 g where s1: "ws_read ?env s = Some (Ok (MClose code), s1)" "ws_role s1 = ws_role s" "fc_write_buf (ws_codec s1) = []"
    "ws_conn s1 = ClosedByPeer" "sent_as (ws_role s) (frame_close code) g"
    "ws_outgoing mem_out s1 = ws_outgoing mem_out s @ frame_bytes aligned_le g"
    using read_close[OF s(1-4) code s(6), where ?'r = 'r and ?'x = 'x] s(5) by auto
  let ?t = "s1\<lparr>ws_conn := Terminated\<rparr>"
  have "ws_read ?env s1 = Some (Err ConnectionClosed, ?t)"
    using s1(2,4) at(2) by (simp add: ws_read_def check_not_terminated_def can_read_def)
  then have next2: "stream_next ?env s1 = Some (None, ?t)" by (simp add: stream_next_def)
  have next1: "stream_next ?env s = Some (Some (Ok (MClose code)), s1)" using s1(1) by (simp add: stream_next_def)
  have "echo_loop ?env saf s = Some (Ok (), ?t)"
    by (subst echo_loop.simps, simp add: next1 is_data_def) (subst echo_loop.simps, simp add: next2)
  moreover have "serve_loop ?env saf printed s = Some (Ok printed, ?t)"
    by (subst serve_loop.simps, simp add: next1 is_data_def) (subst serve_loop.simps, simp add: next2)
  moreover have "on_the_wire ?t = ws_outgoing mem_out s @ frame_bytes aligned_le g"
    using s1(3,6) wire_outgoing[of s1] by (simp add: on_the_wire_def)
  ultimately show ?thesis using s1(5) by (intro exI[of _ ?t] exI[of _ g]) simp
qed

text \<open>Both together, from a new connection of a server.\<close>

lemma conversation:
  assumes saf: "sink_ext (mem_env :: (mem_io, unit, mask4, 'r, 'x) env) saf"
    and s: "opened Server c (concat (map (frame_bytes aligned_le) (fs @ [f']))) s" "limits_ok (config_or_default c)"
    and m: "\<forall>m \<in> set ms. transferable (config_or_default c) m" "list_all2 (\<lambda>m. sent_as Client (frame_of_message m)) ms fs"
    and code: "closing_ok (config_or_default c) code" "sent_as Client (frame_close code) f'"
  shows "\<exists>t gs g. echo_loop (mem_env :: (mem_io, unit, mask4, 'r, 'x) env) saf s = Some (Ok (), t)
    \<and> serve_loop (mem_env :: (mem_io, unit, mask4, 'r, 'x) env) saf printed s = Some (Ok printed, t)
    \<and> ws_conn t = Terminated \<and> list_all2 (\<lambda>m. sent_as Server (frame_of_message m)) (echoes ms) gs
    \<and> sent_as Server (frame_close code) g
    \<and> on_the_wire t = on_the_wire s @ concat (map (frame_bytes aligned_le) (gs @ [g]))"
proof -
  have at: "serving s (fs @ [f'])" "ws_role s = Server" "ws_config s = config_or_default c" "ws_outgoing mem_out s = on_the_wire s"
    using s opened_reading[OF s] by (simp_all add: opened_def serving_def)
  obtain s1 gs where s1: "serving s1 [f']" "same_end s s1" "list_all2 (\<lambda>m. sent_as Server (frame_of_message m)) (echoes ms) gs"
    "ws_outgoing mem_out s1 = on_the_wire s @ concat (map (frame_bytes aligned_le) gs)"
    and loops: "echo_loop (mem_env :: (mem_io, unit, mask4, 'r, 'x) env) saf s = echo_loop mem_env saf s1"
      "serve_loop (mem_env :: (mem_io, unit, mask4, 'r, 'x) env) saf printed s = serve_loop mem_env saf printed s1"
    using loops_reach_close[OF saf at(1), of ms printed] at(2-4) m by (auto simp: wrote_def)
  have "ws_role s1 = Server" "ws_config s1 = config_or_default c" using at(2,3) s1(2) by (simp_all add: same_end_def)
  from loops_end[OF s1(1) this(1), of code saf printed] this show ?thesis
    using s1(3,4) loops code by auto
qed

section \<open>From the handshake to the end\<close>

text \<open>A client that gets the frames of messages and of a close message reads them.\<close>

lemma reads_all:
  assumes s: "opened Client c (concat (map (frame_bytes aligned_le) (gs @ [g]))) s" "limits_ok (config_or_default c)"
    and m: "\<forall>m \<in> set ms. transferable (config_or_default c) m" "list_all2 (\<lambda>m. sent_as Server (frame_of_message m)) ms gs"
    and code: "closing_ok (config_or_default c) code" "sent_as Server (frame_close code) g"
  shows "\<exists>t. read_n (mem_env :: (mem_io, unit, mask4, 'r, 'x) env) (length ms + 1) s = Some (ms @ [MClose code], t)"
proof -
  let ?env = "mem_env :: (mem_io, unit, mask4, 'r, 'x) env"
  have at: "reading_at None s (gs @ [g])" "ws_role s = Client" "ws_config s = config_or_default c" "fc_write_buf (ws_codec s) = []"
    using s opened_reading[OF s] by (simp_all add: opened_def)
  obtain t where t: "read_n ?env (length ms) s = Some (ms, t)" "reading_at None t [g]" "ws_role t = Client"
    "ws_config t = config_or_default c" "fc_write_buf (ws_codec t) = []"
    using read_n_answers[OF at(1), of ms, where ?'r = 'r and ?'x = 'x] at(2-4) m by (auto simp: answered_def)
  have "ws_inv t" "dec_header (ws_decoder t) = None" "can_read (ws_conn t)" "pending_input t = frame_bytes aligned_le g"
    using t(2) by (simp_all add: reading_at_def can_read_def)
  from read_close[OF this(1-3) t(5), of code g, where ?'r = 'r and ?'x = 'x] this(4) obtain u
    where "ws_read ?env t = Some (Ok (MClose code), u)" using t(3,4) code by auto
  then show ?thesis using read_n_append[OF t(1), of 1] by simp
qed

text \<open>C3. The echo server of \<open>examples/autobahn_server.rs\<close>, from the handshake to the end: a client
  sends the request of a URI and then any messages and a close frame. The handler accepts the
  connection, returns without an error and leaves the connection terminated; and what it has
  put on the wire is a response the client accepts, followed by exactly what it owes: every
  text and binary message back, unchanged and in order, a pong for every ping, and at the end
  the close frame with its code and reason. It holds whatever the pieces in which the streams
  hand over the bytes, if the request ends with a piece.\<close>

theorem echo_server:
  fixes ht :: "('h, 'u, 'x) http" and saf :: "(mem_io, unit, mask4, 'h client_response, 'x) send_op"
  defines "env \<equiv> mem_env :: (mem_io, unit, mask4, 'h client_response, 'x) env"
  assumes "http_messages ht" "connectable ht u" "key \<noteq> []" "sink_ext env saf" "limits_ok (config_or_default cc)"
    and ms: "\<forall>m \<in> set ms. transferable (config_or_default None) m \<and> transferable (config_or_default cc) m"
      "list_all2 (\<lambda>m. sent_as Client (frame_of_message m)) ms fs"
    and code: "closing_ok (config_or_default None) code \<and> closing_ok (config_or_default cc) code" "sent_as Client (frame_close code) f'"
  shows "\<exists>buf. \<forall>chunks later. concat chunks = buf \<longrightarrow> concat later = concat (map (frame_bytes aligned_le) (fs @ [f'])) \<longrightarrow>
    (\<exists>t. echo_connection ht env mem_next saf (mem_stream (chunks @ later)) h = Some (Ok (), Some t) \<and> ws_conn t = Terminated
      \<and> (\<forall>chunks'. concat chunks' = on_the_wire t \<longrightarrow>
           (\<exists>client resp c'. client_with_config (mem_client ht key) (From_Uri u) (mem_stream chunks') cc g = Ok (client, resp)
              \<and> on_the_wire client = buf
              \<and> read_n env (length (echoes ms) + 1) client = Some (echoes ms @ [MClose code], c'))))"
proof -
  have limits: "limits_ok (config_or_default None)" using default_limits_ok by (simp add: config_or_default_def)
  have saf: "sink_ext (mem_env :: (mem_io, unit, mask4, 'h client_response, 'x) env) saf" using assms(5) by (simp add: env_def)
  have fits: "\<forall>m \<in> set ms. transferable (config_or_default None) m" "\<forall>m \<in> set (echoes ms). transferable (config_or_default cc) m"
    using ms(1) echoes_transferable by blast+
  obtain buf where both: "\<And>chunks later. concat chunks = buf \<Longrightarrow>
    \<exists>server. mem_accept ht (chunks @ later) None h = Ok server \<and> opened Server None (concat later) server
      \<and> (\<forall>chunks' unread. concat chunks' = on_the_wire server @ unread \<longrightarrow>
           (\<exists>client resp. client_with_config (mem_client ht key) (From_Uri u) (mem_stream chunks') cc g = Ok (client, resp)
              \<and> opened Client cc unread client \<and> on_the_wire client = buf))"
    using http_messages.opening_exchange_behind[OF assms(2-4), of None h cc g] by blast
  show ?thesis
  proof (intro exI[of _ buf] allI impI)
    fix chunks later assume "concat chunks = buf" and later: "concat later = concat (map (frame_bytes aligned_le) (fs @ [f']))"
    from both[OF this(1), of later] obtain server where server: "mem_accept ht (chunks @ later) None h = Ok server"
      "opened Server None (concat (map (frame_bytes aligned_le) (fs @ [f']))) server"
      and client: "\<And>chunks' unread. concat chunks' = on_the_wire server @ unread \<Longrightarrow>
         \<exists>client resp. client_with_config (mem_client ht key) (From_Uri u) (mem_stream chunks') cc g = Ok (client, resp)
                \<and> opened Client cc unread client \<and> on_the_wire client = buf"
      unfolding later by blast
    obtain t gs g' where t: "echo_loop env saf server = Some (Ok (), t)" "ws_conn t = Terminated"
      "list_all2 (\<lambda>m. sent_as Server (frame_of_message m)) (echoes ms) gs" "sent_as Server (frame_close code) g'"
      "on_the_wire t = on_the_wire server @ concat (map (frame_bytes aligned_le) (gs @ [g']))"
      using conversation[OF saf server(2) limits fits(1) ms(2) _ code(2)] code(1) unfolding env_def by blast
    have "echo_connection ht env mem_next saf (mem_stream (chunks @ later)) h = Some (Ok (), Some t)"
      using server(1) t(1) by (simp add: echo_connection_def mem_accept_def accept_stream_def env_def mem_env_def)
    moreover have "\<exists>client resp c'. client_with_config (mem_client ht key) (From_Uri u) (mem_stream chunks') cc g = Ok (client, resp)
              \<and> on_the_wire client = buf \<and> read_n env (length (echoes ms) + 1) client = Some (echoes ms @ [MClose code], c')"
      if "concat chunks' = on_the_wire t" for chunks'
    proof -
      from client[OF that[unfolded t(5)]] obtain client resp
        where c: "client_with_config (mem_client ht key) (From_Uri u) (mem_stream chunks') cc g = Ok (client, resp)"
          "opened Client cc (concat (map (frame_bytes aligned_le) (gs @ [g']))) client" "on_the_wire client = buf" by blast
      from reads_all[OF c(2) assms(6) fits(2) t(3) _ t(4)] code(1) c(1,3) show ?thesis unfolding env_def by blast
    qed
    ultimately show "\<exists>t. echo_connection ht env mem_next saf (mem_stream (chunks @ later)) h = Some (Ok (), Some t) \<and> ws_conn t = Terminated
      \<and> (\<forall>chunks'. concat chunks' = on_the_wire t \<longrightarrow>
           (\<exists>client resp c'. client_with_config (mem_client ht key) (From_Uri u) (mem_stream chunks') cc g = Ok (client, resp)
              \<and> on_the_wire client = buf
              \<and> read_n env (length (echoes ms) + 1) client = Some (echoes ms @ [MClose code], c')))"
      using t(2) by blast
  qed
qed

text \<open>A text and a ping, masked, and the close frame; the request comes byte by byte.\<close>

lemma echo_server_witness:
  "let env = mem_env :: (mem_io, unit, mask4, (bytes \<times> bytes) list client_response, unit) env;
       masked = frame_set_mask (1, 2, 3, 4); ms = [MText (Utf8Bytes [0x68, 0x69]), MPing [7]];
       sent = concat (map (frame_bytes aligned_le) (map (\<lambda>m. masked (frame_of_message m)) ms @ [masked (frame_close going_away)]))
   in \<exists>buf t client resp c'. echo_connection std_http env mem_next (send_then_flush env) (mem_stream (map (\<lambda>b. [b]) buf @ [sent])) (0, 0, 0, 0)
        = Some (Ok (), Some t)
      \<and> client_with_config (mem_client std_http [1, 2, 3]) (From_Uri chat_uri) (mem_stream [on_the_wire t]) None (1, 2, 3, 4) = Ok (client, resp)
      \<and> read_n env 3 client = Some ([MText (Utf8Bytes [0x68, 0x69]), MPong [7], MClose going_away], c')"
proof -
  let ?env = "mem_env :: (mem_io, unit, mask4, (bytes \<times> bytes) list client_response, unit) env"
  let ?m = "frame_set_mask (1, 2, 3, 4)" and ?ms = "[MText (Utf8Bytes [0x68, 0x69]), MPing [7]]"
  let ?fs = "map (\<lambda>m. ?m (frame_of_message m)) ?ms" and ?f = "?m (frame_close going_away)"
  let ?sent = "concat (map (frame_bytes aligned_le) (?fs @ [?f]))"
  have ms: "\<forall>m \<in> set ?ms. transferable (config_or_default None) m \<and> transferable (config_or_default None) m"
    using chat_ok(1) by (simp add: chat_def)
  have sent: "sent_as Client f (?m f)" for f by (auto simp: sent_as_def)
  then have fs: "list_all2 (\<lambda>m. sent_as Client (frame_of_message m)) ?ms ?fs" by simp
  have code: "closing_ok (config_or_default None) going_away \<and> closing_ok (config_or_default None) going_away" using chat_ok(2) by blast
  have one: "concat [bs] = bs" for bs :: bytes by simp
  have key: "[1, 2, 3] \<noteq> ([] :: bytes)" by simp
  from echo_server[OF std.http_messages_axioms chat_uri_connectable(2) key monoio_sink.sink_ext_axioms limits_default
      ms fs code sent, where h = "(0, 0, 0, 0)" and g = "(1, 2, 3, 4)"] obtain buf
    where all: "\<forall>chunks later. concat chunks = buf \<longrightarrow> concat later = ?sent \<longrightarrow>
      (\<exists>t. echo_connection std_http ?env mem_next (send_then_flush ?env) (mem_stream (chunks @ later)) (0, 0, 0, 0) = Some (Ok (), Some t)
        \<and> ws_conn t = Terminated
        \<and> (\<forall>chunks'. concat chunks' = on_the_wire t \<longrightarrow>
             (\<exists>client resp c'. client_with_config (mem_client std_http [1, 2, 3]) (From_Uri chat_uri) (mem_stream chunks') None (1, 2, 3, 4)
                  = Ok (client, resp) \<and> on_the_wire client = buf
                \<and> read_n ?env (length (echoes ?ms) + 1) client = Some (echoes ?ms @ [MClose going_away], c'))))"
    by blast
  have got: "echoes ?ms = [MText (Utf8Bytes [0x68, 0x69]), MPong [7]]" "length (echoes ?ms) + 1 = 3" by simp_all
  obtain t where t: "echo_connection std_http ?env mem_next (send_then_flush ?env) (mem_stream (map (\<lambda>b. [b]) buf @ [?sent])) (0, 0, 0, 0)
      = Some (Ok (), Some t)"
    and client: "\<forall>chunks'. concat chunks' = on_the_wire t \<longrightarrow>
             (\<exists>client resp c'. client_with_config (mem_client std_http [1, 2, 3]) (From_Uri chat_uri) (mem_stream chunks') None (1, 2, 3, 4)
                  = Ok (client, resp) \<and> on_the_wire client = buf
                \<and> read_n ?env (length (echoes ?ms) + 1) client = Some (echoes ?ms @ [MClose going_away], c'))"
    using all[rule_format, OF concat_single one] by blast
  from client[rule_format, OF one] t show ?thesis unfolding Let_def got(2) unfolding got(1) append_Cons append_Nil by blast
qed

section \<open>Additional header fields\<close>

text \<open>
  The server of \<open>examples/server.rs\<close>: the response has the two fields of the callback besides
  those of the protocol, the conversation is the same, and nothing is printed as an error.
\<close>

definition custom_fields :: "(bytes \<times> bytes) list" where
  "custom_fields = [(ascii ''mycustomheader'', ascii '':)''), (ascii ''some_tungstenite_header'', ascii ''header_value'')]"

lemma custom_headers_ok:
  assumes "http_laws ht"
  shows "\<exists>resp'. custom_headers ht req resp = Ok resp' \<and> rs_status resp' = rs_status resp \<and> rs_version resp' = rs_version resp
    \<and> mset (hm_entries ht (rs_headers resp')) = mset (hm_entries ht (rs_headers resp)) + mset custom_fields"
proof -
  have "visible (ascii '':)'')" "visible (ascii ''header_value'')" by (simp_all add: visible_def ascii_def)
  moreover have "lower (ascii ''MyCustomHeader'') = ascii ''mycustomheader''"
    "lower (ascii ''SOME_TUNGSTENITE_HEADER'') = ascii ''some_tungstenite_header''"
    by (simp_all add: lower_def ascii_def to_lower_def)
  ultimately show ?thesis
    by (simp add: custom_headers_def custom_fields_def http_laws.value_visible(2)[OF assms] http_laws.entries_append[OF assms] Let_def)
qed

lemma serve_connection_ok:
  fixes ht :: "('h, 'u, 'x) http" and saf :: "(mem_io, unit, mask4, 'h client_response, 'x) send_op"
  defines "env \<equiv> mem_env :: (mem_io, unit, mask4, 'h client_response, 'x) env"
  assumes ht: "http_messages ht" "connectable ht u" "key \<noteq> []" and saf: "sink_ext env saf"
    and ms: "\<forall>m \<in> set ms. transferable (config_or_default None) m" "list_all2 (\<lambda>m. sent_as Client (frame_of_message m)) ms fs"
    and code: "closing_ok (config_or_default None) code" "sent_as Client (frame_close code) f'"
  shows "\<exists>buf. \<forall>chunks later. concat chunks = buf \<longrightarrow> concat later = concat (map (frame_bytes aligned_le) (fs @ [f'])) \<longrightarrow>
    (\<exists>t es gs g. serve_connection ht env mem_next saf (mem_stream (chunks @ later)) h = Some (Ok [], Some t)
      \<and> mset es = mset (accept_fields ht (generate_key ht key)) + mset custom_fields
      \<and> list_all2 (\<lambda>m. sent_as Server (frame_of_message m)) (echoes ms) gs \<and> sent_as Server (frame_close code) g
      \<and> on_the_wire t = response_text (ht_show_status ht 101) es @ concat (map (frame_bytes aligned_le) (gs @ [g])))"
proof -
  have laws: "http_laws ht" using ht(1) by (rule http_messages.axioms(1))
  let ?tr = "mem_transport :: (mem_io, unit, ('h, 'x) hs_error) transport"
  obtain path u' hs where t: "target_ok path" "uri_parse ht path = Ok u'" and hs: "\<forall>f \<in> set hs. field_ok f" "length hs \<le> max_headers"
    and asks: "asks_upgrade (\<lambda>n. first_value n hs)" "first_value key_headername hs = Some (generate_key ht key)"
    using http_messages.uri_request_facts[OF ht, where ?'r = "'h client_response"] by blast
  show ?thesis
  proof (intro exI[of _ "request_text path hs"] allI impI)
    fix chunks later assume "concat chunks = request_text path hs" and later: "concat later = concat (map (frame_bytes aligned_le) (fs @ [f']))"
    from http_messages.server_answers_first[OF ht(1) this(1) hs t asks, of later None h] obtain req resp and fr0 :: "(mem_io, unit, unit) framed"
      where resp: "mset (hm_entries ht (rs_headers resp)) = mset (accept_fields ht (generate_key ht key))" "accepting_response ht req resp" "rs_version resp = HTTP_11"
        and fr0: "mem_out (fr_io fr0) = []" "concat (mem_in (fr_io fr0)) = concat later"
        and run: "\<And>cb. server_handshake ht ?tr mem_next cb (mem_stream (chunks @ later)) None h
          = (case cb req resp of Ok resp' \<Rightarrow> server_accept ht ?tr None h resp' fr0
             | Err resp' \<Rightarrow> server_refuse ht ?tr resp' fr0 | Panic \<Rightarrow> (Panic, fr0))"
      by blast
    obtain resp' where resp': "custom_headers ht req resp = Ok resp'" "rs_status resp' = 101" "rs_version resp' = HTTP_11"
      "mset (hm_entries ht (rs_headers resp')) = mset (accept_fields ht (generate_key ht key)) + mset custom_fields"
      using custom_headers_ok[OF laws, of req resp] resp by (auto simp: accepting_response_def)
    let ?es = "hm_entries ht (rs_headers resp')"
    have "(generate_response ht resp' :: (('h, 'x) hs_error, bytes) res) = Ok (response_text (ht_show_status ht 101) ?es)"
      using resp'(2,3) http_laws.show_version[OF laws] by (simp add: generate_response_def response_text_def fields_text_def ascii_def)
    then obtain fr where fr: "server_accept ht ?tr None h resp' fr0 = (Ok (from_framed_read fr Server None h), fr)" "fr_buffer fr = []"
      "concat (mem_in (fr_io fr)) = concat later" "mem_out (fr_io fr) = response_text (ht_show_status ht 101) ?es"
      using fr0 by (simp add: server_accept_def fr_mem_write Let_def)
    let ?ws = "from_framed_read fr Server None h"
    have accept: "fst (accept_hdr ht (env_transport env) mem_next (mem_stream (chunks @ later)) (custom_headers ht) h) = Ok ?ws"
      using run[of "custom_headers ht"] resp'(1) fr(1) by (simp add: accept_hdr_def accept_hdr_with_config_def env_def mem_env_def)
    have "opened Server None (concat (map (frame_bytes aligned_le) (fs @ [f']))) ?ws"
      using fr(2,3) later by (intro opened_framed) simp
    from conversation[OF saf[unfolded env_def] this limits_default ms code, of "[]"] obtain t gs g
      where "serve_loop env saf [] ?ws = Some (Ok [], t)" "list_all2 (\<lambda>m. sent_as Server (frame_of_message m)) (echoes ms) gs"
        "sent_as Server (frame_close code) g" "on_the_wire t = on_the_wire ?ws @ concat (map (frame_bytes aligned_le) (gs @ [g]))"
      unfolding env_def by blast
    moreover have "on_the_wire ?ws = response_text (ht_show_status ht 101) ?es"
      using fr(4) by (simp add: on_the_wire_def codec_get_io_def from_framed_read_simps)
    ultimately show "\<exists>t es gs g. serve_connection ht env mem_next saf (mem_stream (chunks @ later)) h = Some (Ok [], Some t)
      \<and> mset es = mset (accept_fields ht (generate_key ht key)) + mset custom_fields
      \<and> list_all2 (\<lambda>m. sent_as Server (frame_of_message m)) (echoes ms) gs \<and> sent_as Server (frame_close code) g
      \<and> on_the_wire t = response_text (ht_show_status ht 101) es @ concat (map (frame_bytes aligned_le) (gs @ [g]))"
      using accept resp'(4) by (intro exI[of _ t] exI[of _ ?es] exI[of _ gs] exI[of _ g]) (simp add: serve_connection_def)
  qed
qed

section \<open>Any input\<close>

lemma socket_input_same: "same_reading s t \<Longrightarrow> pending_input t = pending_input s \<Longrightarrow> socket_input t = socket_input s"
  by (auto simp: same_reading_def same_reader_def pending_input_def socket_input_def input_left_def codec_get_io_def Let_def
      dest: arg_cong[where f = length])

lemma read_loop_progress:
  assumes "ws_inv s" "read_loop (mem_env :: (mem_io, unit, mask4, 'r, 'x) env) s = Some (Ok m, s')"
  shows "socket_input s' < socket_input s"
  using assms
proof (induction "socket_input s" arbitrary: s rule: less_induct)
  case less
  let ?env = "mem_env :: (mem_io, unit, mask4, 'r, 'x) env"
  obtain q s1 where q: "read_message_frame ?env s = (q, s1)" by (cases "read_message_frame ?env s")
  then obtain msg reply where ok: "q = Ok (msg, reply)"
    using less.prems(2) by (cases q) (auto simp: read_loop.simps[of ?env s])
  have smaller: "socket_input s1 < socket_input s" using read_message_frame_progress[OF less.prems(1)] q ok by blast
  obtain s2 where s2: "auto_send ?env reply s1 = (Ok (), s2)" "same_reading s1 s2" "pending_input s2 = pending_input s1"
    using mem_auto_send by blast
  have "ws_inv s2" using mem.read_message_frame_ok[OF less.prems(1) q] same_reading_inv[OF s2(2)] by blast
  moreover have "socket_input s2 < socket_input s" using smaller socket_input_same[OF s2(2,3)] by simp
  ultimately show ?case
    using less.prems(2) less.hyps[of s2] q ok s2(1) by (cases msg) (auto simp: read_loop.simps[of ?env s])
qed

lemma next_progress:
  assumes "ws_inv s"
  shows "\<exists>item s'. stream_next (mem_env :: (mem_io, unit, mask4, 'r, 'x) env) s = Some (item, s') \<and> ws_inv s' \<and> item \<noteq> Some Panic
    \<and> (\<forall>m. item = Some (Ok m) \<longrightarrow> socket_input s' < socket_input s)"
proof -
  let ?env = "mem_env :: (mem_io, unit, mask4, 'r, 'x) env"
  have "\<exists>r s'. ws_read ?env s = Some (r, s')"
    using read_loop_returns[OF assms, where ?'r = 'r and ?'x = 'x] by (simp add: ws_read_def check_not_terminated_def)
  then obtain r s' where r: "ws_read ?env s = Some (r, s')" by blast
  have "ws_inv s'" "r \<noteq> Panic" using mem.ws_read_ok[OF assms r] by simp_all
  moreover have "socket_input s' < socket_input s" if "r = Ok m" for m
    using r that read_loop_progress[OF assms] by (auto simp: ws_read_def check_not_terminated_def split: if_splits)
  ultimately show ?thesis using r by (cases r) (auto simp: stream_next_def split: error.splits)
qed

lemma send_any:
  assumes saf: "sink_ext (mem_env :: (mem_io, unit, mask4, 'r, 'x) env) saf" and "ws_inv s" "is_data m"
  shows "\<exists>r t. saf m s = (r, t) \<and> r \<noteq> Panic \<and> (r = Ok () \<longrightarrow> ws_inv t \<and> socket_input t = socket_input s)"
proof -
  let ?env = "mem_env :: (mem_io, unit, mask4, 'r, 'x) env"
  have nc: "\<not> message_is_close m" using assms(3) by (cases m) (simp_all add: is_data_def)
  show ?thesis
  proof (cases "ws_conn s = Active")
    case False
    then show ?thesis
      using sink_ext.sends_then_flushes[OF saf, of m s] by (auto simp: sink_send_def ws_write_eq)
  next
    case True
    obtain s1 where s1: "ws_write ?env m s = (Ok (), s1)" "ws_conn s1 = Active" "same_reading s s1" "pending_input s1 = pending_input s"
      using mem_ws_write[OF True nc, where ?'r = 'r and ?'x = 'x] by blast
    obtain t where t: "on_codec (codec_flush (mem_transport :: (mem_io, unit, ('r, 'x) error) transport)) s1 = (Ok () :: (('r, 'x) error, unit) res, t)"
      "same_reading s1 t" "pending_input t = pending_input s1"
      using mem_flush[of s1, where ?'r = 'r and ?'x = 'x] by blast
    have "ws_flush ?env s1 = (Ok (), t)" using t(1) s1(2) by (simp add: ws_flush_def can_read_def mem_env_def)
    then have "saf m s = (Ok (), t)"
      using s1(1) sink_ext.sends_then_flushes[OF saf, of m s] by (simp add: sink_send_def sink_flush_def)
    moreover have "ws_inv t" using assms(2) same_reading_inv[OF s1(3)] same_reading_inv[OF t(2)] by simp
    ultimately show ?thesis using socket_input_same[OF s1(3,4)] socket_input_same[OF t(2,3)] by simp
  qed
qed

lemma echo_loop_returns:
  assumes saf: "sink_ext (mem_env :: (mem_io, unit, mask4, 'r, 'x) env) saf" and "ws_inv s"
  shows "\<exists>r t. echo_loop (mem_env :: (mem_io, unit, mask4, 'r, 'x) env) saf s = Some (r, t) \<and> r \<noteq> Panic"
  using assms(2)
proof (induction "socket_input s" arbitrary: s rule: less_induct)
  case less
  let ?env = "mem_env :: (mem_io, unit, mask4, 'r, 'x) env"
  obtain item s1 where next1: "stream_next ?env s = Some (item, s1)" "ws_inv s1" "item \<noteq> Some Panic"
    "\<And>m. item = Some (Ok m) \<Longrightarrow> socket_input s1 < socket_input s"
    using next_progress[OF less.prems, where ?'r = 'r and ?'x = 'x] by blast
  consider "item = None" | e where "item = Some (Err e)" | m where "item = Some (Ok m)"
    using next1(3) by (metis option.exhaust res.exhaust)
  then show ?case
  proof cases
    case (3 m)
    show ?thesis
    proof (cases "is_data m")
      case False
      then show ?thesis using less.hyps[OF next1(4)[OF 3] next1(2)] next1(1) 3 by (subst echo_loop.simps) simp
    next
      case True
      obtain r t where r: "saf m s1 = (r, t)" "r \<noteq> Panic" "r = Ok () \<Longrightarrow> ws_inv t \<and> socket_input t = socket_input s1"
        using send_any[OF saf next1(2) True] by blast
      then show ?thesis
        using less.hyps[of t] next1(1) next1(4)[OF 3] 3 True by (subst echo_loop.simps) (cases r; simp)
    qed
  qed (use next1(1) in \<open>subst echo_loop.simps, simp\<close>)+
qed

text \<open>C15. Whatever bytes a client sends, in whatever pieces, the task of the echo server ends: it panics
  exactly when the opening handshake fails, and otherwise reports at most an error that is
  neither the end of the connection, nor a violation of the protocol, nor invalid text.\<close>

theorem echo_server_ends:
  fixes ht :: "('h, 'u, 'x) http" and saf :: "(mem_io, unit, mask4, 'h client_response, 'x) send_op"
  assumes "http_messages ht" "sink_ext mem_env saf"
  shows "\<exists>q. accept_connection ht mem_env mem_next saf (mem_stream chunks) g = Some q
    \<and> (q = Panic \<longleftrightarrow> (\<forall>ws. mem_accept ht chunks None g \<noteq> Ok ws))
    \<and> (\<forall>e. q = Ok (Some e) \<longrightarrow> e \<noteq> ConnectionClosed \<and> (\<forall>p. e \<noteq> Protocol p) \<and> (\<forall>t. e \<noteq> Utf8 t))"
proof -
  let ?env = "mem_env :: (mem_io, unit, mask4, 'h client_response, 'x) env"
  have accept: "fst (accept_stream ht (env_transport ?env) mem_next (mem_stream chunks) g) = mem_accept ht chunks None g"
    by (simp add: accept_stream_def mem_accept_def mem_env_def)
  show ?thesis
  proof (cases "mem_accept ht chunks None g")
    case (Ok ws)
    obtain fr where "server_handshake ht (mem_transport :: (mem_io, unit, ('h, 'x) hs_error) transport) mem_next no_callback (mem_stream chunks) None g = (Ok ws, fr)"
      using Ok unfolding mem_accept_def accept_with_config_def accept_hdr_with_config_def by (metis prod.collapse)
    from server_handshake_ok[OF assms(1) mem_opening.opening_io_axioms _ this] have "ws = from_framed_read fr Server None g"
      by (simp add: callback_returns_def no_callback_def)
    then have "ws_inv ws" using limits_default by (simp add: new_connection_inv(2))
    from echo_loop_returns[OF assms(2) this] obtain r t where r: "echo_loop ?env saf ws = Some (r, t)" "r \<noteq> Panic" by blast
    have quiet: "reported e = Some e' \<Longrightarrow> e' \<noteq> ConnectionClosed \<and> (\<forall>p. e' \<noteq> Protocol p) \<and> (\<forall>t. e' \<noteq> Utf8 t)"
      for e e' :: "('h client_response, 'x) error"
      by (cases e) auto
    show ?thesis
      using r Ok quiet by (cases r) (auto simp: accept_connection_def echo_connection_def accept)
  qed (auto simp: accept_connection_def echo_connection_def accept)
qed

lemma echo_server_ends_witness:
  "\<exists>q. accept_connection std_http mem_env mem_next (send_then_flush mem_env) (mem_stream [[71], [69]]) (0, 0, 0, 0) = Some q"
  using echo_server_ends[OF std.http_messages_axioms monoio_sink.sink_ext_axioms, of "[[71], [69]]" "(0, 0, 0, 0)"] by blast

end
