(* ===== verification/Refusal.thy ===== *)
theory Refusal
  imports Echo Session_Theorems
begin

text \<open>
  A callback that refuses the opening handshake: what the server sends, what it reports, and
  what the client on the other end makes of it.
\<close>

section \<open>The client's end\<close>

context http_messages
begin

lemma client_refused:
  assumes req: "request_ok ht req" and buf: "(generate_request ht req :: (('h, 'x) hs_error, bytes) res) = Ok buf"
    and code: "100 \<le> code" "code \<le> 999" "code \<noteq> 101" and fs: "\<forall>f \<in> set fs. field_ok f" "length fs \<le> max_headers"
    and chunks: "concat chunks = response_text (ht_show_status ht code) fs @ tail"
  shows "\<exists>h body rest. fst (client_handshake ht (mem_transport :: (mem_io, unit, ('h, 'x) hs_error) transport) mem_next req config g (mem_stream chunks))
      = (Err (Http \<lparr>rs_status = code, rs_version = HTTP_11, rs_headers = h, rs_body = Some body\<rparr>)
          :: (('h, 'x) hs_error, (mem_io, unit, 'g) websocket \<times> 'h client_response) res)
    \<and> (\<forall>n. hm_get ht n h = first_value n fs) \<and> body @ rest = tail \<and> (length chunks = 1 \<longrightarrow> rest = [])"
proof -
  let ?tr = "mem_transport :: (mem_io, unit, ('h, 'x) hs_error) transport"
  let ?msg = "response_text (ht_show_status ht code) fs" and ?dec = "response_decode ht :: (unit, ('h, 'x) hs_error, _) decoding"
  obtain h where h: "(headers_from_httparse ht fs :: (('h, 'x) hs_error, 'h) res) = Ok h"
    and partial: "\<And>j. j < length ?msg \<Longrightarrow> ?dec () (take j ?msg) = (Ok Insufficient, (), take j ?msg)"
    and full: "\<And>rest. ?dec () (?msg @ rest)
      = (Ok (Decoded (length ?msg, \<lparr>rs_status = code, rs_version = HTTP_11, rs_headers = h, rs_body = None\<rparr>)), (), ?msg @ rest)"
    using response_decode_status[OF code(1,2) fs, where ?'r = "'h client_response"] by blast
  let ?resp = "\<lparr>rs_status = code, rs_version = HTTP_11, rs_headers = h, rs_body = None\<rparr>"
  obtain b cs where d: "mem_drive ?dec () [] chunks = (Some (Ok (length ?msg, ?resp)), (), b, cs)" "b @ concat cs = ?msg @ tail"
    "length ?msg \<le> length b"
    using mem_drive_head[where dec = ?dec and msg = ?msg and b = "[]" and cs = chunks and tail = tail, OF partial full] chunks by auto
  have left: "drop (length ?msg) b @ concat cs = tail"
    using arg_cong[OF d(2), of "drop (length ?msg)"] d(3) by simp
  have whole: "concat cs = []" if "length chunks = 1"
  proof -
    have one: "chunks = [?msg @ tail]" using that chunks by (cases chunks) auto
    have "?msg \<noteq> []" by (simp add: response_text_def ascii_def)
    then have "?dec () [] = (Ok Insufficient, (), [])" using partial[of 0] by simp
    from mem_drive_whole[where dec = ?dec, OF full this] d(1) show ?thesis unfolding one by simp
  qed
  have checks: "(client_checks ht req :: (('h, 'x) hs_error, verify_data) res) = Ok (expected_response ht req)"
    using req by (simp add: client_checks_Ok)
  have "fst (client_handshake ht ?tr mem_next req config g (mem_stream chunks))
      = Err (Http \<lparr>rs_status = code, rs_version = HTTP_11, rs_headers = h, rs_body = Some (drop (length ?msg) b)\<rparr>)"
    using checks buf d(1,3) code(3)
    by (simp add: client_handshake_def framed_new_def mem_stream_def fr_mem_write mem_next_def client_accept_def verify_response_def Let_def)
  then show ?thesis using left whole headers_from_httparse_get[OF h] by blast
qed

end

section \<open>From end to end\<close>

definition body_bytes :: "bytes option \<Rightarrow> bytes" where
  "body_bytes b = (case b of Some bs \<Rightarrow> bs | None \<Rightarrow> [])"

text \<open>A refusal a client can parse.\<close>

definition refusal_ok :: "('h, 'u, 'x) http \<Rightarrow> 'h error_response \<Rightarrow> bool" where
  "refusal_ok ht no \<longleftrightarrow> rs_version no = HTTP_11 \<and> 100 \<le> rs_status no \<and> rs_status no \<le> 999 \<and> rs_status no \<noteq> 101
     \<and> \<not> ht_is_success ht (rs_status no) \<and> (\<forall>f \<in> set (hm_entries ht (rs_headers no)). field_ok f)
     \<and> length (hm_entries ht (rs_headers no)) \<le> max_headers"

lemma mem_refuse:
  assumes "http_laws ht" "refusal_ok ht no" "mem_out (fr_io fr) = []"
  shows "\<exists>fr'. server_refuse ht (mem_transport :: (mem_io, unit, ('h, 'x) hs_error) transport) no fr
      = (Err (Http no) :: (('h, 'x) hs_error, mem_socket) res, fr')
    \<and> mem_out (fr_io fr') = response_text (ht_show_status ht (rs_status no)) (hm_entries ht (rs_headers no)) @ body_bytes (rs_body no)"
proof -
  have "(generate_response ht no :: (('h, 'x) hs_error, bytes) res)
      = Ok (response_text (ht_show_status ht (rs_status no)) (hm_entries ht (rs_headers no)))"
    using assms(2) http_laws.show_version[OF assms(1)]
    by (simp add: generate_response_def response_text_def fields_text_def ascii_def refusal_ok_def)
  then show ?thesis
    using assms(2,3) by (cases "rs_body no") (simp_all add: server_refuse_def fr_mem_write refusal_ok_def body_bytes_def)
qed

text \<open>C25. A refusal by the callback: the server sends exactly the head and the body of the response
  the callback gave, opens no connection and reports that response; the client gets an HTTP
  error with its status and its header fields, and the bytes of the body that came with the
  piece that completed the head: all of them when the response arrives in one piece.\<close>

theorem refusal_reaches_client:
  fixes ht :: "('h, 'u, 'x) http"
  assumes "http_messages ht" "connectable ht u" "key \<noteq> []" "refusal_ok ht no" "\<And>req resp. cb req resp = Err no"
  shows "\<exists>buf. \<forall>chunks. concat chunks = buf \<longrightarrow>
    (\<exists>fr. accept_hdr ht (mem_transport :: (mem_io, unit, ('h, 'x) hs_error) transport) mem_next (mem_stream chunks) cb h
        = (Err (Http no) :: (('h, 'x) hs_error, mem_socket) res, fr)
      \<and> (\<forall>chunks'. concat chunks' = mem_out (fr_io fr) \<longrightarrow>
          (\<exists>headers body rest. client_with_config (mem_client ht key) (From_Uri u) (mem_stream chunks') cc (g :: mask4)
              = Err (Http \<lparr>rs_status = rs_status no, rs_version = HTTP_11, rs_headers = headers, rs_body = Some body\<rparr>)
            \<and> (\<forall>n. hm_get ht n headers = first_value n (hm_entries ht (rs_headers no)))
            \<and> body @ rest = body_bytes (rs_body no) \<and> (length chunks' = 1 \<longrightarrow> rest = []))))"
proof -
  have laws: "http_laws ht" using assms(1) by (rule http_messages.axioms(1))
  obtain req path u' fs where rq: "(request_of_uri ht key u :: (('h, 'x) hs_error, ('h, 'u) http_request) res) = Ok req"
    "request_ok ht req" "(generate_request ht req :: (('h, 'x) hs_error, bytes) res) = Ok (request_text path fs)"
    and t: "target_ok path" "uri_parse ht path = Ok u'" and fs: "\<forall>f \<in> set fs. field_ok f" "length fs \<le> max_headers"
    and asks: "asks_upgrade (\<lambda>n. first_value n fs)" "first_value key_headername fs = Some (generate_key ht key)"
    using http_messages.uri_request_facts[OF assms(1-3), where ?'r = "'h client_response"] by blast
  show ?thesis
  proof (intro exI[of _ "request_text path fs"] allI impI)
    fix chunks assume "concat chunks = request_text path fs"
    from http_messages.server_answers_first[OF assms(1) this fs t asks, of "[]" None h] obtain fr0 :: "(mem_io, unit, unit) framed"
      where "mem_out (fr_io fr0) = []"
        "accept_hdr ht (mem_transport :: (mem_io, unit, ('h, 'x) hs_error) transport) mem_next (mem_stream chunks) cb h
          = (server_refuse ht (mem_transport :: (mem_io, unit, ('h, 'x) hs_error) transport) no fr0 :: (('h, 'x) hs_error, mem_socket) res \<times> _)"
      using assms(5) by (auto simp: accept_hdr_def accept_hdr_with_config_def)
    then obtain fr where fr: "accept_hdr ht (mem_transport :: (mem_io, unit, ('h, 'x) hs_error) transport) mem_next (mem_stream chunks) cb h
        = (Err (Http no) :: (('h, 'x) hs_error, mem_socket) res, fr)"
      "mem_out (fr_io fr) = response_text (ht_show_status ht (rs_status no)) (hm_entries ht (rs_headers no)) @ body_bytes (rs_body no)"
      using mem_refuse[OF laws assms(4), of fr0] by auto
    have no: "100 \<le> rs_status no" "rs_status no \<le> 999" "rs_status no \<noteq> 101"
      "\<forall>f \<in> set (hm_entries ht (rs_headers no)). field_ok f" "length (hm_entries ht (rs_headers no)) \<le> max_headers"
      using assms(4) by (simp_all add: refusal_ok_def)
    have "\<exists>headers body rest. client_with_config (mem_client ht key) (From_Uri u) (mem_stream chunks') cc g
              = Err (Http \<lparr>rs_status = rs_status no, rs_version = HTTP_11, rs_headers = headers, rs_body = Some body\<rparr>)
            \<and> (\<forall>n. hm_get ht n headers = first_value n (hm_entries ht (rs_headers no)))
            \<and> body @ rest = body_bytes (rs_body no) \<and> (length chunks' = 1 \<longrightarrow> rest = [])"
      if "concat chunks' = mem_out (fr_io fr)" for chunks'
      using http_messages.client_refused[OF assms(1) rq(2,3) no that[unfolded fr(2)], of cc g] rq(1)
      by (simp add: client_with_config_def mem_client_def)
    then show "\<exists>fr. accept_hdr ht (mem_transport :: (mem_io, unit, ('h, 'x) hs_error) transport) mem_next (mem_stream chunks) cb h
        = (Err (Http no) :: (('h, 'x) hs_error, mem_socket) res, fr)
      \<and> (\<forall>chunks'. concat chunks' = mem_out (fr_io fr) \<longrightarrow>
          (\<exists>headers body rest. client_with_config (mem_client ht key) (From_Uri u) (mem_stream chunks') cc g
              = Err (Http \<lparr>rs_status = rs_status no, rs_version = HTTP_11, rs_headers = headers, rs_body = Some body\<rparr>)
            \<and> (\<forall>n. hm_get ht n headers = first_value n (hm_entries ht (rs_headers no)))
            \<and> body @ rest = body_bytes (rs_body no) \<and> (length chunks' = 1 \<longrightarrow> rest = [])))"
      using fr(1) by blast
  qed
qed

text \<open>The server of \<open>examples/callback_error.rs\<close>.\<close>

lemma access_denied_ok: "refusal_ok std_http (access_denied std_http)" "body_bytes (rs_body (access_denied std_http)) = ascii ''Access denied''"
  by (simp_all add: refusal_ok_def access_denied_def std_http_def std_entries_def body_bytes_def)

lemma refusal_reaches_client_witness:
  "\<exists>buf fr headers. refuse_connection std_http (mem_transport :: (mem_io, unit, ((bytes \<times> bytes) list, unit) hs_error) transport) mem_next
      (mem_stream (map (\<lambda>b. [b]) buf)) (0 :: u8, 0 :: u8, 0 :: u8, 0 :: u8) = (Ok (Http (access_denied std_http)), fr)
    \<and> client_with_config (mem_client std_http [1, 2, 3]) (From_Uri chat_uri) (mem_stream [mem_out (fr_io fr)]) None ((1, 2, 3, 4) :: mask4)
      = Err (Http \<lparr>rs_status = 403, rs_version = HTTP_11, rs_headers = headers, rs_body = Some (ascii ''Access denied'')\<rparr>)"
proof -
  have cb: "refuse_all std_http req resp = Err (access_denied std_http)" for req resp by (simp add: refuse_all_def)
  have key: "[1, 2, 3] \<noteq> ([] :: bytes)" by simp
  have one: "concat [bs] = bs" "length [bs] = 1" for bs :: bytes by simp_all
  let ?tr = "mem_transport :: (mem_io, unit, ((bytes \<times> bytes) list, unit) hs_error) transport"
  from refusal_reaches_client[where cb = "refuse_all std_http" and h = "(0, 0, 0, 0)" and cc = None and g = "(1, 2, 3, 4)",
      OF std.http_messages_axioms chat_uri_connectable(2) key access_denied_ok(1) cb]
  obtain buf where all: "\<forall>chunks. concat chunks = buf \<longrightarrow>
      (\<exists>fr. accept_hdr std_http ?tr mem_next (mem_stream chunks) (refuse_all std_http) (0, 0, 0, 0)
          = (Err (Http (access_denied std_http)) :: (_, mem_socket) res, fr)
        \<and> (\<forall>chunks'. concat chunks' = mem_out (fr_io fr) \<longrightarrow>
          (\<exists>headers body rest. client_with_config (mem_client std_http [1, 2, 3]) (From_Uri chat_uri) (mem_stream chunks') None ((1, 2, 3, 4) :: mask4)
              = Err (Http \<lparr>rs_status = rs_status (access_denied std_http), rs_version = HTTP_11, rs_headers = headers, rs_body = Some body\<rparr>)
            \<and> (\<forall>n. hm_get std_http n headers = first_value n (hm_entries std_http (rs_headers (access_denied std_http))))
            \<and> body @ rest = body_bytes (rs_body (access_denied std_http)) \<and> (length chunks' = 1 \<longrightarrow> rest = []))))"
    by blast
  from all[rule_format, OF concat_single[of buf]] obtain fr
    where fr: "accept_hdr std_http ?tr mem_next (mem_stream (map (\<lambda>b. [b]) buf)) (refuse_all std_http) (0, 0, 0, 0)
      = (Err (Http (access_denied std_http)) :: (_, mem_socket) res, fr)"
    and client: "\<forall>chunks'. concat chunks' = mem_out (fr_io fr) \<longrightarrow>
          (\<exists>headers body rest. client_with_config (mem_client std_http [1, 2, 3]) (From_Uri chat_uri) (mem_stream chunks') None ((1, 2, 3, 4) :: mask4)
              = Err (Http \<lparr>rs_status = rs_status (access_denied std_http), rs_version = HTTP_11, rs_headers = headers, rs_body = Some body\<rparr>)
            \<and> (\<forall>n. hm_get std_http n headers = first_value n (hm_entries std_http (rs_headers (access_denied std_http))))
            \<and> body @ rest = body_bytes (rs_body (access_denied std_http)) \<and> (length chunks' = 1 \<longrightarrow> rest = []))"
    by blast
  from client[rule_format, OF one(1)] obtain headers body rest
    where "client_with_config (mem_client std_http [1, 2, 3]) (From_Uri chat_uri) (mem_stream [mem_out (fr_io fr)]) None ((1, 2, 3, 4) :: mask4)
        = Err (Http \<lparr>rs_status = rs_status (access_denied std_http), rs_version = HTTP_11, rs_headers = headers, rs_body = Some body\<rparr>)"
      "body @ rest = ascii ''Access denied''" "rest = []"
    unfolding access_denied_ok(2) using one(2) by blast
  moreover have "rs_status (access_denied std_http) = 403" by (simp add: access_denied_def)
  moreover have "refuse_connection std_http ?tr mem_next (mem_stream (map (\<lambda>b. [b]) buf)) (0 :: u8, 0 :: u8, 0 :: u8, 0 :: u8)
      = (Ok (Http (access_denied std_http)), fr)"
    using fr by (simp add: refuse_connection_def)
  ultimately show ?thesis by auto
qed

end
