(* ===== verification/Example_Clients.thy ===== *)
theory Example_Clients
  imports Echo_Theorems Text_Safety
begin

text \<open>
  The clients of \<open>examples/\<close>: one exchange with a server, and the client of a test suite, which
  asks for the number of cases, echoes the messages of each and closes. They are written over
  an operation that connects to a URL; \<open>client_main\<close> and \<open>autobahn_main\<close> give it \<open>connect\<close> of the
  library. The theorems: what the first client and the echo server say to each other, that the
  count the server names is the one the client reads, and that a run of all cases ends.
\<close>

section \<open>One exchange\<close>

type_synonym ('h, 's, 'q, 'g, 'x) dial = "bytes \<Rightarrow> ('h, 's, 'q, 'g, 'x) connected"

text \<open>\<open>expect\<close>: an error is a panic.\<close>

fun expect :: "('e, 'a) res \<Rightarrow> (unit, 'a) res" where
  "expect (Ok x) = Ok x"
| "expect _ = Panic"

definition hello :: message where
  "hello = MText (Utf8Bytes (ascii ''Hello WebSocket''))"

definition hello_client ::
  "('s, 'q, 'g, 'h client_response, 'x) env \<Rightarrow> ('s, 'q, 'g, 'h client_response, 'x) send_op \<Rightarrow> ('h, 's, 'q, 'g, 'x) dial
     \<Rightarrow> ((unit, message) res \<times> ('s, 'q, 'g) websocket option) option" where
  "hello_client env saf dial =
     (case dial (ascii ''ws://localhost:3012/'') of
        Ok (s, response) \<Rightarrow>
          (case saf hello s of
             (Ok u, s1) \<Rightarrow>
               (case ws_read env s1 of
                  None \<Rightarrow> None
                | Some (Ok m, s2) \<Rightarrow>
                    (case ws_close env None s2 of (r, s3) \<Rightarrow> Some (map_res id (\<lambda>_. m) (expect r), Some s3))
                | Some (_, s2) \<Rightarrow> Some (Panic, Some s2))
           | (_, s1) \<Rightarrow> Some (Panic, Some s1))
      | _ \<Rightarrow> Some (Panic, None))"

definition client_main ::
  "features \<Rightarrow> ('s, 'n, 't, 'nc, 'tc, 'dn, 'cert, 'x) tls \<Rightarrow> ('h, 'u, ('s, 'n, 't) maybe_tls_stream, 'q, 'x) client_env \<Rightarrow> 's tcp
     \<Rightarrow> (('s, 'n, 't) maybe_tls_stream, 'q, 'g, 'h client_response, 'x) env
     \<Rightarrow> (('s, 'n, 't) maybe_tls_stream, 'q, 'g, 'h client_response, 'x) send_op \<Rightarrow> 'g
     \<Rightarrow> ((unit, message) res \<times> (('s, 'n, 't) maybe_tls_stream, 'q, 'g) websocket option) option" where
  "client_main ft ta ce net env saf g = hello_client env saf (\<lambda>url. connect_default ft ta ce net (From_Str url) g)"

section \<open>The client of the test suite\<close>

text \<open>\<open>str::parse::<u32>\<close>: digits, perhaps with a plus sign before them, that fit in 32 bits.\<close>

fun digits_value :: "nat \<Rightarrow> bytes \<Rightarrow> nat option" where
  "digits_value acc [] = Some acc"
| "digits_value acc (b # bs) =
     (if 48 \<le> b \<and> b \<le> 57
      then (let n = acc * 10 + (unat b - 48) in if n < 2 ^ 32 then digits_value n bs else None)
      else None)"

definition parse_u32 :: "bytes \<Rightarrow> u32 option" where
  "parse_u32 t =
     (let ds = (case t of b # bs \<Rightarrow> if b = 43 then bs else t | [] \<Rightarrow> [])
      in if ds = [] then None else map_option of_nat (digits_value 0 ds))"

definition agent :: string where
  "agent = ''Tungstenite''"

definition get_case_count ::
  "('s, 'q, 'g, 'h client_response, 'x) env \<Rightarrow> ('h, 's, 'q, 'g, 'x) dial
     \<Rightarrow> ((('h, 'x) hs_error, u32) res \<times> ('s, 'q, 'g) websocket option) option" where
  "get_case_count env dial =
     (case dial (ascii ''ws://127.0.0.1:9001/getCaseCount'') of
        Err e \<Rightarrow> Some (Err e, None)
      | Panic \<Rightarrow> Some (Panic, None)
      | Ok (s, response) \<Rightarrow>
          (case stream_next env s of
             None \<Rightarrow> None
           | Some (None, s1) \<Rightarrow> Some (Panic, Some s1)
           | Some (Some item, s1) \<Rightarrow>
               (case bind_st (item, s1) (\<lambda>m s2. bind_st (ws_close env None s2) (\<lambda>_ s3.
                  (bind_res (message_to_text (env_utf8 env) m) (\<lambda>t. case parse_u32 t of Some n \<Rightarrow> Ok n | None \<Rightarrow> Panic), s3)))
                of (r, s4) \<Rightarrow> Some (r, Some s4))))"

definition update_reports ::
  "('s, 'q, 'g, 'h client_response, 'x) env \<Rightarrow> ('h, 's, 'q, 'g, 'x) dial
     \<Rightarrow> (('h, 'x) hs_error, unit) res \<times> ('s, 'q, 'g) websocket option" where
  "update_reports env dial =
     (case dial (ascii (''ws://127.0.0.1:9001/updateReports?agent='' @ agent)) of
        Err e \<Rightarrow> (Err e, None)
      | Panic \<Rightarrow> (Panic, None)
      | Ok (s, response) \<Rightarrow> (case ws_close env None s of (r, s1) \<Rightarrow> (r, Some s1)))"

text \<open>The loop over the messages is that of the echo server.\<close>

definition run_test ::
  "('s, 'q, 'g, 'h client_response, 'x) env \<Rightarrow> ('s, 'q, 'g, 'h client_response, 'x) send_op \<Rightarrow> ('h, 's, 'q, 'g, 'x) dial \<Rightarrow> u32
     \<Rightarrow> ((('h, 'x) hs_error, unit) res \<times> ('s, 'q, 'g) websocket option) option" where
  "run_test env saf dial i =
     (case dial (ascii (''ws://127.0.0.1:9001/runCase?case='' @ show_nat (unat i) @ ''&agent='' @ agent)) of
        Err e \<Rightarrow> Some (Err e, None)
      | Panic \<Rightarrow> Some (Panic, None)
      | Ok (s, response) \<Rightarrow> map_option (\<lambda>(r, t). (r, Some t)) (echo_loop env saf s))"

text \<open>The cases \<open>1..=total\<close>, each on a connection of its own; the errors printed are kept.\<close>

fun run_cases ::
  "('s, 'q, 'g, 'h client_response, 'x) env \<Rightarrow> ('s, 'q, 'g, 'h client_response, 'x) send_op \<Rightarrow> (nat \<Rightarrow> ('h, 's, 'q, 'g, 'x) dial)
     \<Rightarrow> (u32 \<times> ('h, 'x) hs_error) list \<Rightarrow> nat list \<Rightarrow> (unit, (u32 \<times> ('h, 'x) hs_error) list) res option" where
  "run_cases env saf dial printed [] = Some (Ok printed)"
| "run_cases env saf dial printed (i # cases) =
     (case run_test env saf (dial i) (of_nat i) of
        None \<Rightarrow> None
      | Some (Ok u, _) \<Rightarrow> run_cases env saf dial printed cases
      | Some (Err e, _) \<Rightarrow>
          run_cases env saf dial (printed @ (case reported e of Some e' \<Rightarrow> [(of_nat i, e')] | None \<Rightarrow> [])) cases
      | Some (Panic, _) \<Rightarrow> Some Panic)"

definition autobahn_client ::
  "('s, 'q, 'g, 'h client_response, 'x) env \<Rightarrow> ('s, 'q, 'g, 'h client_response, 'x) send_op \<Rightarrow> (nat \<Rightarrow> ('h, 's, 'q, 'g, 'x) dial)
     \<Rightarrow> (unit, (u32 \<times> ('h, 'x) hs_error) list) res option" where
  "autobahn_client env saf dial =
     (case get_case_count env (dial 0) of
        None \<Rightarrow> None
      | Some (Ok n, _) \<Rightarrow>
          (case run_cases env saf dial [] [1..<Suc (unat n)] of
             Some (Ok printed) \<Rightarrow>
               Some (map_res id (\<lambda>_. printed) (expect (fst (update_reports env (dial (Suc (unat n)))))))
           | q \<Rightarrow> q)
      | Some (_, _) \<Rightarrow> Some Panic)"

text \<open>The network and the randomness at each connection.\<close>

definition autobahn_main ::
  "features \<Rightarrow> ('s, 'n, 't, 'nc, 'tc, 'dn, 'cert, 'x) tls \<Rightarrow> (nat \<Rightarrow> ('h, 'u, ('s, 'n, 't) maybe_tls_stream, 'q, 'x) client_env)
     \<Rightarrow> (nat \<Rightarrow> 's tcp) \<Rightarrow> (('s, 'n, 't) maybe_tls_stream, 'q, 'g, 'h client_response, 'x) env
     \<Rightarrow> (('s, 'n, 't) maybe_tls_stream, 'q, 'g, 'h client_response, 'x) send_op \<Rightarrow> (nat \<Rightarrow> 'g)
     \<Rightarrow> (unit, (u32 \<times> ('h, 'x) hs_error) list) res option" where
  "autobahn_main ft ta ce net env saf g =
     autobahn_client env saf (\<lambda>i url. connect_default ft ta (ce i) (net i) (From_Str url) (g i))"

section \<open>What they exchange\<close>

lemma hello_transferable: "transferable (config_or_default None) hello"
proof -
  have "valid_utf8 (ascii ''Hello WebSocket'')" by (intro ascii_bytes_valid) (simp add: ascii_def)
  then show ?thesis
    by (simp add: hello_def utf8_wf_def config_or_default_def default_config_def limit_of_def)
qed

text \<open>The first client against any server: its text, the answer to what the server says, and the close frame.\<close>

lemma hello_exchange:
  fixes saf :: "(mem_io, unit, mask4, 'h client_response, 'x) send_op"
  assumes saf: "sink_ext mem_env saf" and dial: "dial (ascii ''ws://localhost:3012/'') = Ok (s, response)"
    and s: "opened Client None (concat (map (frame_bytes aligned_le) (f' # fs))) s"
    and m: "transferable (config_or_default None) m" "sent_as Server (frame_of_message m) f'"
  shows "\<exists>t h gs g. hello_client mem_env saf dial = Some (Ok m, Some t) \<and> ws_conn t = ClosedByUs
    \<and> sent_as Client (frame_of_message hello) h \<and> list_all2 (\<lambda>m. sent_as Client (frame_of_message m)) (answers [m]) gs
    \<and> sent_as Client (frame_close None) g
    \<and> on_the_wire t = on_the_wire s @ concat (map (frame_bytes aligned_le) (h # gs @ [g]))"
proof -
  let ?env = "mem_env :: (mem_io, unit, mask4, 'h client_response, 'x) env"
  have at: "serving s (f' # fs)" "ws_role s = Client" "ws_config s = config_or_default None" "ws_outgoing mem_out s = on_the_wire s"
    using s opened_reading[OF s limits_default] by (simp_all add: opened_def serving_def)
  from data_sent_back[OF saf at(1) hello_transferable] obtain s1
    where s1: "saf hello s = (Ok (), s1)" "serving s1 (f' # fs)" "same_end s s1" "wrote s [hello] s1" by blast
  have same: "ws_role s1 = Client" "ws_config s1 = config_or_default None" using at s1(3) by (simp_all add: same_end_def)
  obtain s2 where s2: "ws_read ?env s1 = Some (Ok m, s2)" "reading_at None s2 fs" "ws_role s2 = Client" "answered s1 [m] s2"
    using read_answers[of None s1 f' fs m, where ?'r = "'h client_response" and ?'x = 'x] s1(2) same m by (auto simp: serving_def)
  have active: "ws_conn s2 = Active" using s2(2) by (simp add: reading_at_def)
  obtain t g where t: "ws_close ?env None s2 = (Ok (), t)" "ws_conn t = ClosedByUs" "fc_write_buf (ws_codec t) = []"
    "sent_as Client (frame_close None) g" "ws_outgoing mem_out t = ws_outgoing mem_out s2 @ frame_bytes aligned_le g"
    using mem_ws_close[OF active, of None, where ?'r = "'h client_response" and ?'x = 'x] s2(3) by auto
  obtain h gs where h: "sent_as Client (frame_of_message hello) h" "ws_outgoing mem_out s1 = on_the_wire s @ frame_bytes aligned_le h"
    "list_all2 (\<lambda>m. sent_as Client (frame_of_message m)) (answers [m]) gs"
    "ws_outgoing mem_out s2 = ws_outgoing mem_out s1 @ concat (map (frame_bytes aligned_le) gs)"
    using s1(4) s2(4) at(2,4) same(1) by (auto simp: wrote_def answered_def list_all2_Cons1)
  show ?thesis
    using dial s1(1) s2(1) t h wire_outgoing[OF t(3)]
    by (intro exI[of _ t] exI[of _ h] exI[of _ gs] exI[of _ g]) (simp add: hello_client_def)
qed

text \<open>
  The first client against the echo server: the client reads its own text, and the server, given
  what the client sends, sends what the client was given.
\<close>

lemma hello_echoed:
  fixes saf :: "(mem_io, unit, mask4, 'h client_response, 'x) send_op"
  assumes saf: "sink_ext mem_env saf" and dial: "dial (ascii ''ws://localhost:3012/'') = Ok (s, response)"
    and s: "opened Client None (concat (map (frame_bytes aligned_le) [e, c])) s"
    and frames: "sent_as Server (frame_of_message hello) e" "sent_as Server (frame_close None) c"
  shows "\<exists>t h g. hello_client mem_env saf dial = Some (Ok hello, Some t) \<and> ws_conn t = ClosedByUs
    \<and> on_the_wire t = on_the_wire s @ concat (map (frame_bytes aligned_le) [h, g])
    \<and> (\<forall>s'. opened Server None (concat (map (frame_bytes aligned_le) [h, g])) s' \<longrightarrow>
        (\<exists>t'. echo_loop mem_env saf s' = Some (Ok (), t') \<and> ws_conn t' = Terminated
          \<and> on_the_wire t' = on_the_wire s' @ concat (map (frame_bytes aligned_le) [e, c])))"
proof -
  have silent: "answers [hello] = []" "echo_of hello = [hello]" by (simp_all add: hello_def)
  obtain t h g where t: "hello_client mem_env saf dial = Some (Ok hello, Some t)" "ws_conn t = ClosedByUs"
    "on_the_wire t = on_the_wire s @ concat (map (frame_bytes aligned_le) [h, g])"
    and sent: "sent_as Client (frame_of_message hello) h" "sent_as Client (frame_close None) g"
    using hello_exchange[where dial = dial and fs = "[c]", OF saf dial s hello_transferable frames(1)] by (auto simp: silent(1))
  have "\<exists>t'. echo_loop mem_env saf s' = Some (Ok (), t') \<and> ws_conn t' = Terminated
      \<and> on_the_wire t' = on_the_wire s' @ concat (map (frame_bytes aligned_le) [e, c])"
    if s': "opened Server None (concat (map (frame_bytes aligned_le) [h, g])) s'" for s'
    using conversation[OF saf, of None "[h]" g s' "[hello]" None] s' limits_default hello_transferable sent frames
    by (auto simp: silent(2) closing_ok_def sent_as_def list_all2_Cons1)
  with t show ?thesis by blast
qed

section \<open>The number of cases\<close>

lemma digit_char: "d < 10 \<Longrightarrow> unat (of_char (char_of (48 + d) :: char) :: u8) = 48 + d" for d :: nat
proof -
  assume d: "d < 10"
  have "(of_char (char_of (48 + d) :: char) :: u8) = of_nat (of_char (char_of (48 + d) :: char))" by (rule of_nat_of_char[symmetric])
  also have "(of_char (char_of (48 + d) :: char) :: nat) = 48 + d" using d by (simp add: take_bit_nat_eq_self)
  finally show ?thesis using d by (simp only:) (simp add: unsigned_of_nat take_bit_nat_eq_self del: of_nat_add)
qed

lemma length_show_nat: "n < 10 ^ Suc k \<Longrightarrow> length (show_nat n) \<le> Suc k"
proof (induction k arbitrary: n)
  case (Suc k)
  then have "n div 10 < 10 ^ Suc k" by simp
  from Suc.IH[OF this] show ?case by (subst show_nat.simps) simp
qed (subst show_nat.simps, simp)

lemma digits_value_show: "n < 2 ^ 32 \<Longrightarrow> digits_value 0 (ascii (show_nat n) @ bs) = digits_value n bs"
proof (induction n arbitrary: bs rule: show_nat.induct)
  case (1 n)
  have byte: "48 \<le> (of_char (char_of (48 + d) :: char) :: u8) \<and> (of_char (char_of (48 + d) :: char) :: u8) \<le> 57" if "d < 10" for d :: nat
    using digit_char[OF that] that by (simp add: word_le_nat_alt)
  show ?case
  proof (cases "n < 10")
    case True
    then show ?thesis using digit_char[of n] byte[of n] by (subst show_nat.simps) (simp add: ascii_def Let_def)
  next
    case False
    have "n div 10 < 2 ^ 32" using 1(2) by simp
    from 1(1)[OF False this] show ?thesis
      using False 1(2) digit_char[of "n mod 10"] byte[of "n mod 10"]
      by (subst show_nat.simps) (simp add: ascii_def Let_def div_mult_mod_eq)
  qed
qed

lemma show_nat_starts: "\<exists>d r. (d :: nat) < 10 \<and> show_nat n = char_of (48 + d) # r"
proof (induction n rule: show_nat.induct)
  case (1 n)
  show ?case
  proof (cases "n < 10")
    case True
    then show ?thesis by (subst show_nat.simps) auto
  next
    case False
    then show ?thesis using 1 by (subst show_nat.simps) auto
  qed
qed

lemma parse_show: "parse_u32 (ascii (show_nat (unat n))) = Some n"
proof -
  obtain d r where d: "(d :: nat) < 10" "show_nat (unat n) = char_of (48 + d) # r" using show_nat_starts by blast
  then have "of_char (char_of (48 + d) :: char) \<noteq> (43 :: u8)"
    using digit_char[of d] by auto
  moreover have "digits_value 0 (ascii (show_nat (unat n))) = Some (unat n)"
    using digits_value_show[of "unat n" "[]"] unsigned_less[of n, where ?'a = nat] by simp
  ultimately show ?thesis using d(2) by (simp add: parse_u32_def ascii_def)
qed

text \<open>The server of the tests sends the number as a text; the client reads that number and says goodbye.\<close>

lemma case_count_read:
  assumes dial: "dial (ascii ''ws://127.0.0.1:9001/getCaseCount'') = Ok (s, response)"
    and s: "opened Client None (frame_bytes aligned_le f') s"
    and f: "sent_as Server (frame_of_message (MText (Utf8Bytes (ascii (show_nat (unat n)))))) f'"
  shows "\<exists>t g. get_case_count (mem_env :: (mem_io, unit, mask4, 'h client_response, 'x) env) dial = Some (Ok n, Some t)
    \<and> ws_conn t = ClosedByUs \<and> sent_as Client (frame_close None) g \<and> on_the_wire t = on_the_wire s @ frame_bytes aligned_le g"
proof -
  let ?env = "mem_env :: (mem_io, unit, mask4, 'h client_response, 'x) env"
  let ?m = "MText (Utf8Bytes (ascii (show_nat (unat n))))"
  have at: "reading_at None s [f']" "ws_role s = Client" "ws_config s = config_or_default None" "ws_outgoing mem_out s = on_the_wire s"
    using s opened_reading[of Client None "[f']" s] limits_default by (simp_all add: opened_def)
  have "length (show_nat (unat n)) \<le> Suc 9"
    using unsigned_less[of n, where ?'a = nat] by (intro length_show_nat) simp
  moreover have "valid_utf8 (ascii (show_nat (unat n)))"
    using show_nat_bytes[of "unat n"] by (intro ascii_bytes_valid) (auto simp: ascii_def)
  ultimately have "transferable (config_or_default None) ?m"
    by (simp add: utf8_wf_def config_or_default_def default_config_def limit_of_def)
  then obtain s1 where s1: "ws_read ?env s = Some (Ok ?m, s1)" "reading_at None s1 []" "ws_role s1 = Client" "answered s [?m] s1"
    using read_answers[OF at(1), of ?m, where ?'r = "'h client_response" and ?'x = 'x] at f by auto
  have active: "ws_conn s1 = Active" using s1(2) by (simp add: reading_at_def)
  obtain t g where t: "ws_close ?env None s1 = (Ok (), t)" "ws_conn t = ClosedByUs" "fc_write_buf (ws_codec t) = []"
    "sent_as Client (frame_close None) g" "ws_outgoing mem_out t = ws_outgoing mem_out s1 @ frame_bytes aligned_le g"
    using mem_ws_close[OF active, of None, where ?'r = "'h client_response" and ?'x = 'x] s1(3) by auto
  have "stream_next ?env s = Some (Some (Ok ?m), s1)" using s1(1) by (simp add: stream_next_def)
  then show ?thesis
    using dial t s1(4) at(4) wire_outgoing[OF t(3)] parse_show[of n]
    by (intro exI[of _ t] exI[of _ g]) (simp add: get_case_count_def answered_def utf8_as_str_def)
qed

section \<open>A run of all cases\<close>

text \<open>A connection whose stream hands over the given pieces.\<close>

definition mem_dial :: "('h, 'u, 'x) http \<Rightarrow> bytes \<Rightarrow> bytes list \<Rightarrow> mask4 \<Rightarrow> ('h, mem_io, unit, mask4, 'x) dial" where
  "mem_dial ht key chunks g url = client_with_config (mem_client ht key) (From_Str url) (mem_stream chunks) None g"

lemma mem_dial_inv:
  fixes ht :: "('h, 'u, 'x) http"
  assumes "http_laws ht" "mem_dial ht key chunks g url = Ok (s, response)"
  shows "ws_inv s"
proof -
  obtain req where "fst (client_handshake ht (mem_transport :: (mem_io, unit, ('h, 'x) hs_error) transport) mem_next req None g (mem_stream chunks)) = Ok (s, response)"
    using assms(2) unfolding mem_dial_def client_with_config_def mem_client_def bind_res_eq_Ok by auto
  then obtain fr where "client_handshake ht (mem_transport :: (mem_io, unit, ('h, 'x) hs_error) transport) mem_next req None g (mem_stream chunks) = (Ok (s, response), fr)"
    by (metis prod.collapse)
  from client_handshake_ok[OF assms(1) mem_opening.opening_io_axioms this] have "s = from_framed_read fr Client None g" by blast
  then show ?thesis using limits_default by (simp add: new_connection_inv(2))
qed

lemma run_cases_returns:
  assumes "sink_ext (mem_env :: (mem_io, unit, mask4, 'h client_response, 'x) env) saf"
    and "\<And>i url s response. dial i url = Ok (s, response) \<Longrightarrow> ws_inv s"
  shows "\<exists>q. run_cases (mem_env :: (mem_io, unit, mask4, 'h client_response, 'x) env) saf dial printed cases = Some q"
proof (induction cases arbitrary: printed)
  case (Cons i cases)
  have "\<exists>r t. run_test mem_env saf (dial i) (of_nat i) = Some (r, t)"
    using assms(2) echo_loop_returns[OF assms(1)]
    by (fastforce simp: run_test_def split: res.split)
  then obtain r t where "run_test mem_env saf (dial i) (of_nat i) = Some (r, t)" by blast
  then show ?case using Cons.IH by (cases r) simp_all
qed simp

text \<open>
  Whatever the servers send, on any number of connections, the client of the test suite comes to
  its end: no connection keeps it for ever.
\<close>

lemma autobahn_client_ends:
  fixes ht :: "('h, 'u, 'x) http" and saf :: "(mem_io, unit, mask4, 'h client_response, 'x) send_op"
  assumes "http_laws ht" "sink_ext mem_env saf"
  shows "\<exists>q. autobahn_client mem_env saf (\<lambda>i. mem_dial ht (key i) (chunks i) (g i)) = Some q"
proof -
  let ?env = "mem_env :: (mem_io, unit, mask4, 'h client_response, 'x) env"
  let ?dial = "\<lambda>i. mem_dial ht (key i) (chunks i) (g i)"
  have inv: "?dial i url = Ok (s, response) \<Longrightarrow> ws_inv s" for i url s response by (rule mem_dial_inv[OF assms(1)])
  have "\<exists>q. get_case_count ?env (?dial 0) = Some q"
  proof (cases "?dial 0 (ascii ''ws://127.0.0.1:9001/getCaseCount'')")
    case (Ok c)
    obtain s response where c: "c = (s, response)" by (cases c)
    obtain item s1 where "stream_next ?env s = Some (item, s1)"
      using next_progress[OF inv[OF Ok[unfolded c]], where ?'r = "'h client_response" and ?'x = 'x] by blast
    then show ?thesis by (cases item) (simp_all add: get_case_count_def Ok c split: prod.split)
  qed (simp_all add: get_case_count_def)
  then obtain r t where count: "get_case_count ?env (?dial 0) = Some (r, t)" by force
  have cases: "\<exists>q. run_cases ?env saf ?dial [] [1..<Suc (unat n)] = Some q" for n :: u32
    by (rule run_cases_returns[OF assms(2)]) (rule inv)
  show ?thesis
  proof (cases r)
    case (Ok n)
    obtain q where "run_cases ?env saf ?dial [] [1..<Suc (unat n)] = Some q" using cases by blast
    then show ?thesis using count Ok unfolding autobahn_client_def by (cases q) simp_all
  qed (use count in \<open>simp_all add: autobahn_client_def\<close>)
qed

end
