(* ===== verification/Spec2Isabelle.thy ===== *)
theory Spec2Isabelle
  imports Opening_Theorems Session_Theorems Delivery Frame_Spec Write_Buffer Text_Safety Frame_Text
    Late_Messages Echo_Theorems Refusal Example_Clients
begin

text \<open>
  A verification library for \<open>monoio-tungstenite\<close>, a WebSocket (RFC 6455) implementation on the
  \<open>monoio\<close> runtime. A client opens with an HTTP request and verifies the response, a server
  reads the request and answers; both then hold a connection that cuts the byte stream into
  frames, assembles frames into messages, answers pings and close frames by itself, and goes
  through the closing handshake. Paths below are under \<open>src/src/\<close>.

  Theories and the code they model, from the bottom:

  \<^item> \<open>Ws_Prelude\<close>: machine integers, the outcome type \<open>res\<close> (\<open>Ok\<close>, \<open>Err\<close>, or a panic) and its
    sequencing \<open>bind_res\<close>, and with a state \<open>bind_st\<close>; shared lemmas.
  \<^item> \<open>Coding\<close> (\<open>protocol/frame/coding.rs\<close>), \<open>Errors\<close> and \<open>Error_Text\<close> (\<open>error.rs\<close>), \<open>Mask\<close>
    (\<open>frame/mask.rs\<close>), \<open>Utf8_Text\<close> (\<open>frame/utf8/bytes.rs\<close>), \<open>String_Collector\<close>
    (\<open>frame/utf8/decode.rs\<close> and the collector of \<open>protocol/message.rs\<close>).
  \<^item> \<open>Frame\<close> and \<open>Frame_Text\<close> (\<open>frame/frame.rs\<close>), \<open>Codec\<close> (\<open>frame/codec/decode.rs\<close>, \<open>encode.rs\<close>), \<open>Message\<close>
    (\<open>protocol/message.rs\<close>), \<open>Frame_Codec\<close> (\<open>frame/codec.rs\<close>).
  \<^item> \<open>Websocket\<close> (\<open>protocol/websocket.rs\<close>): the record \<open>websocket\<close> has the fields of the struct;
    \<open>ws_read\<close>, \<open>ws_write\<close>, \<open>ws_close\<close>, \<open>ws_flush\<close> are its operations, split where the code
    nests matches (\<open>accept_frame\<close>, \<open>handle_control\<close>, \<open>handle_data\<close>, \<open>do_close\<close>).
  \<^item> \<open>Http\<close>: what the code calls of the crates \<open>http\<close>, \<open>httparse\<close>, \<open>sha1\<close> and
    \<open>data_encoding\<close>, as one record of operations, with their documented laws as locales;
    \<open>Std_Http\<close> is an instance of them.
  \<^item> \<open>Handshake\<close> (\<open>handshake.rs\<close>, \<open>handshake/headers.rs\<close>), \<open>Client_Handshake\<close>
    (\<open>handshake/client.rs\<close>), \<open>Server_Handshake\<close> (\<open>handshake/server.rs\<close>, \<open>server.rs\<close>),
    \<open>Client_Connect\<close> (\<open>client.rs\<close>, \<open>stream.rs\<close>, \<open>tls.rs\<close> and \<open>tls/\<close>).
  \<^item> \<open>Echo\<close> (\<open>autobahn_server.rs\<close>, \<open>server.rs\<close>, \<open>srv_accept_unmasked_frames.rs\<close> and
    \<open>callback_error.rs\<close> of \<open>src/examples/\<close>): servers built on the library, their callbacks and
    their loops \<open>echo_loop\<close> and \<open>serve_loop\<close>. \<open>Example_Clients\<close>: \<open>client.rs\<close> and
    \<open>autobahn_client.rs\<close> there, what the first and the echo server say to each other, and that
    the second ends.

  Specifications and proofs on top: \<open>Websocket_Invariant\<close> (the invariant \<open>ws_inv\<close>, the paths of
  the closing state), \<open>Connection\<close> (runs of operations as an inductive relation, the discipline
  of the wire), \<open>Mem_Session\<close> and \<open>Fragmentation\<close> (connections over an in-memory transport),
  \<open>Handshake_Session\<close> and \<open>Opening\<close> (the two sides of the handshake against each other),
  \<open>Opening_Theorems\<close> (the properties of the opening handshake), \<open>Session\<close> and
  \<open>Session_Theorems\<close> (a client and a server that talk in turns and close, from the URI to the
  end of both connections), \<open>Frame_Spec\<close> (the abstract endpoint that frame handling refines),
  \<open>Delivery\<close> (the pieces of the input do not matter), \<open>Write_Buffer\<close> (when bytes reach the
  stream, and a flush after one that failed), \<open>Text_Safety\<close> (every \<open>Utf8Bytes\<close> is valid UTF-8),
  \<open>Late_Messages\<close> (a client that closes still gets the messages under way), \<open>Echo_Theorems\<close> (a
  client and the echo server, from the request to the end of the loop), \<open>Refusal\<close> (the answer
  of a server that refuses is the error the client gets). This theory has the properties of
  connections; the properties of the parts are in their theories.

  What is a parameter, and its laws: the transport and the runtime's \<open>FramedRead\<close> (locales
  \<open>byte_sink\<close>, \<open>frame_source\<close>, \<open>opening_io\<close>: written bytes go out in order, the decoder is
  called on what was read so far), memory alignment and byte order (\<open>sound_platform\<close>), the SIMD
  UTF-8 validator (\<open>utf8_validator\<close>), random masks and keys, the HTTP crates (\<open>http_laws\<close>,
  \<open>http_messages\<close>), \<open>send_and_flush\<close> of \<open>monoio\<close> (locale \<open>sink_ext\<close>: \<open>send\<close>, then \<open>flush\<close>), TCP and the TLS crates with their results (no law is assumed of them).
  Every locale is interpreted on definitions of the development: \<open>mem_transport\<close>, \<open>aligned_le\<close>,
  the standard library's validator, \<open>std_http\<close>. The cargo features are flags.

  Loops: the read loop is \<open>partial_function (option)\<close>, since it may wait for ever; on a finite
  input it returns (\<open>read_returns\<close>), and so do the loops of the echo servers
  (\<open>echo_server_ends\<close>). Decoding a buffer frame by frame is \<open>drain\<close> with fuel; a
  measure of the input bounds the calls (\<open>drain_total\<close>), so that fuel beyond it is enough.
  \<open>usize\<close> is 64 bits. Awaiting is sequencing: a connection is used by one task, and a future
  that is dropped half-way is not modelled.

  Not modelled: the capacity reservations of buffers (no observable effect), derived \<open>Debug\<close>
  and \<open>Hash\<close> implementations, the size limit of a \<open>HeaderMap\<close> (its \<open>append\<close> panics beyond 24576
  fields; parsed heads have at most 124), and \<open>lib.rs\<close> and \<open>protocol.rs\<close>, which only re-export;
  \<open>interval_server.rs\<close> of the examples, which drops a future half-way by \<open>select!\<close>; and the fuzz
  targets, drivers whose claims are \<open>header_parse_total\<close>, \<open>read_returns\<close> and \<open>connection_safe\<close>.
  What is foreign to the crate in an operation is an argument of it: the codec given to
  \<open>send_with\<close> and \<open>next_with\<close>, the text of a \<open>url::Url\<close>, the hash and the equality of \<open>str\<close>.
\<close>

section \<open>Connections\<close>


lemma mem_connection_raw:
  "mem_connection chunks rl c g = from_raw_socket (env_transport (mem_env :: (mem_io, unit, mask4, 'r, 'x) env))
     \<lparr>mem_in = chunks, mem_out = []\<rparr> rl c g"
  by (simp add: mem_connection_def mem_env_def mem_transport_def from_raw_socket_def codec_new_def framed_new_def)


text \<open>C12. What \<open>read\<close> hands to the user: only while the closing handshake allows it, text that is
  valid UTF-8, sizes within the limits; and what it sends by itself: a pong with the same
  payload for a ping on an active connection, a close frame for the first close frame of the
  peer, and nothing else; the reply is flushed.\<close>

theorem read_contract:
  fixes env :: "('s, 'q, 'g, 'r, 'x) env"
  assumes "sound_env env sent" "limits_ok (config_or_default c)"
    and "reaches env (from_raw_socket (env_transport env) io rl c g) s" "ws_read env s = Some (Ok m, s')"
  shows "can_read (ws_conn s) \<and> message_ok (config_or_default c) m
    \<and> (\<exists>reply. reply_rule (ws_conn s) (Some m) reply (ws_conn s') \<and> replied env sent s reply s')"
proof -
  have "ws_inv (from_raw_socket (env_transport env) io rl c g)" using assms(2) by (rule new_connection_inv(1))
  from sound_env.reaches_ok[OF assms(1,3) this] sound_env.ws_read_ok[OF assms(1) _ assms(4)]
  show ?thesis by (simp add: from_raw_socket_simps)
qed

text \<open>An empty ping to a client, read in one piece.\<close>

definition pinged :: mem_socket where
  "pinged = mem_connection [[0x89, 0]] Client None (1, 2, 3, 4)"

lemma pinged_read:
  "\<exists>s'. ws_read (mem_env :: (mem_io, unit, mask4, 'r, 'x) env) pinged = Some (Ok (MPing []), s') \<and> reading_at None s' []"
proof -
  have "frame_bytes aligned_le (frame_ping []) = [0x89, 0]"
    by (simp add: frame_bytes_def header_bytes_def header_byte_one_def header_byte_two_def length_bytes_def
        length_for_length_def default_header_def frame_ping_def)
  then have "reading_at None pinged [frame_ping []]"
    unfolding pinged_def using default_limits_ok by (intro mem_connection_reading) (simp_all add: config_or_default_def)
  from read_answers[OF this, of "MPing []", where ?'r = 'r and ?'x = 'x] show ?thesis
    by (auto simp: pinged_def sent_as_def)
qed

lemma read_contract_witness:
  "\<exists>s'. ws_read (mem_env :: (mem_io, unit, mask4, unit, unit) env) pinged = Some (Ok (MPing []), s')
    \<and> replied (mem_env :: (mem_io, unit, mask4, unit, unit) env) mem_out pinged (Some (frame_pong [])) s'"
proof -
  let ?env = "mem_env :: (mem_io, unit, mask4, unit, unit) env"
  obtain s' where r: "ws_read ?env pinged = Some (Ok (MPing []), s')"
    using pinged_read[where ?'r = unit and ?'x = unit] by blast
  have "limits_ok (config_or_default None)" using default_limits_ok by (simp add: config_or_default_def)
  then have "\<exists>reply. reply_rule (ws_conn pinged) (Some (MPing [])) reply (ws_conn s') \<and> replied ?env mem_out pinged reply s'"
    using read_contract[where env = ?env, OF mem.sound_env_axioms] reaches_start[of ?env pinged] r
    unfolding pinged_def mem_connection_raw[where ?'r = unit and ?'x = unit] by blast
  then show ?thesis using r by (auto simp: pinged_def)
qed

text \<open>C7. The bytes a connection puts on the wire, in any run without raw frames in which the
  transport does not fail, are whole frames: a client's are masked and a server's are not, a
  close frame is the last one, and it is there once the connection is closing.\<close>

theorem wire_discipline:
  fixes env :: "('s, 'q, 'g, 'r, 'x) env"
  assumes "sound_env env sent" "limits_ok (config_or_default c)"
    and "clean_run env (from_raw_socket (env_transport env) io rl c g) s"
  shows "\<exists>fs. ws_outgoing sent s = sent io @ concat (map (\<lambda>f. encode (env_platform env) f []) fs)
    \<and> wire_ok rl (ws_conn s) fs"
proof -
  have "ws_inv (from_raw_socket (env_transport env) io rl c g)" using assms(2) by (rule new_connection_inv(1))
  from sound_env.clean_run_wire[OF assms(1,3) this] show ?thesis
    by (auto simp: from_raw_socket_simps wire_ok_def encode_eq)
qed

text \<open>A client that reads a ping and then closes.\<close>

lemma wire_discipline_witness:
  "\<exists>s. clean_run (mem_env :: (mem_io, unit, mask4, unit, unit) env) pinged s \<and> ws_conn s = ClosedByUs
    \<and> (\<exists>fs. ws_outgoing mem_out s = concat (map (\<lambda>f. encode aligned_le f []) fs) \<and> wire_ok Client ClosedByUs fs)"
proof -
  let ?env = "mem_env :: (mem_io, unit, mask4, unit, unit) env"
  obtain s1 where s1: "ws_read ?env pinged = Some (Ok (MPing []), s1)" "reading_at None s1 []"
    using pinged_read[where ?'r = unit and ?'x = unit] by blast
  then obtain s where s: "ws_close ?env None s1 = (Ok (), s)" "ws_conn s = ClosedByUs"
    using mem_ws_close[of s1 None, where ?'r = unit and ?'x = unit] by (auto simp: reading_at_def)
  have "clean_run ?env pinged s1"
    by (rule clean_op[OF clean_start, where op = ORead and r = "Ok (Some (MPing []))"]) (simp_all add: op_plain_def s1(1) no_transport_error_def)
  then have run: "clean_run ?env pinged s"
    by (rule clean_op[where op = "OClose None" and r = "Ok None"]) (simp_all add: op_plain_def s(1) no_transport_error_def)
  have limits: "limits_ok (config_or_default None)" using default_limits_ok by (simp add: config_or_default_def)
  note wire = wire_discipline[where env = ?env, OF mem.sound_env_axioms limits run[unfolded pinged_def mem_connection_raw[where ?'r = unit and ?'x = unit]]]
  then show ?thesis using run s(2) by (auto simp: mem_env_def)
qed

text \<open>C14. On the in-memory transport every \<open>read\<close> returns, in any state a connection on a finite
  input reaches, whatever the input is.\<close>

theorem read_returns:
  assumes "limits_ok (config_or_default c)" "reaches (mem_env :: (mem_io, unit, mask4, 'r, 'x) env) (mem_connection chunks rl c g) s"
  shows "\<exists>r s'. ws_read (mem_env :: (mem_io, unit, mask4, 'r, 'x) env) s = Some (r, s')"
proof -
  have "ws_inv (mem_connection chunks rl c g)" unfolding mem_connection_def using assms(1) by (rule new_connection_inv(1))
  then have "ws_inv s" using mem.reaches_ok[OF assms(2)] by blast
  from read_loop_returns[OF this, where ?'r = 'r and ?'x = 'x] show ?thesis
    unfolding ws_read_def by (auto simp: check_not_terminated_def)
qed

lemma read_returns_witness:
  "\<exists>r s'. ws_read (mem_env :: (mem_io, unit, mask4, unit, unit) env)
     (mem_connection [[0xFF], [0, 1]] Server None (0, 0, 0, 0)) = Some (r, s')"
  using default_limits_ok by (intro read_returns[OF _ reaches_start]) (simp add: config_or_default_def)

section \<open>Two connections\<close>

text \<open>C2. Messages written on one end and flushed arrive at the other end, all of them, in order and
  unchanged, whatever the pieces in which the transport delivers the bytes, if they are
  within the receiver's limits; neither writing nor reading fails.\<close>

theorem messages_end_to_end:
  assumes "limits_ok (config_or_default rc)" "\<forall>m \<in> set ms. transferable (config_or_default rc) m"
    and "write_all (mem_env :: (mem_io, unit, mask4, 'r, 'x) env) ms (mem_connection [] rl wc g) = (w, s1)"
    and "ws_flush (mem_env :: (mem_io, unit, mask4, 'r, 'x) env) s1 = (f, s2)"
    and "concat chunks = on_the_wire s2"
  shows "w = Ok () \<and> f = Ok ()
    \<and> (\<exists>t. read_n (mem_env :: (mem_io, unit, mask4, 'r, 'x) env) (length ms) (mem_connection chunks (peer rl) rc h) = Some (ms, t))"
proof -
  obtain fs where w: "w = Ok ()" "f = Ok ()" "list_all2 (\<lambda>m. sent_as rl (frame_of_message m)) ms fs"
    "on_the_wire s2 = concat (map (frame_bytes aligned_le) fs)"
    using mem_write_flush[of "mem_connection [] rl wc g" ms "config_or_default rc", where ?'r = 'r and ?'x = 'x] assms(2-4) by auto
  have "reading_at None (mem_connection chunks (peer rl) rc h) (fs @ [])"
    using mem_connection_reading[OF assms(1)] assms(5) w(4) by simp
  from read_n_answers[OF this, of ms, where ?'r = 'r and ?'x = 'x] show ?thesis
    using w assms(2) by auto
qed

text \<open>A client sends a text and a ping; the server gets the bytes one at a time.\<close>

lemma messages_end_to_end_witness:
  "let env = mem_env :: (mem_io, unit, mask4, unit, unit) env;
       ms = [MText (Utf8Bytes [0x68, 0x69]), MPing [7]];
       s2 = snd (ws_flush env (snd (write_all env ms (mem_connection [] Client None (1, 2, 3, 4)))))
   in \<exists>t. read_n env 2 (mem_connection (map (\<lambda>b. [b]) (on_the_wire s2)) Server None (0, 0, 0, 0)) = Some (ms, t)"
proof -
  have limits: "limits_ok (config_or_default None)" using default_limits_ok by (simp add: config_or_default_def)
  have ms: "\<forall>m \<in> set [MText (Utf8Bytes [0x68, 0x69]), MPing [7]]. transferable (config_or_default None) m"
    by (simp add: config_or_default_def default_config_def limit_of_def utf8_wf_def std_from_utf8_step utf8_char_width_def)
  have "concat (map (\<lambda>b. [b]) bs) = bs" for bs :: bytes by (induction bs) simp_all
  from messages_end_to_end[OF limits ms surjective_pairing surjective_pairing this, where rl = Client and wc = None
      and g = "(1, 2, 3, 4)" and h = "(0, 0, 0, 0)" and ?'r = unit and ?'x = unit]
  show ?thesis by (simp add: Let_def eval_nat_numeral del: read_n.simps write_all.simps)
qed

text \<open>C8. A fragmented message, with pings and pongs between its pieces, arrives as the control
  messages in their place and then as one message with the bytes of all pieces, if it is
  within the limits and, for a text, valid as a whole; a character may be cut between pieces.\<close>

theorem fragmented_message:
  assumes "limits_ok (config_or_default c)" "parts \<noteq> []" "parts_fit (config_or_default c) (([], p) # parts)"
    and "length (p @ pieces parts) \<le> limit_of (max_message_size (config_or_default c))" "content_ok ty (p @ pieces parts)"
    and "list_all2 (sent_as (peer rl)) (fragmented ty p parts) fs"
    and "concat chunks = concat (map (\<lambda>f. encode aligned_le f []) fs)"
  shows "\<exists>t. read_n (mem_env :: (mem_io, unit, mask4, 'r, 'x) env) (length (controls parts) + 1) (mem_connection chunks rl c g)
    = Some (controls parts @ [message_of ty (p @ pieces parts)], t)"
proof -
  let ?env = "mem_env :: (mem_io, unit, mask4, 'r, 'x) env" and ?s = "mem_connection chunks rl c g"
  have "concat chunks = concat (map (frame_bytes aligned_le) fs)" using assms(7) by (simp add: encode_eq)
  note at = mem_connection_reading[OF assms(1) this, of rl g]
  obtain f1 fs' where fs: "fs = f1 # fs'" "sent_as (peer rl) (data_frame (fragment_op ty) False p) f1"
    "list_all2 (sent_as (peer rl)) (continuation parts) fs'"
    using assms(6) by (auto simp: fragmented_def list_all2_Cons1)
  obtain s1 m where s1: "ws_read ?env ?s = ws_read ?env s1" "reading_at (Some m) s1 (fs' @ [])" "message_rep m ty p"
    "ws_role s1 = rl" "ws_config s1 = config_or_default c"
    using read_first[of ?s f1 fs' ty p "pieces parts", where ?'r = 'r and ?'x = 'x] at fs assms(3-5)
    by (auto simp: parts_fit_def)
  have "parts_fit (ws_config s1) parts" using assms(3) s1(5) by (simp add: parts_fit_def)
  from read_parts[OF s1(2,3) assms(2) _ this, where ?'r = 'r and ?'x = 'x] show ?thesis
    using fs(3) assms(4,5) s1(1,4,5) by auto
qed

text \<open>The euro sign, cut twice, with a ping between the first two pieces, from a server.\<close>

lemma fragmented_message_witness:
  "\<exists>t. read_n (mem_env :: (mem_io, unit, mask4, unit, unit) env) 2
     (mem_connection [concat (map (\<lambda>f. encode aligned_le f []) (fragmented IncText [0xE2] [([MPing [7]], [0x82]), ([], [0xAC])]))]
        Client None (0, 0, 0, 0))
   = Some ([MPing [7], MText (Utf8Bytes [0xE2, 0x82, 0xAC])], t)"
proof -
  let ?parts = "[([MPing [7]], [0x82]), ([], [0xAC])] :: (message list \<times> bytes) list"
  have "limits_ok (config_or_default None)" using default_limits_ok by (simp add: config_or_default_def)
  moreover have "parts_fit (config_or_default None) (([], [0xE2]) # ?parts)"
    by (simp add: parts_fit_def interleavable_def config_or_default_def default_config_def limit_of_def)
  moreover have "length ([0xE2] @ pieces ?parts) \<le> limit_of (max_message_size (config_or_default None))"
    by (simp add: config_or_default_def default_config_def limit_of_def)
  moreover have "content_ok IncText ([0xE2] @ pieces ?parts)"
    by (simp add: content_ok_def std_from_utf8_step utf8_char_width_def second_of_3_def is_cont_def)
  moreover have "list_all2 (sent_as (peer Client)) (fragmented IncText [0xE2] ?parts) (fragmented IncText [0xE2] ?parts)"
    by (simp add: sent_as_def list.rel_refl)
  ultimately show ?thesis
    using fragmented_message[of None ?parts "[0xE2]" IncText Client "fragmented IncText [0xE2] ?parts"
        "[concat (map (\<lambda>f. encode aligned_le f []) (fragmented IncText [0xE2] ?parts))]" "(0, 0, 0, 0)",
        where ?'r = unit and ?'x = unit]
    by (simp add: numeral_2_eq_2 del: read_n.simps)
qed

text \<open>C4. The closing handshake between two connections: the close frame of one end arrives as a
  close message with its code and reason, is answered, the answer arrives as the same
  message, and the next \<open>read\<close> of each end reports the connection as closed.\<close>

theorem close_handshake:
  fixes env :: "(mem_io, unit, mask4, 'r, 'x) env"
  defines "env \<equiv> mem_env"
  assumes "limits_ok (config_or_default ca)" "limits_ok (config_or_default cb)"
    and "closing_ok (config_or_default ca) code" "closing_ok (config_or_default cb) code"
  shows "\<exists>a1 b2 a2 b3 a3. ws_close env code (mem_connection [] rl ca g) = (Ok (), a1) \<and> ws_conn a1 = ClosedByUs
    \<and> ws_read env (mem_connection [on_the_wire a1] (peer rl) cb h) = Some (Ok (MClose code), b2) \<and> ws_conn b2 = ClosedByPeer
    \<and> ws_read env (deliver (on_the_wire b2) a1) = Some (Ok (MClose code), a2) \<and> ws_conn a2 = CloseAcknowledged
    \<and> ws_read env b2 = Some (Err ConnectionClosed, b3) \<and> ws_conn b3 = Terminated
    \<and> ws_read env a2 = Some (Err ConnectionClosed, a3) \<and> ws_conn a3 = Terminated"
proof -
  let ?a = "mem_connection [] rl ca g" and ?b = "mem_connection [] (peer rl) cb h"
  note idle = mem_connection_idle[OF assms(2), of rl g] mem_connection_idle[OF assms(3), of "peer rl" h]
  obtain a1 f' where a1: "ws_close env code ?a = (Ok (), a1)" "at_rest a1" "same_end ?a a1" "ws_conn a1 = ClosedByUs"
    "sent_as rl (frame_close code) f'" "since ?a a1 = frame_bytes aligned_le f'"
    using close_out[OF idle(1), of code, where ?'r = 'r and ?'x = 'x] by (auto simp: env_def)
  obtain b2 k where b2: "ws_read env (arrive [on_the_wire a1] ?b) = Some (Ok (MClose code), b2)" "at_end (ws_read env b2)"
    "ws_conn b2 = ClosedByPeer" "sent_as (peer rl) (frame_close code) k" "since ?b b2 = frame_bytes aligned_le k"
    using close_in[of ?b code f' "[on_the_wire a1]", where ?'r = 'r and ?'x = 'x] idle(2) a1(5,6) assms(5)
    by (auto simp: idle_def can_read_def env_def)
  obtain a2 where "ws_read env (arrive [on_the_wire b2] a1) = Some (Ok (MClose code), a2)" "at_end (ws_read env a2)"
    "ws_conn a2 = CloseAcknowledged"
    using close_in[OF a1(2), of code k "[on_the_wire b2]", where ?'r = 'r and ?'x = 'x] a1(3,4) assms(4) b2(4,5)
    by (auto simp: can_read_def same_end_def env_def)
  then show ?thesis
    using a1(1,4) b2(1)[folded mem_connection_arrive[where cs = "[on_the_wire a1]"]] b2(2,3) unfolding deliver_def at_end_eq by blast
qed

text \<open>A client going away.\<close>

lemma close_handshake_witness:
  "let code = Some \<lparr>close_code = Code_Away, close_reason = Utf8Bytes [98, 121, 101]\<rparr>;
       env = mem_env :: (mem_io, unit, mask4, unit, unit) env;
       a1 = snd (ws_close env code (mem_connection [] Client None (1, 2, 3, 4)))
   in \<exists>b2. ws_read env (mem_connection [on_the_wire a1] Server None (0, 0, 0, 0)) = Some (Ok (MClose code), b2)"
proof -
  let ?code = "Some \<lparr>close_code = Code_Away, close_reason = Utf8Bytes [98, 121, 101]\<rparr>"
  have limits: "limits_ok (config_or_default None)" using default_limits_ok by (simp add: config_or_default_def)
  have code: "closing_ok (config_or_default None) ?code"
    by (simp add: closing_ok_def config_or_default_def default_config_def limit_of_def utf8_wf_def std_from_utf8_step
        utf8_char_width_def close_code_of_u16_def)
  show ?thesis
    using close_handshake[OF limits limits code code, of Client "(1, 2, 3, 4)" "(0, 0, 0, 0)", where ?'r = unit and ?'x = unit]
    by (auto simp: Let_def)
qed

section \<open>Refusals\<close>

text \<open>C13. A received frame is refused as a violation of the protocol exactly for the reasons that
  \<open>frame_violation\<close> lists, the first that applies, and leaves the connection as it was; every
  other error is about its content: invalid text or a size over a limit.\<close>

theorem frame_violations:
  fixes s :: "('s, 'q, 'g) websocket"
  shows "(case frame_violation (ws_role s) (ws_conn s) (ws_incomplete s \<noteq> None) f of
      Some e \<Rightarrow> accept_frame sv f s = (Err (Protocol e) :: (('r, 'x) error, received) res, s)
    | None \<Rightarrow> (\<forall>e s'. accept_frame sv f s = (Err e :: (('r, 'x) error, received) res, s') \<longrightarrow> content_error e))"
  by (rule accept_frame_violation)

text \<open>A masked frame from the server of the connection.\<close>

lemma frame_violations_witness:
  "fst (accept_frame std_simdutf8 (frame_set_mask (1, 2, 3, 4) (frame_ping [])) pinged :: ((unit, unit) error, received) res \<times> _)
     = Err (Protocol MaskedFrameFromServer)"
  using frame_violations[where s = pinged and f = "frame_set_mask (1, 2, 3, 4) (frame_ping [])" and sv = std_simdutf8 and ?'r = unit and ?'x = unit]
  by (simp add: pinged_def frame_violation_def frame_set_mask_def header_set_mask_def frame_ping_def default_header_def
      frame_is_masked_def)

text \<open>C16. What \<open>write\<close> does, by the state: after the end it reports the connection as closed, in
  the closing handshake it refuses to send, and otherwise it closes for a close message and
  sends the frame of any other; the frame is masked for a client and goes behind what is
  already on its way.\<close>

theorem write_by_state:
  fixes env :: "('s, 'q, 'g, 'r, 'x) env"
  assumes "sound_env env sent" "ws_write env m s = (r, s')"
  shows "(case ws_conn s of
      Terminated \<Rightarrow> r = Err AlreadyClosed \<and> s' = s
    | Active \<Rightarrow> (if message_is_close m then ws_conn s' = ClosedByUs else ws_conn s' = Active)
        \<and> ((\<exists>e. r = Err e \<and> transport_error e)
           \<or> r = Ok () \<and> (\<exists>f. sent_as (ws_role s) (frame_of_message m) f
                \<and> ws_outgoing sent s' = ws_outgoing sent s @ encode (env_platform env) f []))
    | _ \<Rightarrow> r = Err (Protocol SendAfterClosing) \<and> s' = s)"
proof (cases "ws_conn s = Active")
  case True
  note ok = sound_env.ws_write_ok[OF assms]
  have "ws_conn s' = ClosedByUs" if close: "message_is_close m"
  proof -
    from close obtain c where "m = MClose c" by (cases m) auto
    then have "ws_close env c s = (r, s')" using assms(2) True by (simp add: ws_write_eq)
    then show ?thesis using sound_env.ws_close_ok[OF assms(1)] True by blast
  qed
  then show ?thesis using ok True by (cases r) (auto simp: encode_eq)
next
  case False
  then show ?thesis using assms(2) by (cases "ws_conn s") (auto simp: ws_write_eq)
qed

lemma write_by_state_witness:
  "\<exists>s'. ws_write (mem_env :: (mem_io, unit, mask4, unit, unit) env) (MPing [1]) (pinged\<lparr>ws_conn := ClosedByUs\<rparr>)
    = (Err (Protocol SendAfterClosing), s')"
  using write_by_state[where env = "mem_env :: (mem_io, unit, mask4, unit, unit) env" and m = "MPing [1]"
      and s = "pinged\<lparr>ws_conn := ClosedByUs\<rparr>", OF mem.sound_env_axioms surjective_pairing]
  by (auto simp: prod_eq_iff)

text \<open>C31. A connection that has ended stays so, whatever is done with it: reading and writing report
  that it is already closed and change nothing.\<close>

theorem terminated_is_final:
  fixes env :: "('s, 'q, 'g, 'r, 'x) env"
  assumes "sound_env env sent" "ws_inv s" "ws_conn s = Terminated" "reaches env s t"
  shows "ws_conn t = Terminated \<and> ws_read env t = Some (Err AlreadyClosed, t) \<and> ws_write env m t = (Err AlreadyClosed, t)"
proof -
  have "conn_path (ws_conn s) (ws_conn t)" using sound_env.reaches_ok[OF assms(1,4,2)] by blast
  then have "ws_conn t = Terminated" using assms(3) by (simp add: conn_path_terminated)
  then show ?thesis by (simp add: ws_read_def check_not_terminated_def ws_write_eq)
qed

text \<open>A server that has closed flushes, and is then at the end.\<close>

lemma terminated_is_final_witness:
  "let env = mem_env :: (mem_io, unit, mask4, unit, unit) env;
       t = (mem_connection [] Server None (0, 0, 0, 0))\<lparr>ws_conn := Terminated\<rparr>
   in ws_read env (snd (ws_flush env t)) = Some (Err AlreadyClosed, snd (ws_flush env t))"
proof -
  let ?env = "mem_env :: (mem_io, unit, mask4, unit, unit) env"
  let ?s = "mem_connection [] Server None (0, 0, 0, 0)"
  let ?t = "?s\<lparr>ws_conn := Terminated\<rparr>"
  have "limits_ok (config_or_default None)" using default_limits_ok by (simp add: config_or_default_def)
  then have "ws_inv ?s" unfolding mem_connection_def by (rule new_connection_inv(1))
  then have inv: "ws_inv ?t" by (simp add: ws_inv_def ws_decoder_def)
  have "perform ?env OFlush ?t = Some (map_res id (\<lambda>_. None) (fst (ws_flush ?env ?t)), snd (ws_flush ?env ?t))"
    by (simp add: no_message_def split: prod.split)
  then have "reaches ?env ?t (snd (ws_flush ?env ?t))" using reaches_op[OF reaches_start] by blast
  from terminated_is_final[where env = ?env, OF mem.sound_env_axioms inv _ this] show ?thesis by (simp add: Let_def)
qed

section \<open>The opening handshake\<close>

text \<open>The opening handshake and what follows it: the request a client makes of a URI is accepted
  by a server without a callback, in whatever pieces it arrives; what the server writes and
  flushes right after its response arrives at the client, which gets the response and the
  frames in one stream of any pieces, completes its handshake and reads exactly the messages.\<close>

theorem opening_then_messages:
  fixes ht :: "('h, 'u, 'x) http"
  defines "env \<equiv> mem_env :: (mem_io, unit, mask4, 'r, 'x) env"
  assumes "http_messages ht" "connectable ht u" "key \<noteq> []" "limits_ok (config_or_default cc)"
    and "\<forall>m \<in> set ms. transferable (config_or_default cc) m"
  shows "\<exists>buf. \<forall>chunks. concat chunks = buf \<longrightarrow>
    (\<exists>server s1 s2. mem_accept ht chunks sc h = Ok server \<and> opened Server sc [] server
      \<and> write_all env ms server = (Ok (), s1) \<and> ws_flush env s1 = (Ok (), s2)
      \<and> (\<forall>chunks'. concat chunks' = on_the_wire s2 \<longrightarrow>
           (\<exists>client resp t. client_with_config (mem_client ht key) (From_Uri u) (mem_stream chunks') cc g = Ok (client, resp)
              \<and> on_the_wire client = buf \<and> read_n env (length ms) client = Some (ms, t))))"
proof -
  from http_messages.opening_exchange[OF assms(2-4), of sc h cc g] obtain buf where open_both: "\<And>chunks. concat chunks = buf \<Longrightarrow>
      \<exists>server. mem_accept ht chunks sc h = Ok server \<and> opened Server sc [] server
        \<and> (\<forall>chunks' unread. concat chunks' = on_the_wire server @ unread \<longrightarrow>
             (\<exists>client resp. client_with_config (mem_client ht key) (From_Uri u) (mem_stream chunks') cc g = Ok (client, resp)
                \<and> opened Client cc unread client \<and> on_the_wire client = buf))"
    by blast
  show ?thesis
  proof (intro exI[of _ buf] allI impI)
    fix chunks assume "concat chunks = buf"
    then obtain server where server: "mem_accept ht chunks sc h = Ok server" "opened Server sc [] server"
      and client: "\<And>chunks' unread. concat chunks' = on_the_wire server @ unread \<Longrightarrow>
         \<exists>client resp. client_with_config (mem_client ht key) (From_Uri u) (mem_stream chunks') cc g = Ok (client, resp)
                \<and> opened Client cc unread client \<and> on_the_wire client = buf"
      using open_both by blast
    obtain s1 s2 fs where w: "write_all env ms server = (Ok (), s1)" "ws_flush env s1 = (Ok (), s2)"
      "list_all2 (\<lambda>m. sent_as Server (frame_of_message m)) ms fs"
      "on_the_wire s2 = on_the_wire server @ concat (map (frame_bytes aligned_le) fs)"
      using mem_write_flush[of server ms, OF _ assms(6), where ?'r = 'r and ?'x = 'x] server(2) by (auto simp: opened_def env_def)
    have "\<exists>client resp t. client_with_config (mem_client ht key) (From_Uri u) (mem_stream chunks') cc g = Ok (client, resp)
              \<and> on_the_wire client = buf \<and> read_n env (length ms) client = Some (ms, t)"
      if got: "concat chunks' = on_the_wire s2" for chunks'
    proof -
      obtain c resp where c: "client_with_config (mem_client ht key) (From_Uri u) (mem_stream chunks') cc g = Ok (c, resp)"
        "opened Client cc (concat (map (frame_bytes aligned_le) fs)) c" "on_the_wire c = buf"
        using client[of chunks' "concat (map (frame_bytes aligned_le) fs)"] got w(4) by auto
      have "reading_at None c (fs @ [])" using opened_reading[OF c(2) assms(5)] by simp
      moreover have "ws_role c = Client" "ws_config c = config_or_default cc" using c(2) by (simp_all add: opened_def)
      ultimately have "\<exists>t. read_n env (length ms) c = Some (ms, t)"
        using read_n_answers[where s = c and fs = fs and gs = "[]" and ms = ms and inc = None, where ?'r = 'r and ?'x = 'x] w(3) assms(6) unfolding env_def by auto
      then show ?thesis using c(1,3) by blast
    qed
    then show "\<exists>server s1 s2. mem_accept ht chunks sc h = Ok server \<and> opened Server sc [] server
      \<and> write_all env ms server = (Ok (), s1) \<and> ws_flush env s1 = (Ok (), s2)
      \<and> (\<forall>chunks'. concat chunks' = on_the_wire s2 \<longrightarrow>
           (\<exists>client resp t. client_with_config (mem_client ht key) (From_Uri u) (mem_stream chunks') cc g = Ok (client, resp)
              \<and> on_the_wire client = buf \<and> read_n env (length ms) client = Some (ms, t)))"
      using server w(1,2) by blast
  qed
qed

text \<open>The server greets.\<close>

lemma opening_then_messages_witness:
  "let env = mem_env :: (mem_io, unit, mask4, unit, unit) env; hi = MText (Utf8Bytes [0x68, 0x69]) in
   \<exists>buf server s2 client resp t. mem_accept std_http (map (\<lambda>b. [b]) buf) None (0, 0, 0, 0) = Ok server
     \<and> ws_flush env (snd (write_all env [hi] server)) = (Ok (), s2)
     \<and> client_with_config (mem_client std_http [1, 2, 3]) (From_Uri chat_uri) (mem_stream [on_the_wire s2]) None (1, 2, 3, 4) = Ok (client, resp)
     \<and> on_the_wire client = buf \<and> read_n env 1 client = Some ([hi], t)"
proof -
  let ?ms = "[MText (Utf8Bytes [0x68, 0x69])]"
  have limits: "limits_ok (config_or_default None)" using default_limits_ok by (simp add: config_or_default_def)
  have ms: "\<forall>m \<in> set ?ms. transferable (config_or_default None) m"
    by (simp add: config_or_default_def default_config_def limit_of_def utf8_wf_def std_from_utf8_step utf8_char_width_def)
  have "concat (map (\<lambda>b. [b]) bs) = bs" for bs :: bytes by (induction bs) simp_all
  with opening_then_messages[OF std.http_messages_axioms chat_uri_connectable(2) _ limits ms, of "[1, 2, 3]" None "(0, 0, 0, 0)" "(1, 2, 3, 4)",
      where ?'r = unit]
  show ?thesis by (fastforce simp: Let_def)
qed

end
